(* ===== verification/Load_Monitor.thy ===== *)
theory Load_Monitor
  imports Prelude
begin

text \<open>
  \<open>src/src/wireguard/u64_counter.rs\<close> and \<open>src/src/wireguard/load_monitor.rs\<close>: the wrapping
  counter, and the token bucket that decides whether handshake messages arrive too quickly.
  An instant is a number of nanoseconds. The arithmetic of \<open>check\<close> is that of \<open>u64\<close> in a release
  build, where it wraps. \<open>lm_check_spec\<close> shows that it computes the intended bucket while the time
  since the last check is short enough, \<open>lm_check_overflow\<close> that it does not in general.
\<close>

section \<open>The counter\<close>

definition counter_new :: "u64 \<Rightarrow> u64" where
  "counter_new value = value"

definition counter_fetch_add :: "u64 \<Rightarrow> u64 \<Rightarrow> u64 \<times> u64" where
  "counter_fetch_add inner val = (inner, inner + val)"

definition counter_load :: "u64 \<Rightarrow> u64" where
  "counter_load inner = inner"

section \<open>The token bucket\<close>

type_synonym instant = nat

definition NANOS_PER_SEC :: u64 where "NANOS_PER_SEC = 1000000000"
definition CAP_RATIO :: u64 where "CAP_RATIO = 4"

record load_monitor =
  lm_freq :: u32
  lm_bucket :: u64
  lm_last_check :: instant
  lm_under_load :: bool

definition lm_new :: "u32 \<Rightarrow> instant \<Rightarrow> load_monitor" where
  "lm_new freq now =
     \<lparr>lm_freq = freq, lm_bucket = CAP_RATIO * ucast freq * NANOS_PER_SEC,
      lm_last_check = now, lm_under_load = False\<rparr>"

text \<open>\<open>Duration::as_secs\<close> and \<open>Duration::subsec_nanos\<close>.\<close>

definition as_secs :: "nat \<Rightarrow> u64" where
  "as_secs passed = of_nat (passed div 1000000000)"

definition subsec_nanos :: "nat \<Rightarrow> u32" where
  "subsec_nanos passed = of_nat (passed mod 1000000000)"

definition lm_check :: "load_monitor \<Rightarrow> instant \<Rightarrow> bool \<times> load_monitor" where
  "lm_check lm now =
     (let freq = ucast (lm_freq lm) :: u64;
          cap = CAP_RATIO * freq * NANOS_PER_SEC;
          passed = now - lm_last_check lm;
          bucket_add = (as_secs passed * freq * NANOS_PER_SEC) + ucast (subsec_nanos passed) * freq;
          bucket1 = min cap (lm_bucket lm + bucket_add);
          bucket2 = saturating_sub bucket1 NANOS_PER_SEC;
          under_load =
            (if lm_under_load lm then
               (if bucket2 \<ge> 7 * cap div 8 then False else True)
             else if bucket2 \<le> 3 * cap div 4 then True else False)
      in (under_load, lm\<lparr>lm_last_check := now, lm_bucket := bucket2, lm_under_load := under_load\<rparr>))"

fun lm_run :: "load_monitor \<Rightarrow> instant list \<Rightarrow> bool list" where
  "lm_run lm [] = []"
| "lm_run lm (now # ts) = (let (r, lm') = lm_check lm now in r # lm_run lm' ts)"

section \<open>The intended bucket\<close>

text \<open>In natural numbers: \<open>freq\<close> tokens a second, each of a billion units, at most \<open>cap\<close>.\<close>

definition lm_cap :: "load_monitor \<Rightarrow> nat" where
  "lm_cap lm = 4 * unat (lm_freq lm) * 1000000000"

definition ideal_bucket :: "load_monitor \<Rightarrow> instant \<Rightarrow> nat" where
  "ideal_bucket lm now =
     min (lm_cap lm) (unat (lm_bucket lm) + (now - lm_last_check lm) * unat (lm_freq lm)) - 1000000000"

definition ideal_under_load :: "load_monitor \<Rightarrow> instant \<Rightarrow> bool" where
  "ideal_under_load lm now \<longleftrightarrow>
     (if lm_under_load lm then 8 * ideal_bucket lm now < 7 * lm_cap lm
      else 4 * ideal_bucket lm now \<le> 3 * lm_cap lm)"

lemma cap_word:
  assumes "28000000000 * unat (f :: u32) < 2 ^ 64"
  shows "unat (CAP_RATIO * ucast f * NANOS_PER_SEC) = 4000000000 * unat f"
    and "unat (7 * (CAP_RATIO * ucast f * NANOS_PER_SEC)) = 28000000000 * unat f"
    and "unat (3 * (CAP_RATIO * ucast f * NANOS_PER_SEC)) = 12000000000 * unat f"
  using assms by (simp_all add: CAP_RATIO_def NANOS_PER_SEC_def unat_word_ariths unat_ucast_up)

lemma passed_word:
  fixes f :: u32
  assumes "p * unat f < 2 ^ 64" "0 < unat f"
  shows "unat ((as_secs p * ucast f * NANOS_PER_SEC) + ucast (subsec_nanos p) * ucast f :: u64) = p * unat f"
proof -
  have p: "p < 2 ^ 64" using assms by (metis One_nat_def Suc_leI le_less_trans mult.right_neutral mult_le_mono2)
  have secs: "unat (as_secs p) = p div 1000000000"
    using p by (simp add: as_secs_def unat_of_nat)
  have nanos: "unat (ucast (subsec_nanos p) :: u64) = p mod 1000000000"
    by (simp add: subsec_nanos_def unat_of_nat unat_ucast_up)
  have "(q * k + r) * g = q * g * k + r * g" for q k r g :: nat by (simp add: algebra_simps)
  from this [of "p div 1000000000" 1000000000 "p mod 1000000000" "unat f"]
  have split: "p * unat f = p div 1000000000 * unat f * 1000000000 + p mod 1000000000 * unat f"
    by (simp only: div_mult_mod_eq)
  have f: "unat (ucast f :: u64) = unat f" by (rule unat_ucast_up) simp
  have parts: "p div 1000000000 * unat f * 1000000000 < 2 ^ 64" "p mod 1000000000 * unat f < 2 ^ 64"
    using split assms(1) by linarith+
  then have "p div 1000000000 * unat f < 2 ^ 64" by linarith
  then have "unat (as_secs p * ucast f :: u64) = p div 1000000000 * unat f"
    by (subst unat_mult_small) (simp_all add: secs f)
  then have s: "unat (as_secs p * ucast f * NANOS_PER_SEC :: u64) = p div 1000000000 * unat f * 1000000000"
    using parts by (subst unat_mult_small) (simp_all add: NANOS_PER_SEC_def)
  have n: "unat (ucast (subsec_nanos p) * ucast f :: u64) = p mod 1000000000 * unat f"
    using parts by (subst unat_mult_small) (simp_all add: nanos f)
  have "unat ((as_secs p * ucast f * NANOS_PER_SEC) + ucast (subsec_nanos p) * ucast f :: u64) =
      unat (as_secs p * ucast f * NANOS_PER_SEC :: u64) + unat (ucast (subsec_nanos p) * ucast f :: u64)"
    using split assms(1) by (intro unat_add_small) (simp add: s n)
  then show ?thesis using split by (simp only: s n)
qed

lemma min_word: "unat (min a b) = min (unat a) (unat b)" for a b :: "'a::len word"
  by (simp add: min_def word_le_nat_alt)

lemma lm_check_ideal:
  assumes freq: "0 < lm_freq lm" "28000000000 * unat (lm_freq lm) < 2 ^ 64"
    and fits: "unat (lm_bucket lm) + (now - lm_last_check lm) * unat (lm_freq lm) < 2 ^ 64"
  shows "fst (lm_check lm now) = ideal_under_load lm now \<and>
    unat (lm_bucket (snd (lm_check lm now))) = ideal_bucket lm now \<and>
    lm_under_load (snd (lm_check lm now)) = ideal_under_load lm now \<and>
    lm_last_check (snd (lm_check lm now)) = now"
proof -
  let ?f = "ucast (lm_freq lm) :: u64"
  let ?cap = "CAP_RATIO * ?f * NANOS_PER_SEC"
  let ?p = "now - lm_last_check lm"
  let ?add = "(as_secs ?p * ?f * NANOS_PER_SEC) + ucast (subsec_nanos ?p) * ?f"
  let ?b = "saturating_sub (min ?cap (lm_bucket lm + ?add)) NANOS_PER_SEC"
  note cap = cap_word [OF freq(2)]
  have add: "unat ?add = ?p * unat (lm_freq lm)"
    using fits freq(1) by (intro passed_word) (auto simp: word_less_nat_alt)
  then have "unat (lm_bucket lm + ?add) = unat (lm_bucket lm) + ?p * unat (lm_freq lm)"
    using fits by (simp add: unat_add_small)
  moreover have "unat NANOS_PER_SEC = 1000000000" by (simp add: NANOS_PER_SEC_def)
  ultimately have b: "unat ?b = ideal_bucket lm now"
    by (simp add: unat_saturating_sub min_word cap ideal_bucket_def lm_cap_def)
  have hi: "?b \<ge> 7 * ?cap div 8 \<longleftrightarrow> \<not> 8 * ideal_bucket lm now < 7 * lm_cap lm"
    by (simp add: word_le_nat_alt b unat_div cap lm_cap_def) linarith
  have lo: "?b \<le> 3 * ?cap div 4 \<longleftrightarrow> 4 * ideal_bucket lm now \<le> 3 * lm_cap lm"
    by (simp add: word_le_nat_alt b unat_div cap lm_cap_def)
  show ?thesis
    unfolding lm_check_def Let_def hi lo using b by (simp add: ideal_under_load_def)
qed

text \<open>
  C29: While the tokens earned since the last check fit in a \<open>u64\<close>, \<open>check\<close> refills and drains the
  bucket as intended, and reports load with hysteresis: it starts at three quarters of the bucket
  and ends at seven eighths.
\<close>

theorem lm_check_spec:
  assumes freq: "0 < lm_freq lm" "28000000000 * unat (lm_freq lm) < 2 ^ 64"
    and fits: "unat (lm_bucket lm) + (now - lm_last_check lm) * unat (lm_freq lm) < 2 ^ 64"
  shows "fst (lm_check lm now) = ideal_under_load lm now \<and>
    unat (lm_bucket (snd (lm_check lm now))) = ideal_bucket lm now \<and>
    lm_under_load (snd (lm_check lm now)) = ideal_under_load lm now \<and>
    lm_last_check (snd (lm_check lm now)) = now"
  using assms by (rule lm_check_ideal)

theorem lm_check_spec_witness:
  "fst (lm_check (lm_new 100 0) 500) = ideal_under_load (lm_new 100 0) 500 \<and>
    unat (lm_bucket (snd (lm_check (lm_new 100 0) 500))) = ideal_bucket (lm_new 100 0) 500 \<and>
    lm_under_load (snd (lm_check (lm_new 100 0) 500)) = ideal_under_load (lm_new 100 0) 500 \<and>
    lm_last_check (snd (lm_check (lm_new 100 0) 500)) = 500"
  by (rule lm_check_spec) (simp_all add: lm_new_def CAP_RATIO_def NANOS_PER_SEC_def)

text \<open>
  Because \<open>passed.as_secs() * freq * NANOS_PER_SEC\<close> wraps, a long quiet period need not fill
  the bucket: after 73786977 seconds (854 days) without a message the monitor of the interface
  (250 messages a second), left under load with an empty bucket, still reports load.
\<close>

theorem lm_check_overflow:
  "let lm = \<lparr>lm_freq = 250, lm_bucket = 0, lm_last_check = 0, lm_under_load = True\<rparr>;
       now = 73786977 * 1000000000
   in fst (lm_check lm now) \<and> \<not> ideal_under_load lm now \<and>
      unat (lm_bucket (snd (lm_check lm now))) < ideal_bucket lm now"
  by (simp add: lm_check_def ideal_under_load_def ideal_bucket_def lm_cap_def CAP_RATIO_def
      NANOS_PER_SEC_def as_secs_def subsec_nanos_def saturating_sub_def Let_def)

text \<open>A burst: checks at one instant drain one token each.\<close>

lemma lm_burst_state:
  assumes freq: "0 < lm_freq lm" "28000000000 * unat (lm_freq lm) < 2 ^ 64"
    and lm: "lm_last_check lm = now" "unat (lm_bucket lm) = 1000000000 * k"
      "k \<le> 4 * unat (lm_freq lm)" "lm_under_load lm \<longrightarrow> k \<le> 3 * unat (lm_freq lm)"
  shows "lm_run lm (replicate n now) = map (\<lambda>i. k \<le> 3 * unat (lm_freq lm) + i + 1) [0..<n]"
  using assms
proof (induction n arbitrary: lm k)
  case (Suc n)
  define lm' where "lm' = snd (lm_check lm now)"
  have fits: "unat (lm_bucket lm) + (now - lm_last_check lm) * unat (lm_freq lm) < 2 ^ 64"
    using Suc.prems unat_u64_less [of "lm_bucket lm"] by simp
  note step = lm_check_ideal [OF Suc.prems(1,2) fits]
  have bucket: "ideal_bucket lm now = 1000000000 * (k - 1)"
    using Suc.prems by (simp add: ideal_bucket_def lm_cap_def diff_mult_distrib2)
  have load: "ideal_under_load lm now \<longleftrightarrow> k \<le> 3 * unat (lm_freq lm) + 1"
    using Suc.prems unfolding ideal_under_load_def bucket lm_cap_def by (cases k) (auto simp: word_less_nat_alt)
  have freq: "lm_freq lm' = lm_freq lm" by (simp add: lm'_def lm_check_def Let_def)
  have "lm_run lm' (replicate n now) = map (\<lambda>i. k - 1 \<le> 3 * unat (lm_freq lm') + i + 1) [0..<n]"
    using Suc.prems step bucket load by (intro Suc.IH) (auto simp: lm'_def [symmetric] freq)
  moreover have "lm_run lm (replicate (Suc n) now) = ideal_under_load lm now # lm_run lm' (replicate n now)"
    using step by (cases "lm_check lm now") (simp add: lm'_def)
  ultimately show ?case
    unfolding load freq by (auto simp: upt_conv_Cons map_Suc_upt [symmetric] simp del: upt_Suc)
qed simp

text \<open>
  A burst against a fresh monitor that allows \<open>freq\<close> messages a second: the first
  \<open>freq - 1\<close> messages that arrive at once report no load, every later one does.
\<close>

theorem lm_burst:
  assumes "0 < freq" "28000000000 * unat freq < 2 ^ 64"
  shows "lm_run (lm_new freq now) (replicate n now) = map (\<lambda>i. unat freq \<le> i + 1) [0..<n]"
proof -
  have "unat (CAP_RATIO * ucast freq * NANOS_PER_SEC) = 1000000000 * (4 * unat freq)"
    using cap_word(1) [OF assms(2)] by simp
  then show ?thesis
    using assms lm_burst_state [of "lm_new freq now" now "4 * unat freq" n] by (simp add: lm_new_def)
qed

theorem lm_burst_witness:
  "lm_run (lm_new 100 7) (replicate 110 7) = map (\<lambda>i. unat (100 :: u32) \<le> i + 1) [0..<110]"
  by (rule lm_burst) simp_all

end
