(* ===== verification/Simd.thy ===== *)
theory Simd
  imports Prelude
begin

text \<open>
  \<open>src/src/crypto/simd.rs\<close> and \<open>src/src/crypto/constant_time_eq.rs\<close>: vectors of four \<open>u32\<close>,
  once portable (\<open>simd_fallback\<close>) and once over the SSE2 and SSSE3 intrinsics of
  \<open>std::arch\<close> (\<open>simd_x86\<close>), and the comparison of 16-byte tags. An \<open>__m128i\<close> is its sixteen bytes in
  memory order. The operations a client uses are the record \<open>simd\<close>; the locale \<open>simd_vectors\<close>
  states that they act lane by lane, and all three machines interpret it.
\<close>

section \<open>The portable vector\<close>

datatype u32x4 = U32x4 u32 u32 u32 u32

definition fb_new :: "u32 \<Rightarrow> u32 \<Rightarrow> u32 \<Rightarrow> u32 \<Rightarrow> u32x4" where
  "fb_new a b c d = U32x4 a b c d"

definition fb_load_le :: "bytes \<Rightarrow> u32x4" where
  "fb_load_le addr = U32x4 (le_word (slice 0 4 addr)) (le_word (slice 4 8 addr))
     (le_word (slice 8 12 addr)) (le_word (slice 12 16 addr))"

fun fb_store_le :: "u32x4 \<Rightarrow> bytes" where
  "fb_store_le (U32x4 a b c d) = le_bytes 4 a @ le_bytes 4 b @ le_bytes 4 c @ le_bytes 4 d"

fun fb_rotate_left_const :: "u32x4 \<Rightarrow> nat \<Rightarrow> u32x4" where
  "fb_rotate_left_const (U32x4 a b c d) amt =
     U32x4 (word_rotl amt a) (word_rotl amt b) (word_rotl amt c) (word_rotl amt d)"

text \<open>Amounts other than 1, 2 and 3 are \<open>unreachable!()\<close>: the model leaves the vector.\<close>

fun fb_shuffle_left :: "u32x4 \<Rightarrow> nat \<Rightarrow> u32x4" where
  "fb_shuffle_left (U32x4 a b c d) amt =
     (if amt = 1 then U32x4 b c d a
      else if amt = 2 then U32x4 c d a b
      else if amt = 3 then U32x4 d a b c
      else U32x4 a b c d)"

definition fb_shuffle_right :: "u32x4 \<Rightarrow> nat \<Rightarrow> u32x4" where
  "fb_shuffle_right v amt = fb_shuffle_left v (4 - amt)"

fun fb_add :: "u32x4 \<Rightarrow> u32x4 \<Rightarrow> u32x4" where
  "fb_add (U32x4 a b c d) (U32x4 a' b' c' d') = U32x4 (a + a') (b + b') (c + c') (d + d')"

fun fb_bitxor :: "u32x4 \<Rightarrow> u32x4 \<Rightarrow> u32x4" where
  "fb_bitxor (U32x4 a b c d) (U32x4 a' b' c' d') = U32x4 (a XOR a') (b XOR b') (c XOR c') (d XOR d')"

fun fb_bitor :: "u32x4 \<Rightarrow> u32x4 \<Rightarrow> u32x4" where
  "fb_bitor (U32x4 a b c d) (U32x4 a' b' c' d') = U32x4 (a OR a') (b OR b') (c OR c') (d OR d')"

section \<open>The intrinsics\<close>

type_synonym m128i = bytes

definition lanes :: "m128i \<Rightarrow> u32x4" where
  "lanes v = fb_load_le v"

definition from_lanes :: "u32x4 \<Rightarrow> m128i" where
  "from_lanes v = fb_store_le v"

definition mm_setr_epi32 :: "u32 \<Rightarrow> u32 \<Rightarrow> u32 \<Rightarrow> u32 \<Rightarrow> m128i" where
  "mm_setr_epi32 a b c d = from_lanes (U32x4 a b c d)"

definition mm_shuffle_epi8 :: "m128i \<Rightarrow> m128i \<Rightarrow> m128i" where
  "mm_shuffle_epi8 v s = map (\<lambda>b. if bit b 7 then 0 else v ! unat (b AND 15)) s"

definition half :: "m128i \<Rightarrow> nat \<Rightarrow> bytes" where
  "half v j = slice (2 * j) (2 * j + 2) v"

definition imm :: "u8 \<Rightarrow> nat \<Rightarrow> nat" where
  "imm i8 i = unat (drop_bit (2 * i) i8 AND 3)"

definition mm_shufflelo_epi16 :: "m128i \<Rightarrow> u8 \<Rightarrow> m128i" where
  "mm_shufflelo_epi16 v i8 =
     half v (imm i8 0) @ half v (imm i8 1) @ half v (imm i8 2) @ half v (imm i8 3) @ slice 8 16 v"

definition mm_shufflehi_epi16 :: "m128i \<Rightarrow> u8 \<Rightarrow> m128i" where
  "mm_shufflehi_epi16 v i8 =
     slice 0 8 v @ half v (4 + imm i8 0) @ half v (4 + imm i8 1) @ half v (4 + imm i8 2) @ half v (4 + imm i8 3)"

definition mm_shuffle_epi32 :: "m128i \<Rightarrow> u8 \<Rightarrow> m128i" where
  "mm_shuffle_epi32 v i8 =
     (let lane = (\<lambda>i. slice (4 * imm i8 i) (4 * imm i8 i + 4) v) in lane 0 @ lane 1 @ lane 2 @ lane 3)"

fun map_lanes :: "(u32 \<Rightarrow> u32) \<Rightarrow> u32x4 \<Rightarrow> u32x4" where
  "map_lanes f (U32x4 a b c d) = U32x4 (f a) (f b) (f c) (f d)"

definition mm_slli_epi32 :: "m128i \<Rightarrow> nat \<Rightarrow> m128i" where
  "mm_slli_epi32 v n = from_lanes (map_lanes (push_bit n) (lanes v))"

definition mm_srli_epi32 :: "m128i \<Rightarrow> nat \<Rightarrow> m128i" where
  "mm_srli_epi32 v n = from_lanes (map_lanes (drop_bit n) (lanes v))"

definition mm_add_epi32 :: "m128i \<Rightarrow> m128i \<Rightarrow> m128i" where
  "mm_add_epi32 v w = from_lanes (fb_add (lanes v) (lanes w))"

definition mm_xor_si128 :: "m128i \<Rightarrow> m128i \<Rightarrow> m128i" where
  "mm_xor_si128 v w = map2 (XOR) v w"

definition mm_or_si128 :: "m128i \<Rightarrow> m128i \<Rightarrow> m128i" where
  "mm_or_si128 v w = map2 (OR) v w"

definition mm_cmpeq_epi8 :: "m128i \<Rightarrow> m128i \<Rightarrow> m128i" where
  "mm_cmpeq_epi8 v w = map2 (\<lambda>a b. if a = b then - 1 else 0) v w"

definition mm_movemask_epi8 :: "m128i \<Rightarrow> u32" where
  "mm_movemask_epi8 v = horner_sum of_bool 2 (map (\<lambda>b. bit b 7) v)"

section \<open>The vector over the intrinsics\<close>

datatype machine = SSE2Machine | SSSE3Machine

fun has_ssse3 :: "machine \<Rightarrow> bool" where
  "has_ssse3 SSE2Machine = False"
| "has_ssse3 SSSE3Machine = True"

definition shuffle16 :: "m128i \<Rightarrow> u8 list \<Rightarrow> m128i" where
  "shuffle16 v xs = mm_shuffle_epi8 v xs"

definition MM_SHUFFLE_REV :: "u8 \<Rightarrow> u8 \<Rightarrow> u8 \<Rightarrow> u8 \<Rightarrow> u8" where
  "MM_SHUFFLE_REV w x y z = push_bit 6 z OR push_bit 4 y OR push_bit 2 x OR w"

definition x86_new :: "u32 \<Rightarrow> u32 \<Rightarrow> u32 \<Rightarrow> u32 \<Rightarrow> m128i" where
  "x86_new a b c d = mm_setr_epi32 a b c d"

definition x86_load_le :: "bytes \<Rightarrow> m128i" where
  "x86_load_le addr = addr"

definition x86_store_le :: "m128i \<Rightarrow> bytes" where
  "x86_store_le v = v"

definition x86_rotate_left_any :: "m128i \<Rightarrow> nat \<Rightarrow> m128i" where
  "x86_rotate_left_any v amt =
     (if amt = 0 then v
      else let a = mm_slli_epi32 v amt; b = mm_srli_epi32 v (32 - amt) in mm_or_si128 a b)"

definition x86_rotate_left_16 :: "m128i \<Rightarrow> machine \<Rightarrow> m128i" where
  "x86_rotate_left_16 v m =
     (if has_ssse3 m then shuffle16 v [2, 3, 0, 1, 6, 7, 4, 5, 10, 11, 8, 9, 14, 15, 12, 13]
      else mm_shufflelo_epi16 (mm_shufflehi_epi16 v 0xB1) 0xB1)"

definition x86_rotate_left_8 :: "m128i \<Rightarrow> machine \<Rightarrow> m128i" where
  "x86_rotate_left_8 v m =
     (if has_ssse3 m then shuffle16 v [3, 0, 1, 2, 7, 4, 5, 6, 11, 8, 9, 10, 15, 12, 13, 14]
      else x86_rotate_left_any v 8)"

definition x86_rotate_left_24 :: "m128i \<Rightarrow> machine \<Rightarrow> m128i" where
  "x86_rotate_left_24 v m =
     (if has_ssse3 m then shuffle16 v [1, 2, 3, 0, 5, 6, 7, 4, 9, 10, 11, 8, 13, 14, 15, 12]
      else x86_rotate_left_any v 24)"

definition x86_rotate_left_const :: "m128i \<Rightarrow> nat \<Rightarrow> machine \<Rightarrow> m128i" where
  "x86_rotate_left_const v amt m =
     (if amt = 16 then x86_rotate_left_16 v m
      else if amt = 8 then x86_rotate_left_8 v m
      else if amt = 24 then x86_rotate_left_24 v m
      else x86_rotate_left_any v amt)"

definition x86_shuffle_left :: "m128i \<Rightarrow> nat \<Rightarrow> m128i" where
  "x86_shuffle_left v amt =
     (if amt = 1 then mm_shuffle_epi32 v (MM_SHUFFLE_REV 1 2 3 0)
      else if amt = 2 then mm_shuffle_epi32 v (MM_SHUFFLE_REV 2 3 0 1)
      else if amt = 3 then mm_shuffle_epi32 v (MM_SHUFFLE_REV 3 0 1 2)
      else v)"

definition x86_shuffle_right :: "m128i \<Rightarrow> nat \<Rightarrow> m128i" where
  "x86_shuffle_right v amt = x86_shuffle_left v (4 - amt)"

definition x86_add :: "m128i \<Rightarrow> m128i \<Rightarrow> m128i" where
  "x86_add v w = mm_add_epi32 v w"

definition x86_bitxor :: "m128i \<Rightarrow> m128i \<Rightarrow> m128i" where
  "x86_bitxor v w = mm_xor_si128 v w"

definition x86_bitor :: "m128i \<Rightarrow> m128i \<Rightarrow> m128i" where
  "x86_bitor v w = mm_or_si128 v w"

section \<open>The comparison of tags\<close>

definition constant_time_ne_16 :: "bytes \<Rightarrow> bytes \<Rightarrow> u8" where
  "constant_time_ne_16 a b = fold (\<lambda>i tmp. tmp OR (a ! i XOR b ! i)) [0..<16] 0"

definition constant_time_eq_16_fallback :: "bytes \<Rightarrow> bytes \<Rightarrow> bool" where
  "constant_time_eq_16_fallback a b \<longleftrightarrow> constant_time_ne_16 a b = 0"

definition constant_time_eq_16 :: "bytes \<Rightarrow> bytes \<Rightarrow> bool" where
  "constant_time_eq_16 a b \<longleftrightarrow> mm_movemask_epi8 (mm_cmpeq_epi8 a b) = 0xffff"

lemma fold_or_zero: "fold (\<lambda>i tmp. tmp OR f i) xs (z :: u8) = 0 \<longleftrightarrow> z = 0 \<and> (\<forall>i\<in>set xs. f i = 0)"
proof (induction xs arbitrary: z)
  case (Cons i xs)
  have "z OR f i = 0 \<longleftrightarrow> z = 0 \<and> f i = 0"
    by (auto simp: bit_eq_iff bit_simps)
  with Cons show ?case by auto
qed simp

lemma constant_time_fallback_iff:
  assumes "length a = 16" "length b = 16"
  shows "constant_time_eq_16_fallback a b \<longleftrightarrow> a = b"
proof -
  have "x XOR y = 0 \<longleftrightarrow> x = y" for x y :: u8 by (auto simp: bit_eq_iff bit_simps)
  then show ?thesis
    using assms by (auto simp: constant_time_eq_16_fallback_def constant_time_ne_16_def fold_or_zero
        list_eq_iff_nth_eq simp del: upt_rec)
qed

lemma constant_time_sse2_iff:
  assumes "length a = 16" "length b = 16"
  shows "constant_time_eq_16 a b \<longleftrightarrow> a = b"
proof -
  let ?bs = "map2 (\<lambda>x y. x = y) a b"
  have len: "length ?bs = 16" using assms by simp
  have "mm_movemask_epi8 (mm_cmpeq_epi8 a b) = horner_sum of_bool 2 ?bs"
    unfolding mm_movemask_epi8_def mm_cmpeq_epi8_def map_map comp_def
    by (rule arg_cong [where f = "horner_sum of_bool 2"]) (auto simp: bit_simps split: if_splits)
  moreover have "horner_sum of_bool 2 ?bs = (0xffff :: u32) \<longleftrightarrow> ?bs = replicate 16 True"
  proof
    assume h: "horner_sum of_bool 2 ?bs = (0xffff :: u32)"
    have m: "(0xffff :: u32) = mask 16" by (simp add: mask_eq_exp_minus_1)
    show "?bs = replicate 16 True"
    proof (rule nth_equalityI)
      fix i assume "i < length ?bs"
      then have i: "i < 16" unfolding len .
      have "bit (horner_sum of_bool 2 ?bs :: u32) i = bit (mask 16 :: u32) i" using h m by metis
      then show "?bs ! i = replicate 16 True ! i"
        using i len by (simp add: bit_horner_sum_bit_word_iff bit_mask_iff del: length_map)
    qed (use len in \<open>simp only: length_replicate\<close>)
  next
    assume "?bs = replicate 16 True"
    then show "horner_sum of_bool 2 ?bs = (0xffff :: u32)" by (simp add: numeral_eq_Suc)
  qed
  moreover have "?bs = replicate 16 True \<longleftrightarrow> a = b"
    using assms by (auto simp: list_eq_iff_nth_eq)
  ultimately show ?thesis by (simp add: constant_time_eq_16_def)
qed

text \<open>
  Both comparisons of two 16-byte tags, the accumulated exclusive or and the one over SSE2
  intrinsics, decide equality.
\<close>

theorem constant_time_eq_16_correct:
  assumes "length a = 16" "length b = 16"
  shows "(constant_time_eq_16 a b \<longleftrightarrow> a = b) \<and> (constant_time_eq_16_fallback a b \<longleftrightarrow> a = b)"
  using constant_time_sse2_iff [OF assms] constant_time_fallback_iff [OF assms] by blast

theorem constant_time_eq_16_correct_witness:
  "(constant_time_eq_16 (replicate 16 7) (replicate 15 7 @ [6]) \<longleftrightarrow> replicate 16 7 = (replicate 15 7 @ [6] :: bytes)) \<and>
   (constant_time_eq_16_fallback (replicate 16 7) (replicate 15 7 @ [6]) \<longleftrightarrow> replicate 16 7 = (replicate 15 7 @ [6] :: bytes))"
  by (rule constant_time_eq_16_correct) simp_all

section \<open>The vectors lane by lane\<close>

lemma take_slices:
  assumes "length v = 16"
  obtains b0 b1 b2 b3 b4 b5 b6 b7 b8 b9 b10 b11 b12 b13 b14 b15
  where "v = [b0, b1, b2, b3, b4, b5, b6, b7, b8, b9, b10, b11, b12, b13, b14, b15]"
  using assms by (auto simp: numeral_eq_Suc length_Suc_conv)

lemma lanes_from_lanes: "lanes (from_lanes v) = v"
  by (cases v) (simp add: lanes_def from_lanes_def fb_load_le_def slice_def le_word_bytes)

lemma length_from_lanes: "length (from_lanes v) = 16"
  by (cases v) (simp add: from_lanes_def)

lemma from_lanes_lanes: "length v = 16 \<Longrightarrow> from_lanes (lanes v) = v"
  by (erule take_slices) (simp add: lanes_def from_lanes_def fb_load_le_def slice_def le_bytes_word)

lemma le_word_map2:
  assumes "length xs = length ys"
  shows "le_word (map2 (OR) xs ys) = (le_word xs OR le_word ys :: 'a::len word)"
    and "le_word (map2 (XOR) xs ys) = (le_word xs XOR le_word ys :: 'a::len word)"
  using assms by (auto intro!: bit_word_eqI simp: bit_le_word bit_simps)

lemma lanes_or:
  assumes "length v = 16" "length w = 16"
  shows "lanes (mm_or_si128 v w) = fb_bitor (lanes v) (lanes w)"
    and "lanes (mm_xor_si128 v w) = fb_bitxor (lanes v) (lanes w)"
  using assms
  by (simp_all add: lanes_def fb_load_le_def slice_def mm_or_si128_def mm_xor_si128_def
      drop_zip take_zip drop_map take_map le_word_map2)

lemma shift_or_rotl:
  "0 < n \<Longrightarrow> n < 32 \<Longrightarrow> push_bit n w OR drop_bit (32 - n) w = word_rotl n w" for w :: u32
proof (rule bit_word_eqI)
  fix i assume n: "0 < n" "n < 32" and "i < LENGTH(32)"
  then have i: "i < 32" by simp
  show "bit (push_bit n w OR drop_bit (32 - n) w) i = bit (word_rotl n w) i"
  proof (cases "i < n")
    case True
    then have "(i + (32 - n)) mod 32 = 32 - n + i" using n by simp
    then show ?thesis using True n i by (simp add: bit_simps bit_word_rotl_iff)
  next
    case False
    then obtain k where k: "i = n + k" by (metis le_Suc_ex not_less)
    then have "(i + (32 - n)) mod 32 = k" "\<not> bit w (32 - n + i)"
      using n i bit_imp_le_length [of w "32 - n + i"] by auto
    then show ?thesis using k n i by (simp add: bit_simps bit_word_rotl_iff)
  qed
qed

lemma byte_index:
  assumes "i < (32 :: nat)"
  obtains q r where "i = 8 * q + r" "r < 8" "q = 0 \<or> q = 1 \<or> q = 2 \<or> q = 3"
proof -
  have "i div 8 = 0 \<or> i div 8 = 1 \<or> i div 8 = 2 \<or> i div 8 = 3" using assms by linarith
  then show ?thesis using that [of "i div 8" "i mod 8"] by simp
qed

lemma byte_mod:
  assumes "r < (8 :: nat)"
  shows "(r + 8) mod 8 = r" "(r + 16) mod 8 = r" "(r + 24) mod 8 = r"
    "(r + 8) div 8 = 1" "(r + 16) div 8 = 2" "(r + 24) div 8 = 3"
    "(8 + r) mod 8 = r" "(16 + r) mod 8 = r" "(24 + r) mod 8 = r"
    "(8 + r) div 8 = 1" "(16 + r) div 8 = 2" "(24 + r) div 8 = 3"
    "(32 + r) mod 32 = r" "(40 + r) mod 32 = 8 + r" "(48 + r) mod 32 = 16 + r"
proof -
  have d: "(8 * q + r) div 8 = q" "(8 * q + r) mod 8 = r" for q using assms by simp_all
  have m: "(32 + s) mod 32 = s" if "s < 32" for s :: nat using that by simp
  show "(r + 8) mod 8 = r" "(r + 16) mod 8 = r" "(r + 24) mod 8 = r"
    "(r + 8) div 8 = 1" "(r + 16) div 8 = 2" "(r + 24) div 8 = 3"
    "(8 + r) mod 8 = r" "(16 + r) mod 8 = r" "(24 + r) mod 8 = r"
    "(8 + r) div 8 = 1" "(16 + r) div 8 = 2" "(24 + r) div 8 = 3"
    using d [of 1] d [of 2] d [of 3] by (simp_all add: add.commute)
  show "(32 + r) mod 32 = r" "(40 + r) mod 32 = 8 + r" "(48 + r) mod 32 = 16 + r"
    using assms m [of r] m [of "8 + r"] m [of "16 + r"] by (simp_all add: add.assoc [symmetric])
qed

lemma rotl_0: "word_rotl 0 w = w" for w :: u32
  by (rule bit_word_eqI) (simp add: bit_word_rotl_iff)

lemma rotl_bytes:
  "word_rotl 8 (le_word [a, b, c, d] :: u32) = le_word [d, a, b, c]"
  "word_rotl 16 (le_word [a, b, c, d] :: u32) = le_word [c, d, a, b]"
  "word_rotl 24 (le_word [a, b, c, d] :: u32) = le_word [b, c, d, a]"
proof -
  show "word_rotl 8 (le_word [a, b, c, d] :: u32) = le_word [d, a, b, c]"
  proof (rule bit_word_eqI)
    fix i assume "i < LENGTH(32)"
    then have "i < 32" by simp
    then obtain q r where "i = 8 * q + r" "r < 8" "q = 0 \<or> q = 1 \<or> q = 2 \<or> q = 3" by (rule byte_index)
    then show "bit (word_rotl 8 (le_word [a, b, c, d] :: u32)) i = bit (le_word [d, a, b, c] :: u32) i"
      by (auto simp: bit_word_rotl_iff bit_le_word byte_mod)
  qed
  show "word_rotl 16 (le_word [a, b, c, d] :: u32) = le_word [c, d, a, b]"
  proof (rule bit_word_eqI)
    fix i assume "i < LENGTH(32)"
    then have "i < 32" by simp
    then obtain q r where "i = 8 * q + r" "r < 8" "q = 0 \<or> q = 1 \<or> q = 2 \<or> q = 3" by (rule byte_index)
    then show "bit (word_rotl 16 (le_word [a, b, c, d] :: u32)) i = bit (le_word [c, d, a, b] :: u32) i"
      by (auto simp: bit_word_rotl_iff bit_le_word byte_mod)
  qed
  show "word_rotl 24 (le_word [a, b, c, d] :: u32) = le_word [b, c, d, a]"
  proof (rule bit_word_eqI)
    fix i assume "i < LENGTH(32)"
    then have "i < 32" by simp
    then obtain q r where "i = 8 * q + r" "r < 8" "q = 0 \<or> q = 1 \<or> q = 2 \<or> q = 3" by (rule byte_index)
    then show "bit (word_rotl 24 (le_word [a, b, c, d] :: u32)) i = bit (le_word [b, c, d, a] :: u32) i"
      by (auto simp: bit_word_rotl_iff bit_le_word byte_mod)
  qed
qed

lemma lanes_rotate_any:
  assumes "length v = 16" "amt < 32"
  shows "lanes (x86_rotate_left_any v amt) = fb_rotate_left_const (lanes v) amt"
proof (cases "amt = 0")
  case True
  then show ?thesis by (cases "lanes v") (simp add: x86_rotate_left_any_def rotl_0)
next
  case False
  then show ?thesis using assms
    by (cases "lanes v")
      (simp add: x86_rotate_left_any_def Let_def lanes_or length_from_lanes mm_slli_epi32_def mm_srli_epi32_def
        lanes_from_lanes shift_or_rotl)
qed

lemma lanes_rotate_bytes:
  assumes "length v = 16"
  shows "lanes (x86_rotate_left_16 v m) = fb_rotate_left_const (lanes v) 16"
    and "lanes (x86_rotate_left_8 v m) = fb_rotate_left_const (lanes v) 8"
    and "lanes (x86_rotate_left_24 v m) = fb_rotate_left_const (lanes v) 24"
proof -
  note defs = lanes_def fb_load_le_def slice_def shuffle16_def mm_shuffle_epi8_def rotl_bytes
  from assms show "lanes (x86_rotate_left_16 v m) = fb_rotate_left_const (lanes v) 16"
    by (cases m; elim take_slices)
      (simp_all add: x86_rotate_left_16_def defs mm_shufflelo_epi16_def mm_shufflehi_epi16_def half_def imm_def)
  from assms show "lanes (x86_rotate_left_8 v m) = fb_rotate_left_const (lanes v) 8"
    using lanes_rotate_any [OF assms, of 8]
    by (cases m; elim take_slices) (simp_all add: x86_rotate_left_8_def defs)
  from assms show "lanes (x86_rotate_left_24 v m) = fb_rotate_left_const (lanes v) 24"
    using lanes_rotate_any [OF assms, of 24]
    by (cases m; elim take_slices) (simp_all add: x86_rotate_left_24_def defs)
qed

lemma lanes_rotate:
  "length v = 16 \<Longrightarrow> amt < 32 \<Longrightarrow> lanes (x86_rotate_left_const v amt m) = fb_rotate_left_const (lanes v) amt"
  by (simp add: x86_rotate_left_const_def lanes_rotate_bytes lanes_rotate_any)

lemma lanes_shuffle:
  "length v = 16 \<Longrightarrow> lanes (x86_shuffle_left v amt) = fb_shuffle_left (lanes v) amt"
  by (elim take_slices)
    (simp add: x86_shuffle_left_def mm_shuffle_epi32_def MM_SHUFFLE_REV_def imm_def lanes_def fb_load_le_def slice_def)

section \<open>The interface of the vectors\<close>

text \<open>The operations \<open>hchacha_real\<close> uses, as one record per machine.\<close>

record 'v simd =
  sd_new :: "u32 \<Rightarrow> u32 \<Rightarrow> u32 \<Rightarrow> u32 \<Rightarrow> 'v"
  sd_load_le :: "bytes \<Rightarrow> 'v"
  sd_store_le :: "'v \<Rightarrow> bytes"
  sd_rotate_left_const :: "'v \<Rightarrow> nat \<Rightarrow> 'v"
  sd_shuffle_left :: "'v \<Rightarrow> nat \<Rightarrow> 'v"
  sd_shuffle_right :: "'v \<Rightarrow> nat \<Rightarrow> 'v"
  sd_add :: "'v \<Rightarrow> 'v \<Rightarrow> 'v"
  sd_bitxor :: "'v \<Rightarrow> 'v \<Rightarrow> 'v"

definition fallback_simd :: "u32x4 simd" where
  "fallback_simd =
     \<lparr>sd_new = fb_new, sd_load_le = fb_load_le, sd_store_le = fb_store_le,
      sd_rotate_left_const = fb_rotate_left_const, sd_shuffle_left = fb_shuffle_left,
      sd_shuffle_right = fb_shuffle_right, sd_add = fb_add, sd_bitxor = fb_bitxor\<rparr>"

definition x86_simd :: "machine \<Rightarrow> m128i simd" where
  "x86_simd m =
     \<lparr>sd_new = x86_new, sd_load_le = x86_load_le, sd_store_le = x86_store_le,
      sd_rotate_left_const = (\<lambda>v amt. x86_rotate_left_const v amt m), sd_shuffle_left = x86_shuffle_left,
      sd_shuffle_right = x86_shuffle_right, sd_add = x86_add, sd_bitxor = x86_bitxor\<rparr>"

locale simd_vectors =
  fixes sd :: "'v simd" and ok :: "'v \<Rightarrow> bool" and abs :: "'v \<Rightarrow> u32x4"
  assumes new: "ok (sd_new sd a b c d)" "abs (sd_new sd a b c d) = U32x4 a b c d"
    and load: "length addr = 16 \<Longrightarrow> ok (sd_load_le sd addr)"
      "length addr = 16 \<Longrightarrow> abs (sd_load_le sd addr) = fb_load_le addr"
    and store: "ok v \<Longrightarrow> sd_store_le sd v = fb_store_le (abs v)"
    and rotate: "ok v \<Longrightarrow> amt < 32 \<Longrightarrow> ok (sd_rotate_left_const sd v amt)"
      "ok v \<Longrightarrow> amt < 32 \<Longrightarrow> abs (sd_rotate_left_const sd v amt) = fb_rotate_left_const (abs v) amt"
    and shuffle: "ok v \<Longrightarrow> ok (sd_shuffle_left sd v amt)"
      "ok v \<Longrightarrow> abs (sd_shuffle_left sd v amt) = fb_shuffle_left (abs v) amt"
      "ok v \<Longrightarrow> ok (sd_shuffle_right sd v amt)"
      "ok v \<Longrightarrow> abs (sd_shuffle_right sd v amt) = fb_shuffle_left (abs v) (4 - amt)"
    and add: "ok v \<Longrightarrow> ok w \<Longrightarrow> ok (sd_add sd v w)"
      "ok v \<Longrightarrow> ok w \<Longrightarrow> abs (sd_add sd v w) = fb_add (abs v) (abs w)"
    and bitxor: "ok v \<Longrightarrow> ok w \<Longrightarrow> ok (sd_bitxor sd v w)"
      "ok v \<Longrightarrow> ok w \<Longrightarrow> abs (sd_bitxor sd v w) = fb_bitxor (abs v) (abs w)"

lemma fb_store_load: "length addr = 16 \<Longrightarrow> fb_store_le (fb_load_le addr) = addr"
  using from_lanes_lanes [of addr] by (simp add: lanes_def from_lanes_def)

lemma length_x86:
  "length v = 16 \<Longrightarrow> length (x86_rotate_left_const v amt m) = 16"
  "length v = 16 \<Longrightarrow> length (x86_shuffle_left v amt) = 16"
  by (elim take_slices; cases m;
      simp add: x86_rotate_left_const_def x86_rotate_left_16_def x86_rotate_left_8_def x86_rotate_left_24_def
        x86_rotate_left_any_def Let_def mm_or_si128_def mm_slli_epi32_def mm_srli_epi32_def length_from_lanes
        mm_shufflelo_epi16_def mm_shufflehi_epi16_def half_def imm_def shuffle16_def mm_shuffle_epi8_def slice_def)
    (elim take_slices;
      simp add: x86_shuffle_left_def mm_shuffle_epi32_def MM_SHUFFLE_REV_def imm_def slice_def)

interpretation fallback: simd_vectors fallback_simd "\<lambda>_. True" "\<lambda>v. v"
  by unfold_locales (simp_all add: fallback_simd_def fb_new_def fb_shuffle_right_def)

interpretation x86: simd_vectors "x86_simd m" "\<lambda>v. length v = 16" lanes for m
proof
  fix v w :: m128i
  assume "length v = 16" "length w = 16"
  then show "length (sd_add (x86_simd m) v w) = 16" "length (sd_bitxor (x86_simd m) v w) = 16"
    "lanes (sd_add (x86_simd m) v w) = fb_add (lanes v) (lanes w)"
    "lanes (sd_bitxor (x86_simd m) v w) = fb_bitxor (lanes v) (lanes w)"
    by (simp_all add: x86_simd_def x86_add_def x86_bitxor_def mm_add_epi32_def length_from_lanes
        lanes_from_lanes lanes_or) (simp add: mm_xor_si128_def)
qed (simp_all add: x86_simd_def x86_new_def mm_setr_epi32_def x86_load_le_def x86_store_le_def
    x86_shuffle_right_def length_from_lanes lanes_from_lanes length_x86 lanes_rotate lanes_shuffle
    lanes_def [symmetric] from_lanes_lanes [unfolded from_lanes_def])

end
