(* ===== verification/Xchacha.thy ===== *)
theory Xchacha
  imports Simd
begin

text \<open>
  \<open>src/src/crypto/xchacha20poly1305.rs\<close>: HChaCha20 over the vectors of \<open>Simd\<close>, and
  XChaCha20-Poly1305 built from it and the ChaCha20-Poly1305 of libsodium. libsodium is not in the
  repository: \<open>crypto_aead_chacha20poly1305_ietf_encrypt\<close> and its inverse are the record \<open>aead\<close>, a
  parameter of the definitions, and \<open>aead_ok\<close> is what its documentation promises of them.
  HChaCha20 itself is proved equal to its scalar description on a four by four matrix of words.
\<close>

section \<open>HChaCha20\<close>

type_synonym 'v rows = "'v \<times> 'v \<times> 'v \<times> 'v"

fun round :: "'v simd \<Rightarrow> 'v rows \<Rightarrow> 'v rows" where
  "round m (s0, s1, s2, s3) =
     (let s0 = sd_add m s0 s1;
          s3 = sd_bitxor m s3 s0;
          s3 = sd_rotate_left_const m s3 16;
          s2 = sd_add m s2 s3;
          s1 = sd_bitxor m s1 s2;
          s1 = sd_rotate_left_const m s1 12;
          s0 = sd_add m s0 s1;
          s3 = sd_bitxor m s3 s0;
          s3 = sd_rotate_left_const m s3 8;
          s2 = sd_add m s2 s3;
          s1 = sd_bitxor m s1 s2;
          s1 = sd_rotate_left_const m s1 7
      in (s0, s1, s2, s3))"

fun shuffle :: "'v simd \<Rightarrow> 'v rows \<Rightarrow> 'v rows" where
  "shuffle m (s0, s1, s2, s3) =
     (sd_shuffle_left m s0 1, sd_shuffle_left m s1 2, sd_shuffle_left m s2 3, s3)"

fun unshuffle :: "'v simd \<Rightarrow> 'v rows \<Rightarrow> 'v rows" where
  "unshuffle m (s0, s1, s2, s3) =
     (sd_shuffle_right m s0 1, sd_shuffle_right m s1 2, sd_shuffle_right m s2 3, s3)"

definition round_pair :: "'v simd \<Rightarrow> 'v rows \<Rightarrow> 'v rows" where
  "round_pair m state = unshuffle m (round m (shuffle m (round m state)))"

definition hchacha_real :: "bytes \<Rightarrow> bytes \<Rightarrow> 'v simd \<Rightarrow> bytes" where
  "hchacha_real key nonce m =
     (let state = (sd_new m 0x61707865 0x3320646e 0x79622d32 0x6b206574,
                   sd_load_le m (slice 0 16 key), sd_load_le m (slice 16 32 key), sd_load_le m nonce);
          state = (round_pair m ^^ 10) state
      in case state of (s0, s1, s2, s3) \<Rightarrow> sd_store_le m s0 @ sd_store_le m s3)"

text \<open>
  The dispatch of \<open>hchacha\<close>: on x86 with SSE2 the vectors are the intrinsics, and a run-time check
  for SSSE3 chooses the machine; elsewhere they are the portable ones.
\<close>

datatype target = X86_Sse2 bool | Portable

definition hchacha :: "target \<Rightarrow> bytes \<Rightarrow> bytes \<Rightarrow> bytes" where
  "hchacha t key nonce =
     (case t of
        X86_Sse2 ssse3_detected \<Rightarrow>
          if ssse3_detected then hchacha_real key nonce (x86_simd SSSE3Machine)
          else hchacha_real key nonce (x86_simd SSE2Machine)
      | Portable \<Rightarrow> hchacha_real key nonce fallback_simd)"

section \<open>XChaCha20-Poly1305\<close>

record aead =
  ae_encrypt :: "bytes \<Rightarrow> bytes \<Rightarrow> bytes \<Rightarrow> bytes \<Rightarrow> bytes"
  ae_decrypt :: "bytes \<Rightarrow> bytes \<Rightarrow> bytes \<Rightarrow> bytes \<Rightarrow> bytes option"

text \<open>
  Arguments: nonce of 12 bytes, key of 32 bytes, additional data, text. Decryption succeeds
  exactly on the encryption of its result, and the tag adds 16 bytes.
\<close>

definition aead_ok :: "aead \<Rightarrow> bool" where
  "aead_ok ae \<longleftrightarrow>
     (\<forall>n k ad p. length (ae_encrypt ae n k ad p) = length p + 16) \<and>
     (\<forall>n k ad c p. ae_decrypt ae n k ad c = Some p \<longleftrightarrow> c = ae_encrypt ae n k ad p)"

text \<open>\<open>None\<close> is a failed \<open>assert_eq!\<close>; \<open>out_len\<close> is the length of the output buffer.\<close>

definition xchacha_encrypt :: "target \<Rightarrow> aead \<Rightarrow> bytes \<Rightarrow> bytes \<Rightarrow> bytes \<Rightarrow> bytes \<Rightarrow> nat \<Rightarrow> bytes option" where
  "xchacha_encrypt t ae key nonce ad p out_len =
     (if length key = 32 \<and> length nonce = 24 \<and> length p + 16 = out_len then
        let hchacha_nonce = take 16 nonce; chacha_nonce = drop 16 nonce;
            real_key = hchacha t key hchacha_nonce;
            real_nonce = replicate 4 0 @ chacha_nonce
        in Some (ae_encrypt ae real_nonce real_key ad p)
      else None)"

definition xchacha_decrypt :: "target \<Rightarrow> aead \<Rightarrow> bytes \<Rightarrow> bytes \<Rightarrow> bytes \<Rightarrow> bytes \<Rightarrow> nat \<Rightarrow> bytes option option" where
  "xchacha_decrypt t ae key nonce ad c out_len =
     (if length key = 32 \<and> length nonce = 24 \<and> out_len + 16 = length c then
        let hchacha_nonce = take 16 nonce; chacha_nonce = drop 16 nonce;
            real_key = hchacha t key hchacha_nonce;
            real_nonce = replicate 4 0 @ chacha_nonce
        in Some (ae_decrypt ae real_nonce real_key ad c)
      else None)"

section \<open>All machines compute the portable HChaCha20\<close>

context simd_vectors
begin

definition ok_rows :: "'v rows \<Rightarrow> bool" where
  "ok_rows s \<longleftrightarrow> (case s of (a, b, c, d) \<Rightarrow> ok a \<and> ok b \<and> ok c \<and> ok d)"

definition abs_rows :: "'v rows \<Rightarrow> u32x4 rows" where
  "abs_rows s = (case s of (a, b, c, d) \<Rightarrow> (abs a, abs b, abs c, abs d))"

lemmas ops = new load store rotate shuffle add bitxor

lemma round_abs:
  "ok_rows s \<Longrightarrow> ok_rows (round sd s) \<and> abs_rows (round sd s) = round fallback_simd (abs_rows s)"
  by (cases s) (simp add: ok_rows_def abs_rows_def Let_def ops fallback_simd_def)

lemma shuffle_abs:
  "ok_rows s \<Longrightarrow> ok_rows (shuffle sd s) \<and> abs_rows (shuffle sd s) = shuffle fallback_simd (abs_rows s)"
  "ok_rows s \<Longrightarrow> ok_rows (unshuffle sd s) \<and> abs_rows (unshuffle sd s) = unshuffle fallback_simd (abs_rows s)"
  by (cases s; simp add: ok_rows_def abs_rows_def ops fallback_simd_def fb_shuffle_right_def)+

lemma round_pair_abs:
  "ok_rows s \<Longrightarrow> ok_rows (round_pair sd s) \<and> abs_rows (round_pair sd s) = round_pair fallback_simd (abs_rows s)"
  by (simp add: round_pair_def round_abs shuffle_abs)

lemma round_pairs_abs:
  "ok_rows s \<Longrightarrow> ok_rows ((round_pair sd ^^ n) s) \<and>
     abs_rows ((round_pair sd ^^ n) s) = (round_pair fallback_simd ^^ n) (abs_rows s)"
  by (induction n) (simp_all add: round_pair_abs)

lemma hchacha_real_eq:
  assumes "length key = 32" "length nonce = 16"
  shows "hchacha_real key nonce sd = hchacha_real key nonce fallback_simd"
proof -
  let ?s = "(sd_new sd 0x61707865 0x3320646e 0x79622d32 0x6b206574,
                   sd_load_le sd (slice 0 16 key), sd_load_le sd (slice 16 32 key), sd_load_le sd nonce)"
  have ok: "ok_rows ?s" using assms by (simp add: ok_rows_def ops)
  have abs: "abs_rows ?s = (fb_new 0x61707865 0x3320646e 0x79622d32 0x6b206574,
      fb_load_le (slice 0 16 key), fb_load_le (slice 16 32 key), fb_load_le nonce)"
    using assms by (simp add: abs_rows_def ops fb_new_def)
  obtain a b c d where s: "(round_pair sd ^^ 10) ?s = (a, b, c, d)" by (cases "(round_pair sd ^^ 10) ?s")
  have "(round_pair fallback_simd ^^ 10) (abs_rows ?s) = (abs a, abs b, abs c, abs d)" "ok a" "ok d"
    using round_pairs_abs [OF ok, of 10] s by (simp_all add: ok_rows_def abs_rows_def)
  then show ?thesis
    using s by (simp add: hchacha_real_def abs store fallback_simd_def)
qed

end

section \<open>The scalar description\<close>

definition quarter_round :: "u32 \<Rightarrow> u32 \<Rightarrow> u32 \<Rightarrow> u32 \<Rightarrow> u32 \<times> u32 \<times> u32 \<times> u32" where
  "quarter_round a b c d =
     (let a = a + b; d = word_rotl 16 (d XOR a);
          c = c + d; b = word_rotl 12 (b XOR c);
          a = a + b; d = word_rotl 8 (d XOR a);
          c = c + d; b = word_rotl 7 (b XOR c)
      in (a, b, c, d))"

text \<open>The quarter round on the words at four places of the matrix, a list of sixteen words.\<close>

definition quarter_at :: "nat \<Rightarrow> nat \<Rightarrow> nat \<Rightarrow> nat \<Rightarrow> u32 list \<Rightarrow> u32 list" where
  "quarter_at i j k l x =
     (case quarter_round (x ! i) (x ! j) (x ! k) (x ! l) of
        (a, b, c, d) \<Rightarrow> x[i := a, j := b, k := c, l := d])"

definition double_round :: "u32 list \<Rightarrow> u32 list" where
  "double_round x =
     (let x = quarter_at 0 4 8 12 x; x = quarter_at 1 5 9 13 x;
          x = quarter_at 2 6 10 14 x; x = quarter_at 3 7 11 15 x;
          x = quarter_at 0 5 10 15 x; x = quarter_at 1 6 11 12 x;
          x = quarter_at 2 7 8 13 x; x = quarter_at 3 4 9 14 x
      in x)"

fun words_le :: "bytes \<Rightarrow> u32 list" where
  "words_le (a # b # c # d # bs) = le_word [a, b, c, d] # words_le bs"
| "words_le bs = []"

text \<open>HChaCha20 as the draft of XChaCha describes it.\<close>

definition hchacha20 :: "bytes \<Rightarrow> bytes \<Rightarrow> bytes" where
  "hchacha20 key nonce =
     (let x = [0x61707865, 0x3320646e, 0x79622d32, 0x6b206574] @ words_le key @ words_le nonce;
          y = (double_round ^^ 10) x
      in concat (map (le_bytes 4) (take 4 y @ drop 12 y)))"

fun row_words :: "u32x4 \<Rightarrow> u32 list" where
  "row_words (U32x4 a b c d) = [a, b, c, d]"

fun matrix :: "u32x4 rows \<Rightarrow> u32 list" where
  "matrix (r0, r1, r2, r3) = row_words r0 @ row_words r1 @ row_words r2 @ row_words r3"

text \<open>One round on the rows is a quarter round on each column.\<close>

lemma round_columns:
  "round fallback_simd (U32x4 a0 a1 a2 a3, U32x4 b0 b1 b2 b3, U32x4 c0 c1 c2 c3, U32x4 d0 d1 d2 d3) =
     (case (quarter_round a0 b0 c0 d0, quarter_round a1 b1 c1 d1, quarter_round a2 b2 c2 d2, quarter_round a3 b3 c3 d3) of
        ((a0, b0, c0, d0), (a1, b1, c1, d1), (a2, b2, c2, d2), (a3, b3, c3, d3)) \<Rightarrow>
          (U32x4 a0 a1 a2 a3, U32x4 b0 b1 b2 b3, U32x4 c0 c1 c2 c3, U32x4 d0 d1 d2 d3))"
  by (simp add: fallback_simd_def quarter_round_def Let_def)

lemma shuffle_rows:
  "shuffle fallback_simd (U32x4 a0 a1 a2 a3, U32x4 b0 b1 b2 b3, U32x4 c0 c1 c2 c3, d) =
     (U32x4 a1 a2 a3 a0, U32x4 b2 b3 b0 b1, U32x4 c3 c0 c1 c2, d)"
  "unshuffle fallback_simd (U32x4 a1 a2 a3 a0, U32x4 b2 b3 b0 b1, U32x4 c3 c0 c1 c2, d) =
     (U32x4 a0 a1 a2 a3, U32x4 b0 b1 b2 b3, U32x4 c0 c1 c2 c3, d)"
  by (simp_all add: fallback_simd_def fb_shuffle_right_def)

declare round.simps [simp del] shuffle.simps [simp del] unshuffle.simps [simp del]

lemma round_pair_double:
  "matrix (round_pair fallback_simd s) = double_round (matrix s)"
proof -
  obtain a0 a1 a2 a3 b0 b1 b2 b3 c0 c1 c2 c3 d0 d1 d2 d3 where
    s: "s = (U32x4 a0 a1 a2 a3, U32x4 b0 b1 b2 b3, U32x4 c0 c1 c2 c3, U32x4 d0 d1 d2 d3)"
    by (cases s) (metis u32x4.exhaust)
  obtain A0 B0 C0 D0 where q0: "quarter_round a0 b0 c0 d0 = (A0, B0, C0, D0)" by (cases "quarter_round a0 b0 c0 d0")
  obtain A1 B1 C1 D1 where q1: "quarter_round a1 b1 c1 d1 = (A1, B1, C1, D1)" by (cases "quarter_round a1 b1 c1 d1")
  obtain A2 B2 C2 D2 where q2: "quarter_round a2 b2 c2 d2 = (A2, B2, C2, D2)" by (cases "quarter_round a2 b2 c2 d2")
  obtain A3 B3 C3 D3 where q3: "quarter_round a3 b3 c3 d3 = (A3, B3, C3, D3)" by (cases "quarter_round a3 b3 c3 d3")
  have columns: "round fallback_simd s = (U32x4 A0 A1 A2 A3, U32x4 B0 B1 B2 B3, U32x4 C0 C1 C2 C3, U32x4 D0 D1 D2 D3)"
    by (simp add: s round_columns q0 q1 q2 q3)
  obtain e0 f0 g0 h0 where r0: "quarter_round A0 B1 C2 D3 = (e0, f0, g0, h0)" by (cases "quarter_round A0 B1 C2 D3")
  obtain e1 f1 g1 h1 where r1: "quarter_round A1 B2 C3 D0 = (e1, f1, g1, h1)" by (cases "quarter_round A1 B2 C3 D0")
  obtain e2 f2 g2 h2 where r2: "quarter_round A2 B3 C0 D1 = (e2, f2, g2, h2)" by (cases "quarter_round A2 B3 C0 D1")
  obtain e3 f3 g3 h3 where r3: "quarter_round A3 B0 C1 D2 = (e3, f3, g3, h3)" by (cases "quarter_round A3 B0 C1 D2")
  have rows: "matrix (round_pair fallback_simd s) =
      [e0, e1, e2, e3, f3, f0, f1, f2, g2, g3, g0, g1, h1, h2, h3, h0]"
    by (simp add: round_pair_def columns shuffle_rows round_columns r0 r1 r2 r3)
  have "matrix s = [a0, a1, a2, a3, b0, b1, b2, b3, c0, c1, c2, c3, d0, d1, d2, d3]" by (simp add: s)
  then show ?thesis
    unfolding rows by (simp add: double_round_def quarter_at_def q0 q1 q2 q3 r0 r1 r2 r3)
qed

lemma round_pairs_double:
  "matrix ((round_pair fallback_simd ^^ n) s) = (double_round ^^ n) (matrix s)"
  by (induction n) (simp_all add: round_pair_double)

lemma words_le_load: "length bs = 16 \<Longrightarrow> row_words (fb_load_le bs) = words_le bs"
  by (elim take_slices) (simp add: fb_load_le_def slice_def)

lemma words_le_append: "length bs = 16 \<Longrightarrow> words_le (bs @ cs) = words_le bs @ words_le cs"
  by (elim take_slices) simp

lemma hchacha_fallback_eq:
  assumes "length key = 32" "length nonce = 16"
  shows "hchacha_real key nonce fallback_simd = hchacha20 key nonce"
proof -
  let ?s = "(U32x4 0x61707865 0x3320646e 0x79622d32 0x6b206574,
      fb_load_le (slice 0 16 key), fb_load_le (slice 16 32 key), fb_load_le nonce)"
  have "key = slice 0 16 key @ slice 16 32 key" using assms(1) by (simp add: slice_def)
  then have "words_le key = words_le (slice 0 16 key) @ words_le (slice 16 32 key)"
    using words_le_append [of "slice 0 16 key" "slice 16 32 key"] assms(1) by simp
  then have m: "matrix ?s = [0x61707865, 0x3320646e, 0x79622d32, 0x6b206574] @ words_le key @ words_le nonce"
    using assms by (simp add: words_le_load)
  obtain r0 r1 r2 r3 where r: "(round_pair fallback_simd ^^ 10) ?s = (r0, r1, r2, r3)"
    by (cases "(round_pair fallback_simd ^^ 10) ?s")
  have "(double_round ^^ 10) (matrix ?s) = matrix (r0, r1, r2, r3)"
    using round_pairs_double [of 10 ?s] r by simp
  then show ?thesis
    using r unfolding m
    by (cases r0; cases r1; cases r2; cases r3)
      (simp add: hchacha_real_def hchacha20_def fallback_simd_def fb_new_def)
qed

section \<open>Properties\<close>

text \<open>
  C28: Whatever the machine and the result of the run-time check, \<open>hchacha\<close> computes HChaCha20 as
  the scalar description has it.
\<close>

theorem hchacha_correct:
  assumes "length key = 32" "length nonce = 16"
  shows "hchacha t key nonce = hchacha20 key nonce"
  using hchacha_fallback_eq [OF assms] x86.hchacha_real_eq [OF assms]
  by (simp add: hchacha_def split: target.split)

theorem hchacha_correct_witness:
  "hchacha (X86_Sse2 True) (replicate 32 7) (replicate 16 9) = hchacha20 (replicate 32 7) (replicate 16 9)"
  by (rule hchacha_correct) simp_all

text \<open>The quarter round on the test vector of RFC 8439, section 2.1.1.\<close>

lemma quarter_round_shifts: "quarter_round a b c d =
     (let a = a + b; d = d XOR a; d = push_bit 16 d OR drop_bit 16 d;
          c = c + d; b = b XOR c; b = push_bit 12 b OR drop_bit 20 b;
          a = a + b; d = d XOR a; d = push_bit 8 d OR drop_bit 24 d;
          c = c + d; b = b XOR c; b = push_bit 7 b OR drop_bit 25 b
      in (a, b, c, d))"
  using shift_or_rotl [of 16] shift_or_rotl [of 12] shift_or_rotl [of 8] shift_or_rotl [of 7]
  by (simp add: quarter_round_def Let_def)

lemma quarter_round_vector:
  "quarter_round 0x11111111 0x01020304 0x9b8d6f43 0x01234567 = (0xea2a92f4, 0xcb1cf8ce, 0x4581472e, 0x5881c4bb)"
  by (simp add: quarter_round_shifts)

text \<open>
  Under the documented behaviour of the AEAD, decryption with the same key, nonce and data
  inverts encryption, on every machine, and rejects every other ciphertext; wrong buffer sizes fail
  the assertions.
\<close>

theorem xchacha_roundtrip:
  assumes "aead_ok ae" "length key = 32" "length nonce = 24"
  shows "\<exists>c. xchacha_encrypt t ae key nonce ad p (length p + 16) = Some c \<and> length c = length p + 16 \<and>
    xchacha_decrypt t' ae key nonce ad c (length p) = Some (Some p) \<and>
    (\<forall>c' p'. length c' = length p + 16 \<longrightarrow> xchacha_decrypt t' ae key nonce ad c' (length p) = Some (Some p') \<longrightarrow>
       xchacha_encrypt t ae key nonce ad p' (length p' + 16) = Some c')"
proof -
  have "hchacha t key (take 16 nonce) = hchacha t' key (take 16 nonce)"
    using assms hchacha_fallback_eq x86.hchacha_real_eq by (simp add: hchacha_def split: target.split)
  with assms show ?thesis
    by (auto simp: xchacha_encrypt_def xchacha_decrypt_def aead_ok_def Let_def)
qed

text \<open>An AEAD with the documented behaviour, to show that the hypothesis can hold: a constant tag.\<close>

definition plain_aead :: aead where
  "plain_aead =
     \<lparr>ae_encrypt = (\<lambda>n k ad p. p @ replicate 16 0),
      ae_decrypt = (\<lambda>n k ad c. if 16 \<le> length c \<and> drop (length c - 16) c = replicate 16 0
        then Some (take (length c - 16) c) else None)\<rparr>"

lemma plain_aead_ok: "aead_ok plain_aead"
proof -
  have "c = p @ replicate 16 (0 :: u8)"
    if "16 \<le> length c" "drop (length c - 16) c = replicate 16 0" "take (length c - 16) c = p" for c p
    using that append_take_drop_id [of "length c - 16" c] by simp
  then show ?thesis by (auto simp: aead_ok_def plain_aead_def)
qed

theorem xchacha_roundtrip_witness:
  "\<exists>c. xchacha_encrypt Portable plain_aead (replicate 32 1) (replicate 24 2) [] [3] (length [3 :: u8] + 16) = Some c \<and>
    length c = length [3 :: u8] + 16 \<and>
    xchacha_decrypt (X86_Sse2 False) plain_aead (replicate 32 1) (replicate 24 2) [] c (length [3 :: u8]) = Some (Some [3]) \<and>
    (\<forall>c' p'. length c' = length [3 :: u8] + 16 \<longrightarrow>
       xchacha_decrypt (X86_Sse2 False) plain_aead (replicate 32 1) (replicate 24 2) [] c' (length [3 :: u8]) = Some (Some p') \<longrightarrow>
       xchacha_encrypt Portable plain_aead (replicate 32 1) (replicate 24 2) [] p' (length p' + 16) = Some c')"
  by (rule xchacha_roundtrip [OF plain_aead_ok]) simp_all

end
