(* ===== verification/Anti_Replay.thy ===== *)
theory Anti_Replay
  imports Prelude
begin

text \<open>
  The sliding-window replay filter of \<open>src/src/wireguard/anti_replay.rs\<close> (RFC 6479):
  the record \<open>AntiReplay\<close> with its bitmap of 64 \<open>u32\<close> blocks and the largest accepted
  counter, the operations \<open>new\<close>, \<open>check\<close>, \<open>update\<close>, \<open>check_and_update\<close>, an abstract filter
  that remembers the set of accepted counters, and the refinement between the two.
\<close>

section \<open>The code\<close>

definition BITMAP_BITLEN :: u64 where "BITMAP_BITLEN = 2048"
definition SIZE_OF_INTEGER :: u64 where "SIZE_OF_INTEGER = 32"
definition BITMAP_LEN :: nat where "BITMAP_LEN = unat (BITMAP_BITLEN div SIZE_OF_INTEGER)"
definition BITMAP_INDEX_MASK :: u64 where "BITMAP_INDEX_MASK = of_nat BITMAP_LEN - 1"
definition REDUNDANT_BIT_SHIFTS :: nat where "REDUNDANT_BIT_SHIFTS = 5"
definition BITMAP_LOC_MASK :: u64 where "BITMAP_LOC_MASK = SIZE_OF_INTEGER - 1"
definition WINDOW_SIZE :: u64 where "WINDOW_SIZE = BITMAP_BITLEN - SIZE_OF_INTEGER"

lemma BITMAP_LEN_val: "BITMAP_LEN = 64"
  by (simp add: BITMAP_LEN_def BITMAP_BITLEN_def SIZE_OF_INTEGER_def)

lemma BITMAP_INDEX_MASK_val: "BITMAP_INDEX_MASK = 63"
  by (simp add: BITMAP_INDEX_MASK_def BITMAP_LEN_val)

lemma BITMAP_LOC_MASK_val: "BITMAP_LOC_MASK = 31"
  by (simp add: BITMAP_LOC_MASK_def SIZE_OF_INTEGER_def)

record anti_replay =
  ar_bitmap :: "u32 list"
  ar_last :: u64

definition ar_new :: anti_replay where
  "ar_new = \<lparr>ar_bitmap = replicate BITMAP_LEN 0, ar_last = 0\<rparr>"

definition ar_check :: "anti_replay \<Rightarrow> u64 \<Rightarrow> bool" where
  "ar_check ar seq =
     (if seq > ar_last ar then True
      else if ar_last ar - seq > WINDOW_SIZE then False
      else
        let bit_location = seq AND BITMAP_LOC_MASK;
            index = drop_bit REDUNDANT_BIT_SHIFTS seq AND BITMAP_INDEX_MASK
        in ar_bitmap ar ! unat index AND push_bit (unat bit_location) 1 = 0)"

text \<open>The loop \<open>for i in 0..diff\<close> that clears the blocks the window moves over.\<close>

definition clear_blocks :: "u64 \<Rightarrow> nat \<Rightarrow> u32 list \<Rightarrow> u32 list" where
  "clear_blocks index_cur diff bitmap =
     fold (\<lambda>i bm. bm[unat ((index_cur + of_nat i + 1) AND BITMAP_INDEX_MASK) := 0]) [0..<diff] bitmap"

definition ar_update :: "anti_replay \<Rightarrow> u64 \<Rightarrow> anti_replay" where
  "ar_update ar seq =
     (let index = drop_bit REDUNDANT_BIT_SHIFTS seq;
          ar1 =
            (if seq > ar_last ar then
               let index_cur = drop_bit REDUNDANT_BIT_SHIFTS (ar_last ar);
                   diff = index - index_cur
               in if diff \<ge> of_nat BITMAP_LEN
                  then \<lparr>ar_bitmap = replicate BITMAP_LEN 0, ar_last = seq\<rparr>
                  else \<lparr>ar_bitmap = clear_blocks index_cur (unat diff) (ar_bitmap ar), ar_last = seq\<rparr>
             else ar);
          i = unat (index AND BITMAP_INDEX_MASK);
          bit_location = seq AND BITMAP_LOC_MASK
      in ar1\<lparr>ar_bitmap := (ar_bitmap ar1)[i := ar_bitmap ar1 ! i OR push_bit (unat bit_location) 1]\<rparr>)"

definition ar_check_and_update :: "anti_replay \<Rightarrow> u64 \<Rightarrow> bool \<times> anti_replay" where
  "ar_check_and_update ar seq = (if ar_check ar seq then (True, ar_update ar seq) else (False, ar))"

text \<open>A sequence of packets: the verdict on each, in order.\<close>

fun ar_run :: "anti_replay \<Rightarrow> u64 list \<Rightarrow> bool list" where
  "ar_run ar [] = []"
| "ar_run ar (s # ss) = (case ar_check_and_update ar s of (ok, ar') \<Rightarrow> ok # ar_run ar' ss)"

section \<open>The abstract filter\<close>

text \<open>
  What the filter promises: the state is the largest accepted counter and the set of all
  accepted ones; a counter passes if it is larger than all before, or no more than
  \<open>WINDOW_SIZE\<close> behind and not accepted yet.
\<close>

record replay_spec =
  sp_last :: nat
  sp_seen :: "nat set"

definition sp_new :: replay_spec where
  "sp_new = \<lparr>sp_last = 0, sp_seen = {}\<rparr>"

definition sp_check :: "replay_spec \<Rightarrow> nat \<Rightarrow> bool" where
  "sp_check sp n \<longleftrightarrow> sp_last sp < n \<or> (sp_last sp - n \<le> 2016 \<and> n \<notin> sp_seen sp)"

definition sp_accept :: "replay_spec \<Rightarrow> nat \<Rightarrow> replay_spec" where
  "sp_accept sp n = \<lparr>sp_last = max (sp_last sp) n, sp_seen = insert n (sp_seen sp)\<rparr>"

fun sp_run :: "replay_spec \<Rightarrow> nat list \<Rightarrow> bool list" where
  "sp_run sp [] = []"
| "sp_run sp (n # ns) =
     (if sp_check sp n then True # sp_run (sp_accept sp n) ns else False # sp_run sp ns)"

section \<open>Refinement\<close>

definition block_bit :: "u32 list \<Rightarrow> nat \<Rightarrow> bool" where
  "block_bit bm n = bit (bm ! (n div 32 mod 64)) (n mod 32)"

definition ar_refines :: "anti_replay \<Rightarrow> replay_spec \<Rightarrow> bool" where
  "ar_refines ar sp \<longleftrightarrow>
     length (ar_bitmap ar) = 64 \<and> unat (ar_last ar) = sp_last sp \<and>
     (\<forall>n\<in>sp_seen sp. n \<le> sp_last sp) \<and>
     (\<forall>n. n div 32 \<le> sp_last sp div 32 \<longrightarrow> sp_last sp div 32 < n div 32 + 64 \<longrightarrow>
          block_bit (ar_bitmap ar) n = (n \<in> sp_seen sp))"

lemma unat_block [word_nat]: "unat (drop_bit REDUNDANT_BIT_SHIFTS s) = unat s div 32"
  by (simp add: REDUNDANT_BIT_SHIFTS_def unat_drop_bit_div)

lemma unat_index_mask [word_nat]: "unat (w AND BITMAP_INDEX_MASK) = unat w mod 64"
  using unat_and_mask [of w 6] by (simp add: BITMAP_INDEX_MASK_val mask_eq_exp_minus_1)

lemma unat_loc_mask [word_nat]: "unat (w AND BITMAP_LOC_MASK) = unat w mod 32"
  using unat_and_mask [of w 5] by (simp add: BITMAP_LOC_MASK_val mask_eq_exp_minus_1)

lemma unat_window [word_nat]: "unat WINDOW_SIZE = 2016"
  by (simp add: WINDOW_SIZE_def BITMAP_BITLEN_def SIZE_OF_INTEGER_def)

lemma ar_check_refines:
  assumes "ar_refines ar sp"
  shows "ar_check ar s = sp_check sp (unat s)"
proof -
  have last: "unat (ar_last ar) = sp_last sp" using assms by (simp add: ar_refines_def)
  have win: "block_bit (ar_bitmap ar) (unat s) = (unat s \<in> sp_seen sp)"
    if "unat s \<le> sp_last sp" "sp_last sp - unat s \<le> 2016"
  proof -
    have "unat s div 32 \<le> sp_last sp div 32" using that by (simp add: div_le_mono)
    moreover have "sp_last sp div 32 < unat s div 32 + 64" using that by linarith
    ultimately show ?thesis using assms by (simp add: ar_refines_def)
  qed
  show ?thesis
    using last win
    by (auto simp: ar_check_def sp_check_def word_less_nat_alt word_le_nat_alt unat_sub word_nat
        Let_def and_exp_eq_0_iff_not_bit block_bit_def not_less)
qed


lemma length_clear_blocks [simp]: "length (clear_blocks c d bm) = length bm"
  by (induction d) (simp_all add: clear_blocks_def)

lemma clear_blocks_nth:
  assumes "length bm = 64" "j < 64" "unat c + d < 2 ^ 64"
  shows "clear_blocks c d bm ! j = (if \<exists>i<d. j = (unat c + i + 1) mod 64 then 0 else bm ! j)"
  using assms(3)
proof (induction d)
  case 0
  then show ?case by (simp add: clear_blocks_def)
next
  case (Suc d)
  have "unat (of_nat d :: u64) = d"
    using Suc.prems by (simp add: unat_of_nat)
  then have "unat (c + of_nat d + 1) = unat c + d + 1"
    using Suc.prems by (simp add: unat_word_ariths)
  then have "clear_blocks c (Suc d) bm = (clear_blocks c d bm)[(unat c + d + 1) mod 64 := 0]"
    by (simp add: clear_blocks_def word_nat)
  with Suc assms(1,2) show ?case
    by (auto simp: nth_list_update less_Suc_eq)
qed

text \<open>The bitmap of the moved window, before the new counter is marked.\<close>

definition moved_bitmap :: "anti_replay \<Rightarrow> u64 \<Rightarrow> u32 list" where
  "moved_bitmap ar s =
     (if s > ar_last ar then
        let d = drop_bit REDUNDANT_BIT_SHIFTS s - drop_bit REDUNDANT_BIT_SHIFTS (ar_last ar)
        in if d \<ge> of_nat BITMAP_LEN then replicate BITMAP_LEN 0
           else clear_blocks (drop_bit REDUNDANT_BIT_SHIFTS (ar_last ar)) (unat d) (ar_bitmap ar)
      else ar_bitmap ar)"

lemma ar_update_eq:
  "ar_update ar s =
     \<lparr>ar_bitmap = (moved_bitmap ar s)[unat s div 32 mod 64 :=
                   moved_bitmap ar s ! (unat s div 32 mod 64) OR push_bit (unat s mod 32) 1],
      ar_last = max (ar_last ar) s\<rparr>"
  by (simp add: ar_update_def moved_bitmap_def word_nat Let_def max_def not_less)

lemma moved_bitmap_bit:
  assumes r: "ar_refines ar sp" and n: "n div 32 \<le> l div 32" "l div 32 < n div 32 + 64"
    and l: "l = max (sp_last sp) (unat s)"
  shows "block_bit (moved_bitmap ar s) n = (n \<in> sp_seen sp)"
proof (cases "unat s \<le> sp_last sp")
  case True
  then have "moved_bitmap ar s = ar_bitmap ar"
    using r by (simp add: moved_bitmap_def ar_refines_def word_less_nat_alt)
  then show ?thesis using r n l True by (simp add: ar_refines_def max_def)
next
  case False
  define a where "a = sp_last sp div 32"
  define b where "b = unat s div 32"
  have last: "unat (ar_last ar) = sp_last sp" and len: "length (ar_bitmap ar) = 64"
    using r by (simp_all add: ar_refines_def)
  have ab: "a \<le> b" and l_b: "l div 32 = b"
    using False l by (simp_all add: a_def b_def div_le_mono max_def)
  have d: "unat (drop_bit REDUNDANT_BIT_SHIFTS s - drop_bit REDUNDANT_BIT_SHIFTS (ar_last ar)) = b - a"
    using ab last by (simp add: unat_sub word_le_nat_alt word_nat a_def b_def)
  have fresh: "n \<notin> sp_seen sp" if "a < n div 32"
    using r that by (auto simp: ar_refines_def a_def dest!: bspec div_le_mono [of n _ 32])
  show ?thesis
  proof (cases "64 \<le> b - a")
    case True
    then have "moved_bitmap ar s = replicate 64 0"
      using False last d by (simp add: moved_bitmap_def BITMAP_LEN_val word_less_nat_alt word_le_nat_alt)
    moreover have "a < n div 32" using True n l_b by linarith
    ultimately show ?thesis using fresh by (simp add: block_bit_def)
  next
    case small: False
    have m: "moved_bitmap ar s = clear_blocks (drop_bit REDUNDANT_BIT_SHIFTS (ar_last ar)) (b - a) (ar_bitmap ar)"
      using False small last d
      by (simp add: moved_bitmap_def BITMAP_LEN_val word_less_nat_alt word_le_nat_alt)
    have "unat s < 2 ^ 64" by (rule unat_u64_less)
    then have bound: "a + (b - a) < 2 ^ 64" using ab by (simp add: b_def)
    have cleared: "(\<exists>i<b - a. n div 32 mod 64 = (a + i + 1) mod 64) \<longleftrightarrow> a < n div 32"
    proof
      assume "a < n div 32"
      then show "\<exists>i<b - a. n div 32 mod 64 = (a + i + 1) mod 64"
        using n l_b by (intro exI [of _ "n div 32 - a - 1"]) auto
    next
      assume "\<exists>i<b - a. n div 32 mod 64 = (a + i + 1) mod 64"
      then obtain i where i: "i < b - a" "n div 32 mod 64 = (a + i + 1) mod 64" by blast
      show "a < n div 32"
      proof (rule ccontr)
        assume "\<not> a < n div 32"
        then have "0 < a + i + 1 - n div 32" "a + i + 1 - n div 32 < 64"
          using i(1) n l_b by linarith+
        moreover have "(a + i + 1 - n div 32) mod 64 = 0"
          using i(2) by (metis mod_eq_dvd_iff_nat mod_0_imp_dvd dvd_imp_mod_0 nat_le_linear diff_is_0_eq' mod_0)
        ultimately show False by simp
      qed
    qed
    show ?thesis
      using clear_blocks_nth [OF len, of "n div 32 mod 64" "drop_bit REDUNDANT_BIT_SHIFTS (ar_last ar)" "b - a"]
        bound cleared fresh last r n l_b ab
      by (auto simp: block_bit_def m word_nat a_def ar_refines_def)
  qed
qed

lemma length_moved_bitmap:
  "length (ar_bitmap ar) = 64 \<Longrightarrow> length (moved_bitmap ar s) = 64"
  by (simp add: moved_bitmap_def BITMAP_LEN_val Let_def)

text \<open>Two counters whose blocks lie in one window of 64 blocks share a block only when equal.\<close>

lemma mod_window_inj:
  assumes "(x::nat) mod 64 = y mod 64" "x \<le> b" "b < x + 64" "y \<le> b" "b < y + 64"
  shows "x = y"
proof -
  have *: "u = v" if "v \<le> u" "u mod 64 = v mod 64" "u \<le> b" "b < v + 64" for u v :: nat
  proof -
    have "64 dvd u - v" using that(1,2) by (simp add: mod_eq_dvd_iff_nat)
    then obtain q where "u - v = 64 * q" by (elim dvdE)
    with that show ?thesis by (cases q) auto
  qed
  show ?thesis using * [of x y] * [of y x] assms by linarith
qed

lemma block_bit_mark:
  assumes "length bm = 64"
    and "n div 32 \<le> b" "b < n div 32 + 64" "m div 32 \<le> b" "b < m div 32 + 64"
  shows "block_bit (bm[m div 32 mod 64 := bm ! (m div 32 mod 64) OR push_bit (m mod 32) 1]) n
     = (n = m \<or> block_bit bm n)"
proof (cases "n div 32 mod 64 = m div 32 mod 64")
  case True
  then have "n div 32 = m div 32" by (rule mod_window_inj [OF _ assms(2-5)])
  then have "n = m \<longleftrightarrow> n mod 32 = m mod 32" by (metis div_mult_mod_eq)
  with True assms(1) show ?thesis by (auto simp: block_bit_def bit_simps)
next
  case False
  then show ?thesis using assms(1) by (auto simp: block_bit_def)
qed

lemma ar_update_refines:
  assumes r: "ar_refines ar sp" and ok: "sp_check sp (unat s)"
  shows "ar_refines (ar_update ar s) (sp_accept sp (unat s))"
proof -
  define l where "l = max (sp_last sp) (unat s)"
  have last: "unat (max (ar_last ar) s) = l"
    using r by (auto simp: l_def ar_refines_def max_def word_le_nat_alt)
  have len: "length (moved_bitmap ar s) = 64"
    using r by (simp add: ar_refines_def length_moved_bitmap)
  have s_win: "unat s div 32 \<le> l div 32" "l div 32 < unat s div 32 + 64"
    using ok by (auto simp: l_def sp_check_def max_def div_le_mono)
  have "block_bit (ar_bitmap (ar_update ar s)) n = (n \<in> sp_seen (sp_accept sp (unat s)))"
    if "n div 32 \<le> l div 32" "l div 32 < n div 32 + 64" for n
    using block_bit_mark [OF len that s_win] moved_bitmap_bit [OF r that l_def]
    by (simp add: ar_update_eq sp_accept_def)
  moreover have "\<forall>n\<in>sp_seen (sp_accept sp (unat s)). n \<le> l"
    using r by (auto simp: sp_accept_def l_def ar_refines_def)
  ultimately show ?thesis
    using len last by (simp add: ar_refines_def ar_update_eq sp_accept_def l_def [symmetric])
qed

lemma ar_new_refines: "ar_refines ar_new sp_new"
  by (simp add: ar_refines_def ar_new_def sp_new_def BITMAP_LEN_val block_bit_def)

lemma ar_run_refines: "ar_refines ar sp \<Longrightarrow> ar_run ar ss = sp_run sp (map unat ss)"
proof (induction ss arbitrary: ar sp)
  case Nil
  then show ?case by simp
next
  case (Cons s ss)
  then show ?case
    using ar_check_refines [OF Cons.prems, of s] ar_update_refines [OF Cons.prems, of s]
    by (auto simp: ar_check_and_update_def)
qed

section \<open>The filter as an interface\<close>

text \<open>
  What a session relies on: a state that stands for a set of accepted counters, a check that
  refuses every accepted counter, and an update that adds the counter. The session's lemmas
  (\<open>no counter passes twice\<close>) are proved here once.
\<close>

locale replay_filter =
  fixes represents :: "'s \<Rightarrow> nat set \<Rightarrow> bool"
    and accepts :: "'s \<Rightarrow> u64 \<Rightarrow> bool"
    and record_seq :: "'s \<Rightarrow> u64 \<Rightarrow> 's"
  assumes refuses_seen: "represents f S \<Longrightarrow> unat s \<in> S \<Longrightarrow> \<not> accepts f s"
    and records: "represents f S \<Longrightarrow> accepts f s \<Longrightarrow> represents (record_seq f s) (insert (unat s) S)"
begin

fun accepted :: "'s \<Rightarrow> u64 list \<Rightarrow> u64 list" where
  "accepted f [] = []"
| "accepted f (s # ss) =
     (if accepts f s then s # accepted (record_seq f s) ss else accepted f ss)"

lemma accepted_fresh: "represents f S \<Longrightarrow> s \<in> set (accepted f ss) \<Longrightarrow> unat s \<notin> S"
proof (induction ss arbitrary: f S)
  case Nil
  then show ?case by simp
next
  case (Cons t ss)
  then show ?case
    using refuses_seen [OF Cons.prems(1)] records [OF Cons.prems(1)]
    by (fastforce split: if_splits)
qed

lemma accepted_distinct: "represents f S \<Longrightarrow> distinct (accepted f ss)"
proof (induction ss arbitrary: f S)
  case Nil
  then show ?case by simp
next
  case (Cons t ss)
  then show ?case
    using records [OF Cons.prems(1)] accepted_fresh [of "record_seq f t" "insert (unat t) S" t ss]
    by auto
qed

end

definition ar_represents :: "anti_replay \<Rightarrow> nat set \<Rightarrow> bool" where
  "ar_represents ar S \<longleftrightarrow> (\<exists>sp. ar_refines ar sp \<and> sp_seen sp = S)"

lemma sp_check_fresh: "ar_refines ar sp \<Longrightarrow> sp_check sp n \<Longrightarrow> n \<notin> sp_seen sp"
  by (auto simp: ar_refines_def sp_check_def)

interpretation ar: replay_filter ar_represents ar_check ar_update
proof
  fix f S and s :: u64
  assume "ar_represents f S" "unat s \<in> S"
  then show "\<not> ar_check f s"
    by (auto simp: ar_represents_def ar_check_refines dest: sp_check_fresh)
next
  fix f S and s :: u64
  assume "ar_represents f S" "ar_check f s"
  then obtain sp where "ar_refines f sp" "sp_seen sp = S" "sp_check sp (unat s)"
    by (auto simp: ar_represents_def ar_check_refines)
  then show "ar_represents (ar_update f s) (insert (unat s) S)"
    unfolding ar_represents_def using ar_update_refines [of f sp s]
    by (intro exI [of _ "sp_accept sp (unat s)"]) (simp add: sp_accept_def)
qed

lemma ar_new_represents: "ar_represents ar_new {}"
  unfolding ar_represents_def using ar_new_refines by (auto simp: sp_new_def)

text \<open>The accepted packets of a run, read off the verdicts.\<close>

definition ar_accepted :: "anti_replay \<Rightarrow> u64 list \<Rightarrow> u64 list" where
  "ar_accepted ar ss = map fst (filter snd (zip ss (ar_run ar ss)))"

lemma ar_accepted_eq: "ar_accepted ar ss = ar.accepted ar ss"
  unfolding ar_accepted_def
  by (induction ss arbitrary: ar) (simp_all add: ar_check_and_update_def)

section \<open>Properties\<close>

text \<open>C9: for every sequence of counters, the verdicts of the bitmap filter started by
  \<open>AntiReplay::new\<close> are those of the abstract filter: a counter passes exactly if it exceeds all
  accepted ones, or is at most \<open>WINDOW_SIZE\<close> = 2016 behind the largest and was never accepted.\<close>

theorem anti_replay_refines: "ar_run ar_new ss = sp_run sp_new (map unat ss)"
  by (rule ar_run_refines) (rule ar_new_refines)

text \<open>No counter is ever accepted twice.\<close>

theorem anti_replay_no_replay: "distinct (ar_accepted ar_new ss)"
  unfolding ar_accepted_eq by (rule ar.accepted_distinct) (rule ar_new_represents)

end
