(* ===== verification/Transport.thy ===== *)
theory Transport
  imports Anti_Replay Load_Monitor Xchacha
begin

text \<open>
  Transport sessions: \<open>src/src/wireguard/transport.rs\<close>, the ChaCha20-Poly1305 cipher of
  \<open>src/src/crypto/noise_crypto_impls.rs\<close> and the identifiers of \<open>src/src/wireguard/types.rs\<close>.
  The two tasks a new session spawns, which raise a flag after a delay, are \<open>tp_tick\<close>: it does what
  is due at an instant. A \<open>None\<close> of \<open>tp_encrypt\<close> and \<open>tp_decrypt\<close> is a failed assertion on a buffer
  length. The lemmas show that a session never uses a nonce twice, never delivers a packet twice,
  delivers only what the peer encrypted, and delivers it unchanged.
\<close>

section \<open>Identifiers and times\<close>

type_synonym wg_id = bytes

text \<open>\<open>Id::from_slice\<close> copies four bytes, and panics on any other length.\<close>

definition id_from_slice :: "bytes \<Rightarrow> wg_id option" where
  "id_from_slice s = (if length s = 4 then Some s else None)"

definition REKEY_AFTER_TIME :: nat where "REKEY_AFTER_TIME = 120"
definition REJECT_AFTER_TIME :: nat where "REJECT_AFTER_TIME = 180"
definition REKEY_TIMEOUT :: nat where "REKEY_TIMEOUT = 5"
definition KEEPALIVE_TIMEOUT :: nat where "KEEPALIVE_TIMEOUT = 10"
definition REKEY_ATTEMPT_TIME :: nat where "REKEY_ATTEMPT_TIME = 90"

text \<open>\<open>Duration::from_secs\<close> in nanoseconds.\<close>

definition from_secs :: "nat \<Rightarrow> nat" where
  "from_secs s = s * 1000000000"

section \<open>The cipher\<close>

definition cipher_encrypt :: "aead \<Rightarrow> bytes \<Rightarrow> u64 \<Rightarrow> bytes \<Rightarrow> bytes \<Rightarrow> nat \<Rightarrow> bytes option" where
  "cipher_encrypt ae k nonce ad plaintext out_len =
     (if out_len = length plaintext + 16 then
        let n = replicate 4 0 @ le_bytes 8 nonce in Some (ae_encrypt ae n k ad plaintext)
      else None)"

definition cipher_decrypt :: "aead \<Rightarrow> bytes \<Rightarrow> u64 \<Rightarrow> bytes \<Rightarrow> bytes \<Rightarrow> nat \<Rightarrow> bytes option option" where
  "cipher_decrypt ae k nonce ad ciphertext out_len =
     (if out_len + 16 = length ciphertext then
        let n = replicate 4 0 @ le_bytes 8 nonce in Some (ae_decrypt ae n k ad ciphertext)
      else None)"

section \<open>The session\<close>

definition REKEY_AFTER_MESSAGES :: u64 where "REKEY_AFTER_MESSAGES = 0xfffffffffffeffff"
definition REJECT_AFTER_MESSAGES :: u64 where "REJECT_AFTER_MESSAGES = 0xffffffffffffffef"

record transport =
  tp_self_id :: wg_id
  tp_peer_id :: wg_id
  tp_is_initiator :: bool
  tp_should_handshake :: bool
  tp_has_received :: bool
  tp_not_too_old :: bool
  tp_created :: instant
  tp_send_key :: bytes
  tp_send_counter :: u64
  tp_recv_key :: bytes
  tp_recv_ar :: anti_replay

text \<open>\<open>Transport::new_from_hs\<close>; of the handshake state it uses the role and the two cipher keys.\<close>

definition tp_new_from_hs :: "wg_id \<Rightarrow> wg_id \<Rightarrow> bool \<Rightarrow> bytes \<times> bytes \<Rightarrow> instant \<Rightarrow> transport" where
  "tp_new_from_hs self_id peer_id is_initiator ciphers now =
     (let (x, y) = ciphers;
          (s, r) = (if is_initiator then (x, y) else (y, x))
      in \<lparr>tp_self_id = self_id, tp_peer_id = peer_id, tp_is_initiator = is_initiator,
          tp_should_handshake = False, tp_has_received = False, tp_not_too_old = True,
          tp_created = now, tp_send_key = s, tp_send_counter = counter_new 0,
          tp_recv_key = r, tp_recv_ar = ar_new\<rparr>)"

lemma tp_new_sel [simp]:
  "tp_self_id (tp_new_from_hs a b i k now) = a" "tp_peer_id (tp_new_from_hs a b i k now) = b"
  "tp_is_initiator (tp_new_from_hs a b i k now) = i" "\<not> tp_should_handshake (tp_new_from_hs a b i k now)"
  "\<not> tp_has_received (tp_new_from_hs a b i k now)" "tp_not_too_old (tp_new_from_hs a b i k now)"
  "tp_created (tp_new_from_hs a b i k now) = now" "tp_send_counter (tp_new_from_hs a b i k now) = 0"
  "tp_send_key (tp_new_from_hs a b i k now) = (if i then fst k else snd k)"
  "tp_recv_key (tp_new_from_hs a b i k now) = (if i then snd k else fst k)"
  "tp_recv_ar (tp_new_from_hs a b i k now) = ar_new"
  by (simp_all add: tp_new_from_hs_def counter_new_def split: prod.split)

definition handshake_after :: "transport \<Rightarrow> nat" where
  "handshake_after t =
     (if tp_is_initiator t then REKEY_AFTER_TIME else REJECT_AFTER_TIME - KEEPALIVE_TIMEOUT - REKEY_TIMEOUT)"

definition tp_tick :: "instant \<Rightarrow> transport \<Rightarrow> transport" where
  "tp_tick now t =
     (let t = (if tp_created t + from_secs (handshake_after t) \<le> now then t\<lparr>tp_should_handshake := True\<rparr> else t)
      in if tp_created t + from_secs REJECT_AFTER_TIME \<le> now then t\<lparr>tp_not_too_old := False\<rparr> else t)"

definition tp_get_should_send :: "transport \<Rightarrow> bool" where
  "tp_get_should_send t \<longleftrightarrow> (tp_is_initiator t \<or> tp_has_received t) \<and> tp_not_too_old t"

definition tp_encrypt :: "aead \<Rightarrow> transport \<Rightarrow> bytes \<Rightarrow> nat \<Rightarrow> ((bytes option \<times> bool) \<times> transport) option" where
  "tp_encrypt ae t msg out_len =
     (let (c, counter) = counter_fetch_add (tp_send_counter t) 1;
          t = t\<lparr>tp_send_counter := counter\<rparr>;
          should_rekey = tp_is_initiator t \<and> (tp_should_handshake t \<or> c \<ge> REKEY_AFTER_MESSAGES)
      in if c \<ge> REJECT_AFTER_MESSAGES then Some ((None, should_rekey), t\<lparr>tp_not_too_old := False\<rparr>)
         else case cipher_encrypt ae (tp_send_key t) c [] msg (out_len - 16) of
                None \<Rightarrow> None
              | Some ct \<Rightarrow> Some ((Some ([4, 0, 0, 0] @ tp_peer_id t @ le_bytes 8 c @ ct), should_rekey), t))"

definition tp_decrypt :: "aead \<Rightarrow> transport \<Rightarrow> bytes \<Rightarrow> nat \<Rightarrow> ((bool \<times> bytes) option \<times> transport) option" where
  "tp_decrypt ae t msg out_len =
     (if length msg < 32 then Some (None, t)
      else if \<not> tp_not_too_old t then Some (None, t)
      else if slice 0 4 msg \<noteq> [4, 0, 0, 0] then Some (None, t)
      else
        let counter = le_word (slice 8 16 msg) in
        if counter \<ge> REJECT_AFTER_MESSAGES then Some (None, t)
        else case cipher_decrypt ae (tp_recv_key t) counter [] (drop 16 msg) out_len of
               None \<Rightarrow> None
             | Some None \<Rightarrow> Some (None, t)
             | Some (Some out) \<Rightarrow>
                 let (fresh, ar) = ar_check_and_update (tp_recv_ar t) counter;
                     t = t\<lparr>tp_recv_ar := ar\<rparr>
                 in if \<not> fresh then Some (None, t)
                    else if \<not> tp_is_initiator t
                    then Some (Some (tp_should_handshake t, out), t\<lparr>tp_has_received := True\<rparr>)
                    else Some (Some (False, out), t))"

text \<open>The length of the decrypted packet is what its callers pass: 32 bytes less than the message.\<close>

lemma tp_decrypt_total: "tp_decrypt ae t msg (length msg - 32) \<noteq> None"
  by (auto simp: tp_decrypt_def cipher_decrypt_def Let_def split: option.splits prod.splits if_splits)

lemma tp_encrypt_total: "tp_encrypt ae t msg (length msg + 32) \<noteq> None"
  by (auto simp: tp_encrypt_def cipher_encrypt_def counter_fetch_add_def Let_def)

section \<open>Runs of a session\<close>

text \<open>
  What happens to a session: packets to send, which its users encrypt only while
  \<open>get_should_send\<close> holds, packets received, and the passing of time.
\<close>

datatype tp_event = TpSend bytes | TpReceive bytes | TpTick instant

definition tp_step :: "aead \<Rightarrow> transport \<Rightarrow> tp_event \<Rightarrow> transport" where
  "tp_step ae t e =
     (case e of
        TpSend msg \<Rightarrow>
          if tp_get_should_send t
          then (case tp_encrypt ae t msg (length msg + 32) of None \<Rightarrow> t | Some (_, t') \<Rightarrow> t') else t
      | TpReceive msg \<Rightarrow> (case tp_decrypt ae t msg (length msg - 32) of None \<Rightarrow> t | Some (_, t') \<Rightarrow> t')
      | TpTick now \<Rightarrow> tp_tick now t)"

text \<open>What a step puts on the wire, and what it delivers (with the counter of the packet).\<close>

definition tp_sent :: "aead \<Rightarrow> transport \<Rightarrow> tp_event \<Rightarrow> bytes option" where
  "tp_sent ae t e =
     (case e of
        TpSend msg \<Rightarrow>
          if tp_get_should_send t
          then (case tp_encrypt ae t msg (length msg + 32) of Some ((Some out, _), _) \<Rightarrow> Some out | _ \<Rightarrow> None)
          else None
      | _ \<Rightarrow> None)"

definition tp_delivered :: "aead \<Rightarrow> transport \<Rightarrow> tp_event \<Rightarrow> (u64 \<times> bytes) option" where
  "tp_delivered ae t e =
     (case e of
        TpReceive msg \<Rightarrow>
          (case tp_decrypt ae t msg (length msg - 32) of
             Some (Some (_, out), _) \<Rightarrow> Some (le_word (slice 8 16 msg), out) | _ \<Rightarrow> None)
      | _ \<Rightarrow> None)"

fun tp_run :: "aead \<Rightarrow> transport \<Rightarrow> tp_event list \<Rightarrow> transport" where
  "tp_run ae t [] = t"
| "tp_run ae t (e # es) = tp_run ae (tp_step ae t e) es"

fun tp_wire :: "aead \<Rightarrow> transport \<Rightarrow> tp_event list \<Rightarrow> bytes list" where
  "tp_wire ae t [] = []"
| "tp_wire ae t (e # es) =
     (case tp_sent ae t e of Some out \<Rightarrow> [out] | None \<Rightarrow> []) @ tp_wire ae (tp_step ae t e) es"

fun tp_deliveries :: "aead \<Rightarrow> transport \<Rightarrow> tp_event list \<Rightarrow> (u64 \<times> bytes) list" where
  "tp_deliveries ae t [] = []"
| "tp_deliveries ae t (e # es) =
     (case tp_delivered ae t e of Some d \<Rightarrow> [d] | None \<Rightarrow> []) @ tp_deliveries ae (tp_step ae t e) es"

text \<open>The nonce of a packet on the wire.\<close>

definition packet_nonce :: "bytes \<Rightarrow> u64" where
  "packet_nonce p = le_word (slice 8 16 p)"

section \<open>Sending\<close>

lemma tp_encrypt_eq:
  "tp_encrypt ae t msg (length msg + 32) = Some (
     if tp_send_counter t \<ge> REJECT_AFTER_MESSAGES
     then ((None, tp_is_initiator t \<and> (tp_should_handshake t \<or> tp_send_counter t \<ge> REKEY_AFTER_MESSAGES)),
           t\<lparr>tp_send_counter := tp_send_counter t + 1, tp_not_too_old := False\<rparr>)
     else ((Some ([4, 0, 0, 0] @ tp_peer_id t @ le_bytes 8 (tp_send_counter t) @
              ae_encrypt ae (replicate 4 0 @ le_bytes 8 (tp_send_counter t)) (tp_send_key t) [] msg),
            tp_is_initiator t \<and> (tp_should_handshake t \<or> tp_send_counter t \<ge> REKEY_AFTER_MESSAGES)),
           t\<lparr>tp_send_counter := tp_send_counter t + 1\<rparr>))"
  by (simp add: tp_encrypt_def cipher_encrypt_def counter_fetch_add_def Let_def)

lemma tp_step_sent:
  assumes "length (tp_peer_id t) = 4"
  shows "tp_sent ae t e = Some out \<Longrightarrow>
      packet_nonce out = tp_send_counter t \<and> tp_send_counter t < REJECT_AFTER_MESSAGES \<and> tp_not_too_old t \<and>
      tp_send_counter (tp_step ae t e) = tp_send_counter t + 1"
    and "tp_sent ae t e = None \<Longrightarrow> tp_send_counter (tp_step ae t e) = tp_send_counter t \<or> \<not> tp_not_too_old (tp_step ae t e)"
    and "tp_not_too_old (tp_step ae t e) \<Longrightarrow> tp_not_too_old t"
    and "tp_peer_id (tp_step ae t e) = tp_peer_id t"
  using assms
  by (auto simp: tp_sent_def tp_step_def tp_encrypt_eq tp_tick_def tp_decrypt_def Let_def slice_def le_word_bytes
      tp_get_should_send_def packet_nonce_def split: tp_event.splits if_splits option.splits prod.splits)

lemma u64_Suc: "(c :: u64) < d \<Longrightarrow> unat (c + 1) = Suc (unat c)"
proof -
  assume "c < d"
  then have "unat c < unat d" by (simp add: word_less_nat_alt)
  then have "unat c + unat (1 :: u64) < 2 ^ LENGTH(64)" using unat_u64_less [of d] by simp
  then have "unat (c + 1) = unat c + unat (1 :: u64)" by (rule unat_add_small)
  then show ?thesis by simp
qed

text \<open>All packets of a run carry nonces from the current counter on.\<close>

lemma tp_wire_nonces:
  assumes "length (tp_peer_id t) = 4"
  shows "distinct (map packet_nonce (tp_wire ae t es)) \<and>
    (\<forall>p \<in> set (tp_wire ae t es). tp_not_too_old t \<and> tp_send_counter t \<le> packet_nonce p)"
  using assms
proof (induction es arbitrary: t)
  case (Cons e es)
  let ?t = "tp_step ae t e"
  note step = tp_step_sent [OF Cons.prems]
  have IH: "distinct (map packet_nonce (tp_wire ae ?t es))"
    "\<forall>p \<in> set (tp_wire ae ?t es). tp_not_too_old ?t \<and> tp_send_counter ?t \<le> packet_nonce p"
    using Cons.IH [of ?t] Cons.prems step(4) by auto
  show ?case
  proof (cases "tp_sent ae t e")
    case None
    then show ?thesis using IH step(2,3) [where e = e and ae = ae] by auto
  next
    case (Some out)
    note s = step(1) [OF Some]
    have "\<forall>p \<in> set (tp_wire ae ?t es). tp_send_counter t < packet_nonce p"
    proof
      fix p assume that: "p \<in> set (tp_wire ae ?t es)"
      have "unat (tp_send_counter ?t) = Suc (unat (tp_send_counter t))" using s u64_Suc [of _ REJECT_AFTER_MESSAGES] by simp
      moreover have "tp_send_counter ?t \<le> packet_nonce p" using IH(2) that by blast
      ultimately show "tp_send_counter t < packet_nonce p" by (simp add: word_less_nat_alt word_le_nat_alt)
    qed
    then show ?thesis using IH(1) s Some by (fastforce intro: less_imp_le)
  qed
qed simp

section \<open>Receiving\<close>

lemma tp_decrypt_Ok:
  assumes "tp_decrypt ae t msg (length msg - 32) = Some (Some (h, out), t')"
  defines "c \<equiv> le_word (slice 8 16 msg)"
  shows "32 \<le> length msg \<and> tp_not_too_old t \<and> slice 0 4 msg = [4, 0, 0, 0] \<and> c < REJECT_AFTER_MESSAGES \<and>
    ae_decrypt ae (replicate 4 0 @ le_bytes 8 c) (tp_recv_key t) [] (drop 16 msg) = Some out \<and>
    ar_check (tp_recv_ar t) c \<and>
    h = (\<not> tp_is_initiator t \<and> tp_should_handshake t) \<and>
    t' = t\<lparr>tp_recv_ar := ar_update (tp_recv_ar t) c,
           tp_has_received := tp_has_received t \<or> \<not> tp_is_initiator t\<rparr>"
  using assms
  by (auto simp: tp_decrypt_def cipher_decrypt_def Let_def ar_check_and_update_def not_le
      split: if_splits option.splits prod.splits)

lemma tp_decrypt_Err:
  assumes "tp_decrypt ae t msg (length msg - 32) = Some (None, t')"
  shows "t' = t"
  using assms
  by (auto simp: tp_decrypt_def cipher_decrypt_def Let_def ar_check_and_update_def
      split: if_splits option.splits prod.splits)

lemma tp_delivered_step:
  assumes "tp_delivered ae t e = Some (c, out)"
  shows "\<exists>msg. e = TpReceive msg \<and> c = packet_nonce msg \<and> tp_not_too_old t \<and>
    ae_decrypt ae (replicate 4 0 @ le_bytes 8 c) (tp_recv_key t) [] (drop 16 msg) = Some out \<and>
    ar_check (tp_recv_ar t) c \<and> tp_recv_ar (tp_step ae t e) = ar_update (tp_recv_ar t) c"
  using assms
  by (auto simp: tp_delivered_def tp_step_def packet_nonce_def dest!: tp_decrypt_Ok
      split: tp_event.splits option.splits prod.splits)

lemma tp_not_delivered_step:
  assumes "tp_delivered ae t e = None"
  shows "tp_recv_ar (tp_step ae t e) = tp_recv_ar t"
proof (cases e)
  case (TpSend msg)
  then show ?thesis by (simp add: tp_step_def tp_encrypt_eq)
next
  case (TpReceive msg)
  then obtain r t' where r: "tp_decrypt ae t msg (length msg - 32) = Some (r, t')"
    using tp_decrypt_total by fastforce
  then have "r = None" using assms TpReceive by (cases r) (auto simp: tp_delivered_def)
  then show ?thesis using r TpReceive tp_decrypt_Err by (auto simp: tp_step_def)
next
  case (TpTick now)
  then show ?thesis by (simp add: tp_step_def tp_tick_def Let_def)
qed

lemma tp_step_recv_key: "tp_recv_key (tp_step ae t e) = tp_recv_key t"
  by (auto simp: tp_step_def tp_encrypt_eq tp_tick_def tp_decrypt_def Let_def
      split: tp_event.splits option.splits prod.splits if_splits)

lemma tp_deliveries_fresh:
  assumes "ar_represents (tp_recv_ar t) S"
  shows "distinct (map fst (tp_deliveries ae t es)) \<and> (\<forall>(c, out) \<in> set (tp_deliveries ae t es). unat c \<notin> S)"
  using assms
proof (induction es arbitrary: t S)
  case (Cons e es)
  let ?t = "tp_step ae t e"
  show ?case
  proof (cases "tp_delivered ae t e")
    case None
    then show ?thesis using Cons.IH [of ?t S] Cons.prems tp_not_delivered_step [OF None] by simp
  next
    case (Some d)
    obtain c out where d: "d = (c, out)" by (cases d)
    have s: "ar_check (tp_recv_ar t) c" "tp_recv_ar ?t = ar_update (tp_recv_ar t) c"
      using tp_delivered_step Some d by blast+
    have "unat c \<notin> S" using ar.refuses_seen [OF Cons.prems, of c] s(1) by blast
    moreover have "ar_represents (tp_recv_ar ?t) (insert (unat c) S)"
      using ar.records [OF Cons.prems s(1)] s(2) by simp
    ultimately show ?thesis
      using Cons.IH [of ?t "insert (unat c) S"] by (auto simp: Some d)
  qed
qed simp

lemma tp_deliveries_authentic:
  "(c, out) \<in> set (tp_deliveries ae t es) \<Longrightarrow>
    \<exists>msg. TpReceive msg \<in> set es \<and> c = packet_nonce msg \<and>
      ae_decrypt ae (replicate 4 0 @ le_bytes 8 c) (tp_recv_key t) [] (drop 16 msg) = Some out"
proof (induction es arbitrary: t)
  case (Cons e es)
  show ?case
  proof (cases "tp_delivered ae t e = Some (c, out)")
    case True
    then show ?thesis using tp_delivered_step by fastforce
  next
    case False
    then have "(c, out) \<in> set (tp_deliveries ae (tp_step ae t e) es)"
      using Cons.prems by (auto split: option.splits)
    then show ?thesis using Cons.IH [of "tp_step ae t e"] by (auto simp: tp_step_recv_key)
  qed
qed simp

section \<open>Properties\<close>

text \<open>
  However sends, receptions and time interleave, a session that is asked to encrypt only while
  \<open>get_should_send\<close> holds never puts two packets with the same nonce on the wire, not even when
  its 64-bit counter would wrap.
\<close>

theorem tp_nonces_distinct:
  assumes "length (tp_peer_id t) = 4"
  shows "distinct (map packet_nonce (tp_wire ae t es))"
  using tp_wire_nonces [OF assms] by blast

theorem tp_nonces_distinct_witness:
  "distinct (map packet_nonce (tp_wire plain_aead (tp_new_from_hs [1, 2, 3, 4] [5, 6, 7, 8] True ([1], [2]) 0)
     [TpSend [1], TpTick 5, TpSend [1]]))"
  by (rule tp_nonces_distinct) (simp add: tp_new_from_hs_def)

text \<open>A new session delivers every packet at most once: no counter is delivered twice.\<close>

theorem tp_no_replay:
  "distinct (map fst (tp_deliveries ae (tp_new_from_hs self_id peer_id is_initiator ciphers now) es))"
  using tp_deliveries_fresh [of "tp_new_from_hs self_id peer_id is_initiator ciphers now" "{}"] ar_new_represents
  by (simp add: tp_new_from_hs_def Let_def split: prod.split)

lemma tp_wire_sends:
  "w \<in> set (tp_wire ae t es) \<Longrightarrow> length (tp_peer_id t) = 4 \<Longrightarrow>
    \<exists>msg. TpSend msg \<in> set es \<and> drop 8 w = le_bytes 8 (packet_nonce w) @
      ae_encrypt ae (replicate 4 0 @ le_bytes 8 (packet_nonce w)) (tp_send_key t) [] msg"
proof (induction es arbitrary: t)
  case (Cons e es)
  let ?t = "tp_step ae t e"
  have same: "tp_send_key ?t = tp_send_key t" "tp_peer_id ?t = tp_peer_id t"
    by (auto simp: tp_step_def tp_encrypt_eq tp_tick_def tp_decrypt_def Let_def
      split: tp_event.splits option.splits prod.splits if_splits)
  show ?case
  proof (cases "tp_sent ae t e = Some w")
    case True
    then obtain msg where "e = TpSend msg" by (cases e) (simp_all add: tp_sent_def)
    with True Cons.prems show ?thesis
      by (intro exI [of _ msg])
        (auto simp: tp_sent_def tp_encrypt_eq packet_nonce_def slice_def le_word_bytes split: if_splits)
  next
    case False
    then have "w \<in> set (tp_wire ae ?t es)" using Cons.prems by (auto split: option.splits)
    then show ?thesis using Cons.IH [of ?t] Cons.prems by (auto simp: same)
  qed
qed simp


text \<open>Two ends of a session, for the witnesses.\<close>

definition example_sender :: transport where
  "example_sender = tp_new_from_hs [1, 2, 3, 4] [5, 6, 7, 8] True ([1], [2]) 0"

definition example_receiver :: transport where
  "example_receiver = tp_new_from_hs [5, 6, 7, 8] [1, 2, 3, 4] False ([1], [2]) 0"

definition example_packet :: bytes where
  "example_packet = [4, 0, 0, 0, 5, 6, 7, 8, 0, 0, 0, 0, 0, 0, 0, 0, 9] @ replicate 16 0"

lemma example_wire: "tp_wire plain_aead example_sender [TpSend [9]] = [example_packet]"
  by (simp add: tp_sent_def tp_encrypt_def cipher_encrypt_def counter_fetch_add_def counter_new_def
      tp_get_should_send_def example_sender_def example_packet_def tp_new_from_hs_def plain_aead_def
      REJECT_AFTER_MESSAGES_def le_bytes_def upt_rec)


lemma tp_deliver:
  assumes "aead_ok ae" "length (tp_peer_id s) = 4" "tp_send_key s = tp_recv_key r"
    and "tp_encrypt ae s msg (length msg + 32) = Some ((Some out, h), s')"
    and "tp_not_too_old r" "ar_represents (tp_recv_ar r) seen" "ar_check (tp_recv_ar r) (tp_send_counter s)"
  shows "length out = length msg + 32 \<and>
    (\<exists>h' r'. tp_decrypt ae r out (length msg) = Some (Some (h', msg), r') \<and> tp_get_should_send r' \<and>
       tp_decrypt ae r' out (length msg) = Some (None, r'))"
proof -
  let ?c = "tp_send_counter s"
  let ?ct = "ae_encrypt ae (replicate 4 0 @ le_bytes 8 ?c) (tp_send_key s) [] msg"
  have c: "?c < REJECT_AFTER_MESSAGES" and out: "out = [4, 0, 0, 0] @ tp_peer_id s @ le_bytes 8 ?c @ ?ct"
    using assms(4) by (auto simp: tp_encrypt_eq not_le split: if_splits)
  have len: "length out = length msg + 32" using assms(1,2) by (simp add: out aead_ok_def)
  have parts: "slice 0 4 out = [4, 0, 0, 0]" "slice 8 16 out = le_bytes 8 ?c" "drop 16 out = ?ct"
    using assms(2) by (simp_all add: out slice_def)
  have dec: "ae_decrypt ae (replicate 4 0 @ le_bytes 8 ?c) (tp_recv_key r) [] ?ct = Some msg"
    "length ?ct = length msg + 16"
    using assms(1,3) by (simp_all add: aead_ok_def)
  define r' where "r' = r\<lparr>tp_recv_ar := ar_update (tp_recv_ar r) ?c,
    tp_has_received := tp_has_received r \<or> \<not> tp_is_initiator r\<rparr>"
  have "ar_represents (tp_recv_ar r') (insert (unat ?c) seen)"
    using ar.records assms(6,7) by (simp add: r'_def)
  then have "\<not> ar_check (tp_recv_ar r') ?c" by (rule ar.refuses_seen) simp
  then have again: "tp_decrypt ae r' out (length msg) = Some (None, r')"
    using c len parts dec assms(5)
    by (simp add: tp_decrypt_def cipher_decrypt_def le_word_bytes Let_def ar_check_and_update_def not_le r'_def)
  have "tp_decrypt ae r out (length msg) = Some (Some (\<not> tp_is_initiator r \<and> tp_should_handshake r, msg), r')"
    using c len parts dec assms(5,7)
    by (auto simp: tp_decrypt_def cipher_decrypt_def le_word_bytes Let_def ar_check_and_update_def not_le r'_def)
  moreover have "tp_get_should_send r'" using assms(5) by (auto simp: tp_get_should_send_def r'_def)
  ultimately show ?thesis using len again by blast
qed

text \<open>
  What one end encrypts the other end decrypts: with matching keys, a packet whose counter the
  receiver accepts is delivered unchanged, the receiver may send from then on, and the same packet
  is not accepted again.
\<close>

theorem tp_roundtrip:
  assumes "aead_ok ae" "length (tp_peer_id s) = 4" "tp_send_key s = tp_recv_key r"
    and "tp_encrypt ae s msg (length msg + 32) = Some ((Some out, h), s')"
    and "tp_not_too_old r" "ar_represents (tp_recv_ar r) seen" "ar_check (tp_recv_ar r) (tp_send_counter s)"
  shows "length out = length msg + 32 \<and>
    (\<exists>h' r'. tp_decrypt ae r out (length msg) = Some (Some (h', msg), r') \<and> tp_get_should_send r' \<and>
       tp_decrypt ae r' out (length msg) = Some (None, r'))"
  using assms by (rule tp_deliver)

theorem tp_roundtrip_witness:
  "length example_packet = length [9 :: u8] + 32 \<and>
    (\<exists>h' r'. tp_decrypt plain_aead example_receiver example_packet (length [9 :: u8]) = Some (Some (h', [9]), r') \<and>
       tp_get_should_send r' \<and> tp_decrypt plain_aead r' example_packet (length [9 :: u8]) = Some (None, r'))"
  by (rule tp_roundtrip [OF plain_aead_ok, of example_sender example_receiver "[9]" example_packet False
        "example_sender\<lparr>tp_send_counter := 1\<rparr>" "{}"])
    (simp_all add: example_sender_def example_receiver_def example_packet_def tp_new_from_hs_def
      ar_new_represents, simp_all add: tp_encrypt_def cipher_encrypt_def counter_fetch_add_def counter_new_def
      plain_aead_def REJECT_AFTER_MESSAGES_def REKEY_AFTER_MESSAGES_def le_bytes_def upt_rec
      ar_check_def ar_new_def BITMAP_LEN_val)

end
