(* ===== verification/Cookie.thy ===== *)
theory Cookie
  imports Transport
begin

text \<open>
  Cookies: \<open>src/src/wireguard/cookie.rs\<close>, and the externals the packet handlers share. BLAKE2s, the
  AEAD of libsodium and the random generator are not in the repository: the first is
  \<open>x_blake2s\<close> (output length, key, input; \<open>State::new()\<close> is the unkeyed hash of 32 bytes), a
  parameter with \<open>externals_ok\<close> as its documented behaviour, and random bytes are arguments of the
  operations that draw them. The lemmas show that a cookie reply gives the cookie exactly to the
  sender of the message it answers, and that \<open>mac2\<close> is accepted exactly when it was signed with the
  cookie.
\<close>

section \<open>Externals\<close>

record externals =
  x_target :: target
  x_aead :: aead
  x_blake2s :: "nat \<Rightarrow> bytes \<Rightarrow> bytes \<Rightarrow> bytes"

definition externals_ok :: "'a externals_scheme \<Rightarrow> bool" where
  "externals_ok x \<longleftrightarrow> aead_ok (x_aead x) \<and> (\<forall>len key input. length (x_blake2s x len key input) = len)"

definition ct_eq_16 :: "target \<Rightarrow> bytes \<Rightarrow> bytes \<Rightarrow> bool" where
  "ct_eq_16 t a b =
     (case t of X86_Sse2 _ \<Rightarrow> constant_time_eq_16 a b | Portable \<Rightarrow> constant_time_eq_16_fallback a b)"

lemma ct_eq_16_iff [simp]: "length a = 16 \<Longrightarrow> length b = 16 \<Longrightarrow> ct_eq_16 t a b \<longleftrightarrow> a = b"
  by (cases t) (simp_all add: ct_eq_16_def constant_time_sse2_iff constant_time_fallback_iff)

lemma externals_okD:
  assumes "externals_ok x"
  shows "length (ae_encrypt (x_aead x) n k ad p) = length p + 16"
    and "ae_decrypt (x_aead x) n k ad (ae_encrypt (x_aead x) n k ad p) = Some p"
    and "length (x_blake2s x len key input) = len"
  using assms by (auto simp: externals_ok_def aead_ok_def)

section \<open>The code\<close>

definition LABEL_COOKIE :: bytes where
  "LABEL_COOKIE = ascii ''cookie--''"

definition calc_cookie :: "'a externals_scheme \<Rightarrow> bytes \<Rightarrow> bytes \<Rightarrow> bytes" where
  "calc_cookie x secret remote_addr = x_blake2s x 16 secret remote_addr"

text \<open>\<open>None\<close> is a panic: a slice of the wrong length or a failed assertion of \<open>encrypt\<close>.\<close>

definition cookie_reply :: "'a externals_scheme \<Rightarrow> bytes \<Rightarrow> bytes \<Rightarrow> wg_id \<Rightarrow> bytes \<Rightarrow> bytes \<Rightarrow> bytes option" where
  "cookie_reply x pubkey cookie peer_index mac1 nonce =
     (let temp = x_blake2s x 32 [] (LABEL_COOKIE @ pubkey)
      in case xchacha_encrypt (x_target x) (x_aead x) temp nonce mac1 cookie 32 of
           None \<Rightarrow> None
         | Some encrypted_cookie \<Rightarrow> Some ([3, 0, 0, 0] @ peer_index @ nonce @ encrypted_cookie))"

definition process_cookie_reply :: "'a externals_scheme \<Rightarrow> bytes \<Rightarrow> bytes \<Rightarrow> bytes \<Rightarrow> (unit, bytes) rust_result" where
  "process_cookie_reply x peer_pubkey mac1 msg =
     (if length msg \<noteq> 64 then RErr ()
      else if take 4 msg \<noteq> [3, 0, 0, 0] then RErr ()
      else
        let nonce = slice 8 32 msg;
            ciphertext = slice 32 64 msg;
            temp = x_blake2s x 32 [] (LABEL_COOKIE @ peer_pubkey)
        in case xchacha_decrypt (x_target x) (x_aead x) temp nonce mac1 ciphertext 16 of
             None \<Rightarrow> RPanic
           | Some None \<Rightarrow> RErr ()
           | Some (Some cookie) \<Rightarrow> ROk cookie)"

definition get_mac1 :: "bytes \<Rightarrow> bytes option" where
  "get_mac1 m =
     (let len = length m in if len < 32 then None else Some (slice (len - 32) (len - 16) m))"

definition cookie_sign :: "'a externals_scheme \<Rightarrow> bytes \<Rightarrow> bytes option \<Rightarrow> bytes option" where
  "cookie_sign x m cookie =
     (case cookie of
        None \<Rightarrow> Some m
      | Some c \<Rightarrow>
          if length m < 16 then None
          else
            let m1 = take (length m - 16) m;
                mac2 = x_blake2s x 16 c m1
            in Some (m1 @ mac2))"

definition cookie_verify :: "'a externals_scheme \<Rightarrow> bytes \<Rightarrow> bytes \<Rightarrow> bool" where
  "cookie_verify x m cookie =
     (if length m < 16 then False
      else
        let m' = take (length m - 16) m; mac2 = drop (length m - 16) m;
            mac2' = x_blake2s x 16 cookie m'
        in ct_eq_16 (x_target x) mac2' mac2)"

section \<open>Facts for the packet handlers\<close>

lemma length_calc_cookie [simp]: "externals_ok x \<Longrightarrow> length (calc_cookie x secret addr) = 16"
  by (simp add: calc_cookie_def externals_ok_def)

lemma cookie_reply_total:
  assumes "externals_ok x" "length nonce = 24" "length cookie = 16"
  shows "\<exists>r. cookie_reply x pk cookie idx mac1 nonce = Some r"
  using assms by (simp add: cookie_reply_def xchacha_encrypt_def externals_ok_def Let_def)

lemma process_cookie_reply_total:
  "externals_ok x \<Longrightarrow> process_cookie_reply x pk mac1 msg \<noteq> RPanic"
  by (auto simp: process_cookie_reply_def xchacha_decrypt_def externals_ok_def Let_def split: option.splits)

lemma cookie_sign_total: "16 \<le> length m \<Longrightarrow> \<exists>s. cookie_sign x m c = Some s"
  by (cases c) (auto simp: cookie_sign_def Let_def)

lemma cookie_sign_length: "externals_ok x \<Longrightarrow> cookie_sign x m c = Some s \<Longrightarrow> length s = length m"
  by (auto simp: cookie_sign_def externals_ok_def Let_def split: option.splits if_splits)

lemma cookie_sign_take: "cookie_sign x m c = Some s \<Longrightarrow> n \<le> length m - 16 \<Longrightarrow> take n s = take n m"
  by (auto simp: cookie_sign_def Let_def split: option.splits if_splits)

lemma cookie_sign_prefix:
  "cookie_sign x (m @ t) c = Some s \<Longrightarrow> length t = 16 \<Longrightarrow> \<exists>u. s = m @ u"
  by (auto simp: cookie_sign_def Let_def split: option.splits if_splits)

section \<open>Properties\<close>

lemma split_64:
  assumes "length msg = 64"
  shows "msg = take 4 msg @ slice 4 8 msg @ slice 8 32 msg @ slice 32 64 msg"
proof -
  have "msg = take 4 msg @ take 4 (drop 4 msg) @ take 24 (drop 4 (drop 4 msg)) @ drop 24 (drop 4 (drop 4 msg))"
    by (simp only: append_take_drop_id)
  then show ?thesis using assms by (simp add: slice_def)
qed

lemma process_cookie_reply_of:
  assumes "externals_ok x" "length idx = 4" "length nonce = 24" "length cookie = 16"
    "cookie_reply x pk cookie idx mac1 nonce = Some msg"
  shows "process_cookie_reply x pk mac1 msg = ROk cookie"
  using assms(2-5)
  by (auto simp: cookie_reply_def process_cookie_reply_def xchacha_encrypt_def xchacha_decrypt_def slice_def
      externals_okD [OF assms(1)] Let_def split: option.splits)

text \<open>
  C27: Processing a cookie reply yields a cookie exactly when the message is one that
  \<open>cookie_reply\<close> builds from that cookie with the same public key and the same \<open>mac1\<close>, whatever
  the index and the nonce: the reply round-trips, and nothing else is accepted.
\<close>

theorem cookie_reply_roundtrip:
  assumes "externals_ok x"
  shows "process_cookie_reply x pk mac1 msg = ROk cookie \<longleftrightarrow>
    (\<exists>idx nonce. length idx = 4 \<and> length nonce = 24 \<and> length cookie = 16 \<and>
       cookie_reply x pk cookie idx mac1 nonce = Some msg)"
    (is "?l \<longleftrightarrow> ?r")
proof
  assume ?l
  then have msg: "length msg = 64" "take 4 msg = [3, 0, 0, 0]"
    and dec: "xchacha_decrypt (x_target x) (x_aead x) (x_blake2s x 32 [] (LABEL_COOKIE @ pk)) (slice 8 32 msg)
      mac1 (slice 32 64 msg) 16 = Some (Some cookie)"
    by (auto simp: process_cookie_reply_def Let_def split: if_splits option.splits)
  have "length (slice 32 64 msg) = length cookie + 16 \<and>
      xchacha_encrypt (x_target x) (x_aead x) (x_blake2s x 32 [] (LABEL_COOKIE @ pk)) (slice 8 32 msg)
        mac1 cookie 32 = Some (slice 32 64 msg)"
  proof -
    have ae: "length (ae_encrypt (x_aead x) n k ad p) = length p + 16"
      "ae_decrypt (x_aead x) n k ad c = Some p \<longleftrightarrow> c = ae_encrypt (x_aead x) n k ad p" for n k ad c p
      using assms by (auto simp: externals_ok_def aead_ok_def)
    have "length (slice 32 64 msg) = 32" using msg by simp
    then show ?thesis
      using dec assms ae(1) by (auto simp: xchacha_decrypt_def xchacha_encrypt_def externals_ok_def ae(2) Let_def split: if_splits)
  qed
  moreover have "msg = [3, 0, 0, 0] @ slice 4 8 msg @ slice 8 32 msg @ slice 32 64 msg"
    using split_64 [OF msg(1)] msg(2) by simp
  ultimately have "length (slice 4 8 msg) = 4 \<and> length (slice 8 32 msg) = 24 \<and> length cookie = 16 \<and>
      cookie_reply x pk cookie (slice 4 8 msg) mac1 (slice 8 32 msg) = Some msg"
    using msg(1) by (simp add: cookie_reply_def Let_def)
  then show ?r by blast
next
  assume ?r
  then show ?l using process_cookie_reply_of [OF assms] by blast
qed

text \<open>Externals with the documented behaviour.\<close>

definition plain_externals :: externals where
  "plain_externals = \<lparr>x_target = Portable, x_aead = plain_aead,
     x_blake2s = (\<lambda>len key input. take len (key @ input @ replicate len 0))\<rparr>"

lemma plain_externals_ok: "externals_ok plain_externals"
  by (auto simp: externals_ok_def plain_externals_def plain_aead_ok)

theorem cookie_reply_roundtrip_witness:
  "process_cookie_reply plain_externals (replicate 32 7) [1, 2]
     ([3, 0, 0, 0] @ [1, 2, 3, 4] @ replicate 24 5 @ replicate 16 9 @ replicate 16 0) = ROk (replicate 16 9)"
  by (rule cookie_reply_roundtrip [OF plain_externals_ok, THEN iffD2],
      rule exI [of _ "[1, 2, 3, 4]"], rule exI [of _ "replicate 24 5"])
    (simp add: cookie_reply_def xchacha_encrypt_def plain_externals_def plain_aead_def Let_def)

text \<open>
  A message of at least 16 bytes passes \<open>cookie_verify\<close> exactly when signing it with that cookie
  leaves it unchanged; so a signed message verifies, whatever its last 16 bytes were before, and
  signing changes no other byte.
\<close>

theorem cookie_sign_verify:
  assumes "externals_ok x" "16 \<le> length m"
  shows "(cookie_verify x m c \<longleftrightarrow> cookie_sign x m (Some c) = Some m) \<and>
    (\<exists>s. cookie_sign x m (Some c) = Some s \<and> cookie_verify x s c \<and> length s = length m \<and>
       take (length m - 16) s = take (length m - 16) m)"
proof -
  have "take (length m - 16) m @ d = m \<longleftrightarrow> d = drop (length m - 16) m" for d
    using append_take_drop_id [of "length m - 16" m] by (metis same_append_eq)
  then show ?thesis
    using assms by (auto simp: cookie_verify_def cookie_sign_def externals_ok_def Let_def)
qed

theorem cookie_sign_verify_witness:
  "(cookie_verify plain_externals (replicate 20 0) [5] \<longleftrightarrow>
      cookie_sign plain_externals (replicate 20 0) (Some [5]) = Some (replicate 20 0)) \<and>
    (\<exists>s. cookie_sign plain_externals (replicate 20 0) (Some [5]) = Some s \<and> cookie_verify plain_externals s [5] \<and>
       length s = length (replicate 20 (0 :: u8)) \<and>
       take (length (replicate 20 (0 :: u8)) - 16) s = take (length (replicate 20 (0 :: u8)) - 16) (replicate 20 0))"
  by (rule cookie_sign_verify [OF plain_externals_ok]) simp

end
