(* ===== verification/Ip_Packet.thy ===== *)
theory Ip_Packet
  imports Prelude "HOL-Library.Product_Lexorder"
begin

text \<open>
  Addresses and packets: \<open>src/src/wireguard/ip.rs\<close> (parsing of IP headers, IPv4-mapped socket
  addresses) and the padding of \<open>src/src/wireguard/state.rs\<close>. An IPv4 address is its \<open>u32\<close>, an
  IPv6 address its \<open>u128\<close>; \<open>IpAddr\<close> is ordered as in the standard library, IPv4 first, which is
  the order of a \<open>BTreeSet\<close> of allowed IPs.
\<close>

section \<open>Addresses\<close>

datatype ip_addr = IpV4 u32 | IpV6 u128

instantiation ip_addr :: linorder
begin

fun less_eq_ip_addr :: "ip_addr \<Rightarrow> ip_addr \<Rightarrow> bool" where
  "less_eq_ip_addr (IpV4 a) (IpV4 b) \<longleftrightarrow> a \<le> b"
| "less_eq_ip_addr (IpV4 a) (IpV6 b) \<longleftrightarrow> True"
| "less_eq_ip_addr (IpV6 a) (IpV4 b) \<longleftrightarrow> False"
| "less_eq_ip_addr (IpV6 a) (IpV6 b) \<longleftrightarrow> a \<le> b"

definition less_ip_addr :: "ip_addr \<Rightarrow> ip_addr \<Rightarrow> bool" where
  "less_ip_addr a b \<longleftrightarrow> a \<le> b \<and> \<not> b \<le> a"

instance
proof
  fix x y z :: ip_addr
  show "x < y \<longleftrightarrow> x \<le> y \<and> \<not> y \<le> x" by (rule less_ip_addr_def)
  show "x \<le> x" by (cases x) auto
  show "x \<le> y \<Longrightarrow> y \<le> z \<Longrightarrow> x \<le> z" by (cases x; cases y; cases z) auto
  show "x \<le> y \<Longrightarrow> y \<le> x \<Longrightarrow> x = y" by (cases x; cases y) auto
  show "x \<le> y \<or> y \<le> x" by (cases x; cases y) auto
qed

end

record socket_addr_v6 =
  sa6_ip :: u128
  sa6_port :: u16
  sa6_flowinfo :: u32
  sa6_scope_id :: u32

datatype socket_addr = SockV4 u32 u16 | SockV6 socket_addr_v6

text \<open>\<open>Ipv6Addr::segments\<close>, \<open>Ipv4Addr::to_ipv6_mapped\<close> and \<open>Ipv6Addr::to_ipv4\<close>.\<close>

definition segments :: "u128 \<Rightarrow> u16 list" where
  "segments ip = map (\<lambda>i. ucast (drop_bit (16 * (7 - i)) ip)) [0..<8]"

definition to_ipv6_mapped :: "u32 \<Rightarrow> u128" where
  "to_ipv6_mapped a = push_bit 32 0xffff OR ucast a"

definition to_ipv4 :: "u128 \<Rightarrow> u32 option" where
  "to_ipv4 ip = (if take 6 (segments ip) = [0, 0, 0, 0, 0, 0xffff] \<or> take 6 (segments ip) = [0, 0, 0, 0, 0, 0]
     then Some (ucast ip) else None)"

definition map_ipv4_to_ipv6 :: "socket_addr \<Rightarrow> socket_addr_v6" where
  "map_ipv4_to_ipv6 addr =
     (case addr of
        SockV4 ip port \<Rightarrow> \<lparr>sa6_ip = to_ipv6_mapped ip, sa6_port = port, sa6_flowinfo = 0, sa6_scope_id = 0\<rparr>
      | SockV6 a \<Rightarrow> a)"

text \<open>The \<open>unwrap\<close> of \<open>to_ipv4\<close> cannot fail in its branch (\<open>unmap_total\<close>).\<close>

definition unmap_ipv4_from_ipv6 :: "socket_addr_v6 \<Rightarrow> socket_addr" where
  "unmap_ipv4_from_ipv6 addr =
     (if take 6 (segments (sa6_ip addr)) = [0, 0, 0, 0, 0, 0xffff]
      then SockV4 (the (to_ipv4 (sa6_ip addr))) (sa6_port addr)
      else SockV6 addr)"

section \<open>Parsing IP headers\<close>

definition parse_ip_packet :: "bytes \<Rightarrow> (u16 \<times> ip_addr \<times> ip_addr) option" where
  "parse_ip_packet packet =
     (if length packet < 20 then None
      else
        let v = drop_bit 4 (packet ! 0) in
        if v = 4 then
          let len = be_word (slice 2 4 packet);
              src = be_word (slice 12 16 packet);
              dst = be_word (slice 16 20 packet)
          in Some (len, IpV4 src, IpV4 dst)
        else if v = 6 then
          (if length packet < 40 then None
           else
             let len = be_word (slice 4 6 packet) :: u16 in
             if length packet < unat len then None
             else
               let src = be_word (slice 8 24 packet);
                   dst = be_word (slice 24 40 packet)
               in Some (len, IpV6 src, IpV6 dst))
        else None)"

section \<open>Padding\<close>

definition pad_len :: "u64 \<Rightarrow> u64 \<Rightarrow> u64" where
  "pad_len len mtu =
     (if len \<ge> mtu then len
      else
        let PADDING_MASK = 15 in
        min mtu ((len AND NOT PADDING_MASK) + (if len AND PADDING_MASK = 0 then 0 else 16)))"

section \<open>Properties\<close>

text \<open>Headers to parse: the fields the code reads, and the bytes between them.\<close>

definition ipv4_packet :: "u8 \<Rightarrow> u8 \<Rightarrow> u16 \<Rightarrow> bytes \<Rightarrow> u32 \<Rightarrow> u32 \<Rightarrow> bytes \<Rightarrow> bytes" where
  "ipv4_packet ihl tos total_len mid src dst rest =
     [0x40 OR ihl, tos] @ be_bytes 2 total_len @ mid @ be_bytes 4 src @ be_bytes 4 dst @ rest"

definition ipv6_packet :: "u8 \<Rightarrow> bytes \<Rightarrow> u16 \<Rightarrow> u8 \<Rightarrow> u8 \<Rightarrow> u128 \<Rightarrow> u128 \<Rightarrow> bytes \<Rightarrow> bytes" where
  "ipv6_packet tc flow payload_len next_header hop src dst payload =
     [0x60 OR tc] @ flow @ be_bytes 2 payload_len @ [next_header, hop] @ be_bytes 16 src @ be_bytes 16 dst @ payload"

lemma version_nibble: "(lo :: u8) < 16 \<Longrightarrow> drop_bit 4 (0x40 OR lo) = 4" "(lo :: u8) < 16 \<Longrightarrow> drop_bit 4 (0x60 OR lo) = 6"
proof -
  assume "lo < 16"
  then have "unat (drop_bit 4 lo) = 0" by (simp add: unat_drop_bit_div word_less_nat_alt)
  then have lo: "drop_bit 4 lo = 0" by (simp only: unsigned_eq_0_iff)
  show "drop_bit 4 (0x40 OR lo) = 4" "drop_bit 4 (0x60 OR lo) = 6"
    unfolding drop_bit_or lo by simp_all
qed

text \<open>
  Parsing an IPv4 packet returns its total length, source and destination fields, whatever the
  other fields, the options and the payload are.
\<close>

theorem parse_ipv4:
  assumes "ihl < 16" "length mid = 8"
  shows "parse_ip_packet (ipv4_packet ihl tos total_len mid src dst rest) =
    Some (total_len, IpV4 src, IpV4 dst)"
proof -
  let ?p = "ipv4_packet ihl tos total_len mid src dst rest"
  have "slice 2 4 ?p = be_bytes 2 total_len" "slice 12 16 ?p = be_bytes 4 src" "slice 16 20 ?p = be_bytes 4 dst"
    using assms(2) by (simp_all add: ipv4_packet_def slice_def)
  moreover have "\<not> length ?p < 20" "?p ! 0 = 0x40 OR ihl" using assms(2) by (simp_all add: ipv4_packet_def)
  ultimately show ?thesis
    using version_nibble(1) [OF assms(1)] by (simp add: parse_ip_packet_def be_word_bytes)
qed

theorem parse_ipv4_witness:
  "parse_ip_packet (ipv4_packet 5 0 20 [0, 0, 0, 0, 64, 17, 0, 0] 0x0A000001 0x0A000002 []) =
    Some (20, IpV4 0x0A000001, IpV4 0x0A000002)"
  by (rule parse_ipv4) simp_all

lemma parse_ipv6_packet:
  assumes "tc < 16" "length flow = 3" "unat payload_len \<le> length payload + 40"
  shows "parse_ip_packet (ipv6_packet tc flow payload_len next_header hop src dst payload) =
    Some (payload_len, IpV6 src, IpV6 dst)"
proof -
  let ?p = "ipv6_packet tc flow payload_len next_header hop src dst payload"
  have "slice 4 6 ?p = be_bytes 2 payload_len" "slice 8 24 ?p = be_bytes 16 src" "slice 24 40 ?p = be_bytes 16 dst"
    using assms(2) by (simp_all add: ipv6_packet_def slice_def)
  moreover have "length ?p = length payload + 40" "?p ! 0 = 0x60 OR tc" using assms(2) by (simp_all add: ipv6_packet_def)
  ultimately show ?thesis
    using version_nibble(2) [OF assms(1)] assms(3) by (simp add: parse_ip_packet_def be_word_bytes)
qed

text \<open>
  Parsing an IPv6 packet returns source, destination and the \<^emph>\<open>payload\<close> length field. For a packet
  whose length field is right this is 40 bytes less than the total length that the documentation
  of \<open>parse_ip_packet\<close> promises, and that its IPv4 branch returns.
\<close>

theorem parse_ipv6_not_total_length:
  assumes "tc < 16" "length flow = 3" "unat payload_len = length payload"
    and "packet = ipv6_packet tc flow payload_len next_header hop src dst payload"
  shows "parse_ip_packet packet = Some (payload_len, IpV6 src, IpV6 dst) \<and>
    unat payload_len + 40 = length packet"
proof -
  have "length packet = length payload + 40" using assms(2,4) by (simp add: ipv6_packet_def)
  then show ?thesis using parse_ipv6_packet [of tc flow payload_len payload] assms by simp
qed

theorem parse_ipv6_not_total_length_witness:
  "parse_ip_packet (ipv6_packet 0 [0, 0, 0] 4 17 64 1 2 [1, 2, 3, 4]) = Some (4, IpV6 1, IpV6 2) \<and>
    unat (4 :: u16) + 40 = length (ipv6_packet 0 [0, 0, 0] 4 17 64 1 2 [1, 2, 3, 4])"
  by (rule parse_ipv6_not_total_length [OF _ _ _ refl]) simp_all

section \<open>IPv4-mapped addresses\<close>

lemma segments_mapped_iff: "take 6 (segments w) = [0, 0, 0, 0, 0, 0xffff] \<longleftrightarrow> drop_bit 32 w = 0xffff"
proof
  assume seg: "take 6 (segments w) = [0, 0, 0, 0, 0, 0xffff]"
  have s: "ucast (drop_bit (16 * (7 - i)) w) = ([0, 0, 0, 0, 0, 0xffff] :: u16 list) ! i" if "i < 6" for i
    using arg_cong [OF seg, of "\<lambda>xs. xs ! i"] that by (simp add: segments_def)
  show "drop_bit 32 w = 0xffff"
  proof (rule bit_word_eqI)
    fix n assume n: "n < LENGTH(128)"
    show "bit (drop_bit 32 w) n = bit (0xffff :: u128) n"
    proof (cases "n < 96")
      case True
      define i j where "i = 5 - n div 16" and "j = n mod 16"
      have i: "i < 6" "n div 16 = 5 - i" "n div 16 < 6" using True by (auto simp: i_def)
      have "n = 16 * (n div 16) + j" by (simp add: j_def)
      then have nn: "32 + n = 16 * (7 - i) + j" using i by linarith
      have "bit (drop_bit 32 w) n = bit (ucast (drop_bit (16 * (7 - i)) w) :: u16) j"
        using n nn by (simp add: bit_simps j_def)
      also have "\<dots> = bit (([0, 0, 0, 0, 0, 0xffff] :: u16 list) ! i) j" using s [OF i(1)] by simp
      also have "\<dots> = bit (0xffff :: u128) n"
      proof (cases "i = 5")
        case True
        then have "n = j" "j < 16" using nn by (auto simp: j_def)
        moreover have "(0xffff :: u16) = mask 16" "(0xffff :: u128) = mask 16"
          by (simp_all add: mask_eq_exp_minus_1)
        ultimately show ?thesis using True by (simp add: bit_mask_iff del: take_bit_numeral_numeral)
      next
        case False
        then have "16 \<le> n" using nn i by linarith
        moreover have "\<not> bit (mask 16 :: u128) n" using calculation by (simp add: bit_mask_iff)
        then have "\<not> bit (0xffff :: u128) n" by (simp add: mask_eq_exp_minus_1)
        moreover have "i \<in> {0, 1, 2, 3, 4}" using False i by auto
        then have "([0, 0, 0, 0, 0, 0xffff] :: u16 list) ! i = 0" by auto
        ultimately show ?thesis by (simp only:) simp
      qed
      finally show ?thesis .
    next
      case False
      then have "\<not> bit w (32 + n)" by (intro notI) (use bit_imp_le_length [of w "32 + n"] in simp)
      moreover have "\<not> bit (mask 16 :: u128) n" using False by (simp add: bit_mask_iff)
      then have "\<not> bit (0xffff :: u128) n" by (simp add: mask_eq_exp_minus_1)
      ultimately show ?thesis by (simp add: bit_simps)
    qed
  qed
next
  assume d: "drop_bit 32 w = 0xffff"
  have "drop_bit (32 + k) w = drop_bit k 0xffff" for k using d by (metis add.commute drop_bit_drop_bit)
  from this [of 80] this [of 64] this [of 48] this [of 32] this [of 16] this [of 0]
  show "take 6 (segments w) = [0, 0, 0, 0, 0, 0xffff]"
    by (simp add: segments_def upt_rec)
qed

lemma to_ipv6_mapped_high: "drop_bit 32 (to_ipv6_mapped a) = 0xffff"
proof -
  have "drop_bit 32 (ucast a :: u128) = 0"
    by (rule bit_word_eqI) (auto simp: bit_simps dest: bit_imp_le_length)
  moreover have "drop_bit 32 (push_bit 32 0xffff :: u128) = 0xffff" by simp
  ultimately show ?thesis unfolding to_ipv6_mapped_def drop_bit_or by (simp only: or.right_neutral)
qed

lemma bit_to_ipv6_mapped: "n < 32 \<Longrightarrow> bit (to_ipv6_mapped a) n = bit a n"
  unfolding to_ipv6_mapped_def bit_or_iff bit_push_bit_iff by (simp add: bit_simps)

lemma to_ipv6_mapped_low: "(ucast (to_ipv6_mapped a) :: u32) = a"
  by (rule bit_word_eqI) (simp add: bit_to_ipv6_mapped bit_unsigned_iff)

lemma mapped_of_low: "drop_bit 32 w = 0xffff \<Longrightarrow> to_ipv6_mapped (ucast w) = w"
proof (rule bit_word_eqI)
  fix n assume d: "drop_bit 32 w = 0xffff" and n: "n < LENGTH(128)"
  show "bit (to_ipv6_mapped (ucast w)) n = bit w n"
  proof (cases "n < 32")
    case True
    then show ?thesis using n by (simp add: bit_to_ipv6_mapped bit_unsigned_iff)
  next
    case False
    then obtain k where k: "n = 32 + k" by (metis le_Suc_ex not_less)
    have "bit w n = bit (drop_bit 32 w) k" by (simp add: k bit_simps)
    moreover have "bit (to_ipv6_mapped (ucast w)) n = bit (drop_bit 32 (to_ipv6_mapped (ucast w))) k"
      by (simp add: k bit_simps)
    ultimately show ?thesis by (simp only: d to_ipv6_mapped_high)
  qed
qed

lemma unmap_total: "drop_bit 32 (sa6_ip a) = 0xffff \<Longrightarrow> to_ipv4 (sa6_ip a) = Some (ucast (sa6_ip a))"
  by (simp add: to_ipv4_def segments_mapped_iff)

text \<open>
  Mapping a socket address to IPv6 and back is the identity exactly when it is not itself an
  IPv4-mapped IPv6 address (of which the tests of the repository say it always is).
\<close>

theorem unmap_map_iff:
  "unmap_ipv4_from_ipv6 (map_ipv4_to_ipv6 addr) = addr \<longleftrightarrow>
    (case addr of SockV4 ip port \<Rightarrow> True | SockV6 a \<Rightarrow> drop_bit 32 (sa6_ip a) \<noteq> 0xffff)"
  by (cases addr)
    (auto simp: map_ipv4_to_ipv6_def unmap_ipv4_from_ipv6_def segments_mapped_iff to_ipv6_mapped_high
      unmap_total to_ipv6_mapped_low to_ipv4_def)

text \<open>
  Unmapping an address and mapping it again loses at most flow and scope of a mapped one: the
  address the packets go to is the same.
\<close>

theorem map_unmap:
  "map_ipv4_to_ipv6 (unmap_ipv4_from_ipv6 a) =
    (if drop_bit 32 (sa6_ip a) = 0xffff then a\<lparr>sa6_flowinfo := 0, sa6_scope_id := 0\<rparr> else a)"
  by (auto simp: map_ipv4_to_ipv6_def unmap_ipv4_from_ipv6_def segments_mapped_iff unmap_total mapped_of_low)

section \<open>Padding\<close>

lemma and_not_plus_and: "(w AND NOT m) + (w AND m) = w" for w m :: "'a::len word"
proof -
  have "(w AND NOT m) + (w AND m) = (w AND NOT m) OR (w AND m)"
    by (rule disjunctive_add_eq_or) (simp add: bit_eq_iff bit_simps)
  also have "\<dots> = w" by (rule bit_word_eqI) (auto simp: bit_simps)
  finally show ?thesis .
qed

lemma and_not_15: "unat (len AND NOT 15) = unat len div 16 * 16" for len :: u64
proof -
  have low: "unat (len AND 15) = unat len mod 16"
    using unat_and_mask [of len 4] by (simp add: mask_eq_exp_minus_1)
  have "len AND NOT 15 = len - (len AND 15)" using and_not_plus_and [of len 15] by (metis add_diff_cancel_right')
  moreover have "len AND 15 \<le> len" by (simp add: word_le_nat_alt low)
  ultimately have "unat (len AND NOT 15) = unat len - unat len mod 16" by (simp add: unat_sub low)
  then show ?thesis by (metis minus_mod_eq_div_mult)
qed

lemma ceil16: "(n::nat) div 16 * 16 + (if n mod 16 = 0 then 0 else 16) = (n + 15) div 16 * 16"
proof -
  obtain q r where n: "n = 16 * q + r" "r < 16"
    using that [of "n div 16" "n mod 16"] by simp
  have "(n + 15) div 16 = (if r = 0 then q else q + 1)"
    by (rule div_nat_eqI) (use n in \<open>simp_all split: if_splits\<close>)
  then show ?thesis using n by simp
qed

lemma pad_len_unat:
  assumes "unat len + 16 < 2 ^ 64"
  shows "unat (pad_len len mtu) =
    (if unat mtu \<le> unat len then unat len else min (unat mtu) ((unat len + 15) div 16 * 16))"
proof -
  have low: "unat (len AND 15) = unat len mod 16"
    using unat_and_mask [of len 4] by (simp add: mask_eq_exp_minus_1)
  then have zero: "len AND 15 = 0 \<longleftrightarrow> unat len mod 16 = 0" by (metis unsigned_eq_0_iff)
  let ?up = "(len AND NOT 15) + (if len AND 15 = 0 then 0 else 16)"
  have "unat (len AND NOT 15) + 16 < 2 ^ 64" using assms unfolding and_not_15 by linarith
  then have "unat ?up = unat len div 16 * 16 + (if unat len mod 16 = 0 then 0 else 16)"
    unfolding zero using unat_add_small [of "len AND NOT 15" 16] by (simp add: and_not_15 [simplified])
  also have "\<dots> = (unat len + 15) div 16 * 16" by (rule ceil16)
  finally have "unat ?up = (unat len + 15) div 16 * 16" .
  then show ?thesis
    by (simp add: pad_len_def Let_def word_le_nat_alt min_def)
qed

text \<open>
  Padding: a packet of the interface's MTU or more is left alone; a shorter one grows to the
  next multiple of 16, capped by the MTU, so by fewer than 16 bytes and never beyond the MTU.
\<close>

theorem pad_len_spec:
  assumes "unat len + 16 < 2 ^ 64"
  shows "unat len \<le> unat (pad_len len mtu) \<and> unat (pad_len len mtu) \<le> max (unat len) (unat mtu) \<and>
    unat (pad_len len mtu) < unat len + 16 \<and>
    (16 dvd unat (pad_len len mtu) \<or> pad_len len mtu = mtu \<or> mtu \<le> len) \<and>
    (mtu \<le> len \<longrightarrow> pad_len len mtu = len)"
proof -
  have "pad_len len mtu = mtu \<longleftrightarrow> unat (pad_len len mtu) = unat mtu" by (metis unsigned_word_eqI)
  moreover have "mtu \<le> len \<longrightarrow> pad_len len mtu = len" by (simp add: pad_len_def)
  ultimately show ?thesis
    using pad_len_unat [OF assms, of mtu] by (auto simp: word_le_nat_alt min_def max_def split: if_splits)
qed

theorem pad_len_spec_witness:
  "1281 \<le> unat (pad_len 1281 1283) \<and> unat (pad_len 1281 1283) \<le> 1283"
  using pad_len_spec [of 1281 1283] by simp

end
