(* ===== verification/Handshake.thy ===== *)
theory Handshake
  imports Cookie Ip_Packet
begin

text \<open>
  Handshake messages: \<open>src/src/wireguard/handshake.rs\<close>, with the configuration records of
  \<open>src/src/wireguard/types.rs\<close> and the keys of \<open>src/src/crypto/noise_crypto_impls.rs\<close>. The Noise
  state machine (crate \<open>noise_protocol\<close>, pattern IKpsk2), the scalar multiplication of libsodium and
  the encoding of TAI64N timestamps are not in the repository: they are the record
  \<open>hs_externals\<close>, a parameter, and \<open>noise_ok\<close> is their documented behaviour: two honest ends that
  hold the same pre-shared key complete the pattern. A write draws an ephemeral key, which is an
  argument. The main lemma is that two ends that run this code agree on a pair of matching sessions.
\<close>

section \<open>Keys and configuration\<close>

record x25519_key =
  xk_key :: bytes
  xk_public_key :: bytes

record wg_info =
  wi_key :: x25519_key
  wi_fwmark :: u32
  wi_port :: u16

record peer_info =
  pi_public_key :: bytes
  pi_psk :: "bytes option"
  pi_endpoint :: "socket_addr_v6 option"
  pi_allowed_ips :: "(ip_addr \<times> nat) set"
  pi_keepalive :: "u16 option"
  pi_roaming :: bool

type_synonym tai64n = "u64 \<times> u32"

text \<open>
  The Noise operations: the builder (role, prologue, static key, remote static key), \<open>push_psk\<close>,
  \<open>write_message\<close> (ephemeral key, payload, length of the output) and \<open>read_message\<close> (message, length
  of the payload). A failed call leaves a state the code never uses again.
\<close>

record 'h noise =
  ns_build :: "bool \<Rightarrow> bytes \<Rightarrow> bytes \<Rightarrow> bytes option \<Rightarrow> 'h"
  ns_push_psk :: "'h \<Rightarrow> bytes \<Rightarrow> 'h"
  ns_write :: "'h \<Rightarrow> bytes \<Rightarrow> bytes \<Rightarrow> nat \<Rightarrow> (unit, bytes \<times> 'h) rust_result"
  ns_read :: "'h \<Rightarrow> bytes \<Rightarrow> nat \<Rightarrow> (unit, bytes \<times> 'h) rust_result"
  ns_get_rs :: "'h \<Rightarrow> bytes option"
  ns_get_ciphers :: "'h \<Rightarrow> (bytes \<times> bytes) option"
  ns_is_initiator :: "'h \<Rightarrow> bool"

record 'h hs_externals = externals +
  x_noise :: "'h noise"
  x_scalarmult_base :: "bytes \<Rightarrow> bytes"
  x_tai_to_bytes :: "tai64n \<Rightarrow> bytes"
  x_tai_from_bytes :: "bytes \<Rightarrow> tai64n option"

text \<open>\<open>X25519Key::from_slice\<close>; \<open>None\<close> is the failed \<open>unwrap\<close>.\<close>

definition key_from_slice :: "('h, 'a) hs_externals_scheme \<Rightarrow> bytes \<Rightarrow> x25519_key option" where
  "key_from_slice x s =
     (if length s = 32 then Some \<lparr>xk_key = s, xk_public_key = x_scalarmult_base x s\<rparr> else None)"

definition wg_pubkey :: "wg_info \<Rightarrow> bytes" where
  "wg_pubkey wg = xk_public_key (wi_key wg)"

section \<open>The code\<close>

definition PROLOGUE :: bytes where "PROLOGUE = ascii ''WireGuard v1 zx2c4 Jason@zx2c4.com''"
definition LABEL_MAC1 :: bytes where "LABEL_MAC1 = ascii ''mac1----''"
definition HANDSHAKE_INIT_LEN :: nat where "HANDSHAKE_INIT_LEN = 148"
definition HANDSHAKE_RESP_LEN :: nat where "HANDSHAKE_RESP_LEN = 92"
definition TIMESTAMP_PRECISION :: u32 where "TIMESTAMP_PRECISION = 50000"

definition mac :: "'a externals_scheme \<Rightarrow> bytes \<Rightarrow> bytes list \<Rightarrow> bytes" where
  "mac x key data = x_blake2s x 16 key (concat data)"

definition hash :: "'a externals_scheme \<Rightarrow> bytes \<Rightarrow> bytes \<Rightarrow> bytes" where
  "hash x x1 x2 = x_blake2s x 32 [] (x1 @ x2)"

text \<open>Sequencing of calls that return an error with \<open>?\<close> or panic.\<close>

definition and_then :: "('e, 'a) rust_result \<Rightarrow> ('a \<Rightarrow> ('e, 'b) rust_result) \<Rightarrow> ('e, 'b) rust_result" where
  "and_then r f = (case r of ROk a \<Rightarrow> f a | RErr e \<Rightarrow> RErr e | RPanic \<Rightarrow> RPanic)"

lemma and_then_simps [simp]:
  "and_then (ROk a) f = f a" "and_then (RErr e) f = RErr e" "and_then RPanic f = RPanic"
  by (simp_all add: and_then_def)

lemma and_then_ROk_iff: "and_then r f = ROk b \<longleftrightarrow> (\<exists>a. r = ROk a \<and> f a = ROk b)"
  by (cases r) simp_all

definition truncate_timestamp :: "tai64n \<Rightarrow> tai64n" where
  "truncate_timestamp t = (fst t, snd t div TIMESTAMP_PRECISION * TIMESTAMP_PRECISION)"

definition psk_or_zero :: "bytes option \<Rightarrow> bytes" where
  "psk_or_zero psk = (case psk of Some k \<Rightarrow> k | None \<Rightarrow> replicate 32 0)"

definition initiate :: "('h, 'a) hs_externals_scheme \<Rightarrow> wg_info \<Rightarrow> peer_info \<Rightarrow> wg_id \<Rightarrow> bytes \<Rightarrow> tai64n \<Rightarrow>
    (unit, bytes \<times> 'h) rust_result" where
  "initiate x wg peer self_index ephemeral now =
     (let hs = ns_build (x_noise x) True PROLOGUE (xk_key (wi_key wg)) (Some (pi_public_key peer));
          hs = ns_push_psk (x_noise x) hs (psk_or_zero (pi_psk peer));
          timestamp = truncate_timestamp now
      in and_then (ns_write (x_noise x) hs ephemeral (x_tai_to_bytes x timestamp) 108) (\<lambda>(m, hs).
           let msg = [1, 0, 0, 0] @ self_index @ m;
               mac1_key = hash x LABEL_MAC1 (pi_public_key peer);
               mac1 = mac x mac1_key [msg]
           in ROk (msg @ mac1 @ replicate 16 0, hs)))"

record 'h init_process_result =
  ir_peer_id :: wg_id
  ir_timestamp :: tai64n
  ir_handshake_state :: 'h

definition process_initiation :: "('h, 'a) hs_externals_scheme \<Rightarrow> wg_info \<Rightarrow> bytes \<Rightarrow>
    (unit, 'h init_process_result) rust_result" where
  "process_initiation x wg msg =
     (if length msg \<noteq> HANDSHAKE_INIT_LEN then RPanic
      else if slice 0 4 msg \<noteq> [1, 0, 0, 0] then RErr ()
      else case id_from_slice (slice 4 8 msg) of None \<Rightarrow> RPanic | Some peer_index \<Rightarrow>
        let hs = ns_build (x_noise x) False PROLOGUE (xk_key (wi_key wg)) None
        in and_then (ns_read (x_noise x) hs (slice 8 116 msg) 12) (\<lambda>(timestamp, hs).
             case x_tai_from_bytes x timestamp of
               None \<Rightarrow> RErr ()
             | Some timestamp \<Rightarrow>
                 ROk \<lparr>ir_peer_id = peer_index, ir_timestamp = timestamp, ir_handshake_state = hs\<rparr>))"

definition responde :: "('h, 'a) hs_externals_scheme \<Rightarrow> 'h init_process_result \<Rightarrow> wg_id \<Rightarrow> bytes \<Rightarrow>
    (unit, bytes \<times> 'h init_process_result) rust_result" where
  "responde x result self_id ephemeral =
     and_then (ns_write (x_noise x) (ir_handshake_state result) ephemeral [] 48) (\<lambda>(m, hs).
       let response = [2, 0, 0, 0] @ self_id @ ir_peer_id result @ m
       in case ns_get_rs (x_noise x) hs of
            None \<Rightarrow> RPanic
          | Some rs \<Rightarrow>
              let key = hash x LABEL_MAC1 rs;
                  mac1 = mac x key [response]
              in ROk (response @ mac1 @ replicate 16 0, result\<lparr>ir_handshake_state := hs\<rparr>))"

definition process_response :: "('h, 'a) hs_externals_scheme \<Rightarrow> 'h \<Rightarrow> bytes \<Rightarrow> (unit, wg_id \<times> 'h) rust_result" where
  "process_response x hs msg =
     (if length msg \<noteq> HANDSHAKE_RESP_LEN then RPanic
      else if slice 0 4 msg \<noteq> [2, 0, 0, 0] then RErr ()
      else case id_from_slice (slice 4 8 msg) of None \<Rightarrow> RPanic | Some peer_index \<Rightarrow>
        and_then (ns_read (x_noise x) hs (slice 12 60 msg) 0) (\<lambda>(out, hs). ROk (peer_index, hs)))"

text \<open>\<open>None\<close> is the panic on a message shorter than 32 bytes.\<close>

definition verify_mac1 :: "('h, 'a) hs_externals_scheme \<Rightarrow> wg_info \<Rightarrow> bytes \<Rightarrow> bool option" where
  "verify_mac1 x wg msg =
     (if length msg < 32 then None
      else
        let mac1_pos = length msg - 32;
            m = take mac1_pos msg; macs = drop mac1_pos msg;
            mac1 = take 16 macs;
            key = hash x LABEL_MAC1 (wg_pubkey wg);
            expected_mac1 = mac x key [m]
        in Some (ct_eq_16 (x_target x) expected_mac1 mac1))"

section \<open>The documented behaviour of the externals\<close>

text \<open>
  Completeness of IKpsk2 for keys of 32 bytes: each message has its length and its payload comes
  out at the other end, the responder learns the initiator's public key, and both ends hold the same
  pair of keys in their roles. Reading a first message gives a payload of the requested length and
  a remote key; writing the response then ends the handshake.
\<close>

definition noise_complete :: "('h, 'a) hs_externals_scheme \<Rightarrow> bool" where
  "noise_complete x \<longleftrightarrow> (\<forall>si sr ei er psk p. list_all (\<lambda>k. length k = 32) [si, sr, ei, er, psk] \<longrightarrow> length p = 12 \<longrightarrow>
     (let n = x_noise x;
          hi = ns_push_psk n (ns_build n True PROLOGUE si (Some (x_scalarmult_base x sr))) psk;
          hr = ns_build n False PROLOGUE sr None
      in \<exists>m1 hi1 hr1 m2 hr2 hi2 ks.
           ns_write n hi ei p 108 = ROk (m1, hi1) \<and> length m1 = 108 \<and>
           ns_read n hr m1 12 = ROk (p, hr1) \<and> ns_get_rs n hr1 = Some (x_scalarmult_base x si) \<and>
           ns_write n (ns_push_psk n hr1 psk) er [] 48 = ROk (m2, hr2) \<and> length m2 = 48 \<and>
           ns_get_rs n hr2 = Some (x_scalarmult_base x si) \<and>
           ns_read n hi1 m2 0 = ROk ([], hi2) \<and>
           ns_get_ciphers n hi2 = Some ks \<and> ns_get_ciphers n hr2 = Some ks \<and>
           ns_is_initiator n hi2 \<and> \<not> ns_is_initiator n hr2))"

text \<open>
  No operation panics where the code calls it, and the lengths are as asked: what a handler needs
  even of messages that are not honest. A handshake keeps the role it was built with.
\<close>

definition noise_total :: "('h, 'a) hs_externals_scheme \<Rightarrow> bool" where
  "noise_total x \<longleftrightarrow> (let n = x_noise x in
     (\<forall>s rs psk e p. length p = 12 \<longrightarrow>
        (case ns_write n (ns_push_psk n (ns_build n True PROLOGUE s (Some rs)) psk) e p 108 of
           RPanic \<Rightarrow> False
         | RErr _ \<Rightarrow> True
         | ROk (m1, hi1) \<Rightarrow> length m1 = 108 \<and>
             (\<forall>m2. case ns_read n hi1 m2 0 of
                RPanic \<Rightarrow> length m2 \<noteq> 48
              | RErr _ \<Rightarrow> True
              | ROk (_, hi2) \<Rightarrow> ns_get_ciphers n hi2 \<noteq> None \<and> ns_is_initiator n hi2))) \<and>
     (\<forall>s m. length m = 108 \<longrightarrow>
        (case ns_read n (ns_build n False PROLOGUE s None) m 12 of
           RPanic \<Rightarrow> False
         | RErr _ \<Rightarrow> True
         | ROk (p, hr) \<Rightarrow> length p = 12 \<and> (\<exists>rs. ns_get_rs n hr = Some rs \<and>
             (\<forall>psk e. case ns_write n (ns_push_psk n hr psk) e [] 48 of
                RPanic \<Rightarrow> False
              | RErr _ \<Rightarrow> True
              | ROk (m2, hr2) \<Rightarrow> length m2 = 48 \<and> ns_get_rs n hr2 = Some rs \<and> ns_get_ciphers n hr2 \<noteq> None)))))"

definition tai_ok :: "('h, 'a) hs_externals_scheme \<Rightarrow> bool" where
  "tai_ok x \<longleftrightarrow> (\<forall>t. length (x_tai_to_bytes x t) = 12 \<and>
     (snd t < 1000000000 \<longrightarrow> x_tai_from_bytes x (x_tai_to_bytes x t) = Some t))"

definition hs_externals_ok :: "('h, 'a) hs_externals_scheme \<Rightarrow> bool" where
  "hs_externals_ok x \<longleftrightarrow> externals_ok x \<and> noise_complete x \<and> noise_total x \<and> tai_ok x"

section \<open>Externals that have it\<close>

text \<open>A mock of the pattern: the messages carry the static key and the payload in the clear.\<close>

datatype mock = Mock (mock_initiator: bool) (mock_s: bytes) (mock_rs: "bytes option") (mock_step: nat)

definition mock_noise :: "mock noise" where
  "mock_noise =
     \<lparr>ns_build = (\<lambda>i prologue s rs. Mock i s rs 0),
      ns_push_psk = (\<lambda>h psk. h),
      ns_write = (\<lambda>h e p out_len. case h of Mock i s rs n \<Rightarrow>
        if n = 0 then (if length s = 32 then ROk (s @ p @ replicate (76 - length p) 0, Mock i s rs 1) else RErr ())
        else ROk (replicate 48 0, Mock i s rs 2)),
      ns_read = (\<lambda>h m out_len. case h of Mock i s rs n \<Rightarrow>
        if n = 0 then ROk (take out_len (drop 32 m), Mock i s (Some (take 32 m)) 1) else ROk ([], Mock i s rs 2)),
      ns_get_rs = mock_rs,
      ns_get_ciphers = (\<lambda>h. if mock_step h = 2 then Some (replicate 32 1, replicate 32 2) else None),
      ns_is_initiator = mock_initiator\<rparr>"

definition mock_externals :: "mock hs_externals" where
  "mock_externals =
     \<lparr>x_target = Portable, x_aead = plain_aead, x_blake2s = (\<lambda>len key input. take len (key @ input @ replicate len 0)),
      x_noise = mock_noise, x_scalarmult_base = (\<lambda>k. k),
      x_tai_to_bytes = (\<lambda>t. be_bytes 8 (fst t) @ be_bytes 4 (snd t)),
      x_tai_from_bytes = (\<lambda>b. if length b = 12 \<and> (be_word (drop 8 b) :: u32) < 1000000000
        then Some (be_word (take 8 b), be_word (drop 8 b)) else None)\<rparr>"

lemma mock_externals_ok: "hs_externals_ok mock_externals"
proof -
  have "externals_ok mock_externals"
    by (auto simp: externals_ok_def mock_externals_def plain_aead_ok)
  moreover have "noise_complete mock_externals"
    by (simp add: noise_complete_def mock_externals_def mock_noise_def Let_def)
  moreover have "noise_total mock_externals"
    by (simp add: noise_total_def mock_externals_def mock_noise_def Let_def)
  moreover have "tai_ok mock_externals"
    by (simp add: tai_ok_def mock_externals_def be_word_bytes)
  ultimately show ?thesis by (simp add: hs_externals_ok_def)
qed

section \<open>Framing\<close>

lemma slice_chunks:
  assumes "length a = 4" "length b = 4" "length m = k"
  shows "slice 0 4 (a @ b @ m @ t) = a" "slice 4 8 (a @ b @ m @ t) = b" "slice 8 (8 + k) (a @ b @ m @ t) = m"
  using assms by (simp_all add: slice_def)

lemma externals_ok_of: "hs_externals_ok x \<Longrightarrow> externals_ok x"
  by (simp add: hs_externals_ok_def)

lemma length_mac [simp]: "hs_externals_ok x \<Longrightarrow> length (mac x k d) = 16"
  by (simp add: mac_def externals_okD(3) [OF externals_ok_of])

text \<open>A message followed by its own \<open>mac1\<close> and 16 more bytes passes the check, and nothing else.\<close>

lemma verify_mac1_append:
  assumes "hs_externals_ok x" "length m2 = 16" "length m1 = 16"
  shows "verify_mac1 x wg (m @ m1 @ m2) = Some (m1 = mac x (hash x LABEL_MAC1 (wg_pubkey wg)) [m])"
  using assms by (auto simp: verify_mac1_def Let_def)

lemma tai_length: "hs_externals_ok x \<Longrightarrow> length (x_tai_to_bytes x t) = 12"
  unfolding hs_externals_ok_def tai_ok_def by blast

lemma truncate_timestamp_le: "snd (truncate_timestamp now) \<le> snd now"
proof -
  have "unat (snd now) div 50000 * 50000 \<le> unat (snd now)" by simp
  moreover from this have "unat (snd now) div 50000 * 50000 < 2 ^ 32"
    using unsigned_less [of "snd now", where 'a = nat] by simp
  ultimately show ?thesis
    by (simp add: truncate_timestamp_def TIMESTAMP_PRECISION_def word_le_nat_alt unat_word_ariths unat_div)
qed

lemma initiate_framing:
  assumes "hs_externals_ok x" "length idx = 4" "initiate x wg peer idx e now = ROk (msg, hs)"
  obtains m where "msg = [1, 0, 0, 0] @ idx @ m @
      mac x (hash x LABEL_MAC1 (pi_public_key peer)) [[1, 0, 0, 0] @ idx @ m] @ replicate 16 0" "length m = 108"
proof -
  let ?n = "x_noise x"
  let ?h = "ns_push_psk ?n (ns_build ?n True PROLOGUE (xk_key (wi_key wg)) (Some (pi_public_key peer))) (psk_or_zero (pi_psk peer))"
  let ?w = "ns_write ?n ?h e (x_tai_to_bytes x (truncate_timestamp now)) 108"
  obtain m where w: "?w = ROk (m, hs)" and msg: "msg = [1, 0, 0, 0] @ idx @ m @
      mac x (hash x LABEL_MAC1 (pi_public_key peer)) [[1, 0, 0, 0] @ idx @ m] @ replicate 16 0"
    using assms(3) by (auto simp: initiate_def Let_def and_then_ROk_iff)
  have "noise_total x" "length (x_tai_to_bytes x (truncate_timestamp now)) = 12"
    using assms(1) tai_length by (simp_all add: hs_externals_ok_def)
  then have "case ?w of RPanic \<Rightarrow> False | RErr _ \<Rightarrow> True | ROk (m1, hi1) \<Rightarrow> length m1 = 108 \<and>
      (\<forall>m2. case ns_read ?n hi1 m2 0 of RPanic \<Rightarrow> length m2 \<noteq> 48 | RErr _ \<Rightarrow> True
         | ROk (_, hi2) \<Rightarrow> ns_get_ciphers ?n hi2 \<noteq> None \<and> ns_is_initiator ?n hi2)"
    unfolding noise_total_def Let_def by blast
  then have "length m = 108" by (simp add: w)
  then show thesis using that msg by blast
qed

section \<open>Agreement\<close>

lemma tp_encrypt_below:
  assumes "tp_send_counter t < REJECT_AFTER_MESSAGES" "length (tp_peer_id t) = 4"
  shows "\<exists>out h t'. tp_encrypt ae t p (length p + 32) = Some ((Some out, h), t') \<and> slice 4 8 out = tp_peer_id t"
proof -
  have "\<not> REJECT_AFTER_MESSAGES \<le> tp_send_counter t" using assms(1) by simp
  then show ?thesis using assms(2) by (simp add: tp_encrypt_eq slice_def)
qed

lemma ar_check_zero: "ar_check ar_new 0"
  by (simp add: ar_check_def ar_new_def BITMAP_LEN_val)

lemma handshake_run:
  assumes ok: "hs_externals_ok x"
    and ki: "key_from_slice x si = Some ki" and kr: "key_from_slice x sr = Some kr"
    and wi: "wi_key wi = ki" and wr: "wi_key wr = kr"
    and pr: "pi_public_key pr = xk_public_key kr" and psk: "length (psk_or_zero (pi_psk pr)) = 32"
    and len: "length ei = 32" "length er = 32" "length idi = 4" "length idr = 4"
    and now: "snd now < 1000000000"
  obtains m0 hs result m1 result' hs' ks where
    "initiate x wi pr idi ei now = ROk (m0, hs)" "length m0 = HANDSHAKE_INIT_LEN"
    "verify_mac1 x wr m0 = Some True"
    "process_initiation x wr m0 = ROk result" "ir_peer_id result = idi" "ir_timestamp result = truncate_timestamp now"
    "ns_get_rs (x_noise x) (ir_handshake_state result) = Some (wg_pubkey wi)"
    "responde x (result\<lparr>ir_handshake_state := ns_push_psk (x_noise x) (ir_handshake_state result)
       (psk_or_zero (pi_psk pr))\<rparr>) idr er = ROk (m1, result')" "length m1 = HANDSHAKE_RESP_LEN"
    "verify_mac1 x wi m1 = Some True" "slice 8 12 m1 = idi"
    "process_response x hs m1 = ROk (idr, hs')"
    "ns_get_ciphers (x_noise x) hs' = Some ks" "ns_get_ciphers (x_noise x) (ir_handshake_state result') = Some ks"
    "ns_is_initiator (x_noise x) hs'" "\<not> ns_is_initiator (x_noise x) (ir_handshake_state result')"
    "ir_peer_id result' = idi"
proof -
  let ?n = "x_noise x"
  let ?t = "x_tai_to_bytes x (truncate_timestamp now)"
  let ?psk = "psk_or_zero (pi_psk pr)"
  have si: "length si = 32" "xk_key ki = si" "xk_public_key ki = x_scalarmult_base x si"
    using ki by (auto simp: key_from_slice_def split: if_splits)
  have sr: "length sr = 32" "xk_key kr = sr" "xk_public_key kr = x_scalarmult_base x sr"
    using kr by (auto simp: key_from_slice_def split: if_splits)
  have "snd (truncate_timestamp now) < 1000000000" using truncate_timestamp_le [of now] now by simp
  then have tai: "length ?t = 12" "x_tai_from_bytes x ?t = Some (truncate_timestamp now)"
    using ok unfolding hs_externals_ok_def tai_ok_def by blast+
  have "noise_complete x" using ok by (simp add: hs_externals_ok_def)
  moreover have "list_all (\<lambda>k. length k = 32) [si, sr, ei, er, ?psk]" using si sr len psk by simp
  ultimately obtain m1 hi1 hr1 m2 hr2 hi2 ks where
    noise: "ns_write ?n (ns_push_psk ?n (ns_build ?n True PROLOGUE si (Some (xk_public_key kr))) ?psk) ei ?t 108 = ROk (m1, hi1)"
      "length m1 = 108" "ns_read ?n (ns_build ?n False PROLOGUE sr None) m1 12 = ROk (?t, hr1)"
      "ns_get_rs ?n hr1 = Some (xk_public_key ki)"
      "ns_write ?n (ns_push_psk ?n hr1 ?psk) er [] 48 = ROk (m2, hr2)" "length m2 = 48"
      "ns_get_rs ?n hr2 = Some (xk_public_key ki)" "ns_read ?n hi1 m2 0 = ROk ([], hi2)"
      "ns_get_ciphers ?n hi2 = Some ks" "ns_get_ciphers ?n hr2 = Some ks"
      "ns_is_initiator ?n hi2" "\<not> ns_is_initiator ?n hr2"
    unfolding noise_complete_def Let_def si(3) sr(3) using tai(1) by blast
  let ?m0 = "[1, 0, 0, 0] @ idi @ m1"
  let ?mac0 = "mac x (hash x LABEL_MAC1 (xk_public_key kr)) [?m0]"
  let ?r1 = "[2, 0, 0, 0] @ idr @ idi @ m2"
  let ?mac1 = "mac x (hash x LABEL_MAC1 (xk_public_key ki)) [?r1]"
  let ?result = "\<lparr>ir_peer_id = idi, ir_timestamp = truncate_timestamp now, ir_handshake_state = hr1\<rparr>"
  have lens: "length ?mac0 = 16" "length ?mac1 = 16" using ok by simp_all
  have pub: "wg_pubkey wi = xk_public_key ki" "wg_pubkey wr = xk_public_key kr" by (simp_all add: wg_pubkey_def wi wr)
  show thesis
  proof (rule that)
    show "initiate x wi pr idi ei now = ROk (?m0 @ ?mac0 @ replicate 16 0, hi1)"
      by (simp add: initiate_def wi pr si noise Let_def)
    show "length (?m0 @ ?mac0 @ replicate 16 0) = HANDSHAKE_INIT_LEN"
      using len noise(2) lens by (simp add: HANDSHAKE_INIT_LEN_def)
    show "verify_mac1 x wr (?m0 @ ?mac0 @ replicate 16 0) = Some True"
      using verify_mac1_append [OF ok, of "replicate 16 0" ?mac0 wr ?m0] lens pub by simp
    show "process_initiation x wr (?m0 @ ?mac0 @ replicate 16 0) = ROk ?result"
      using len noise lens tai
      by (simp add: process_initiation_def HANDSHAKE_INIT_LEN_def slice_def id_from_slice_def wr sr)
    show "responde x (?result\<lparr>ir_handshake_state := ns_push_psk ?n (ir_handshake_state ?result) ?psk\<rparr>) idr er =
        ROk (?r1 @ ?mac1 @ replicate 16 0, ?result\<lparr>ir_handshake_state := hr2\<rparr>)"
      by (simp add: responde_def noise Let_def)
    show "length (?r1 @ ?mac1 @ replicate 16 0) = HANDSHAKE_RESP_LEN"
      using len noise lens by (simp add: HANDSHAKE_RESP_LEN_def)
    show "verify_mac1 x wi (?r1 @ ?mac1 @ replicate 16 0) = Some True"
      using verify_mac1_append [OF ok, of "replicate 16 0" ?mac1 wi ?r1] lens pub by simp
    show "process_response x hi1 (?r1 @ ?mac1 @ replicate 16 0) = ROk (idr, hi2)"
      using len noise lens by (simp add: process_response_def HANDSHAKE_RESP_LEN_def slice_def id_from_slice_def)
  qed (use noise len pub in \<open>simp_all add: slice_def\<close>)
qed

text \<open>
  C20: Agreement of two honest ends. Under the documented behaviour of the externals, an initiator
  and a responder that know each other's public keys and hold the same pre-shared key complete the
  handshake: both messages pass the \<open>mac1\<close> check of their receiver, the responder learns the
  initiator's key, index and truncated timestamp, and the sessions made at the end match, so that a
  packet the initiator sends first is delivered unchanged and confirms the session to the responder.
\<close>

theorem handshake_agreement:
  assumes "hs_externals_ok x"
    and "key_from_slice x si = Some (wi_key wi)" "key_from_slice x sr = Some (wi_key wr)"
    and "pi_public_key pr = wg_pubkey wr" "length (psk_or_zero (pi_psk pr)) = 32"
    and "length ei = 32" "length er = 32" "length idi = 4" "length idr = 4" "snd now < 1000000000"
  shows "\<exists>m0 hs result m1 result' hs' ks.
    initiate x wi pr idi ei now = ROk (m0, hs) \<and> verify_mac1 x wr m0 = Some True \<and>
    process_initiation x wr m0 = ROk result \<and>
    ns_get_rs (x_noise x) (ir_handshake_state result) = Some (wg_pubkey wi) \<and>
    ir_peer_id result = idi \<and> ir_timestamp result = truncate_timestamp now \<and>
    responde x (result\<lparr>ir_handshake_state := ns_push_psk (x_noise x) (ir_handshake_state result)
      (psk_or_zero (pi_psk pr))\<rparr>) idr er = ROk (m1, result') \<and>
    verify_mac1 x wi m1 = Some True \<and> process_response x hs m1 = ROk (idr, hs') \<and>
    ns_get_ciphers (x_noise x) hs' = Some ks \<and> ns_get_ciphers (x_noise x) (ir_handshake_state result') = Some ks \<and>
    (let ti = tp_new_from_hs idi idr (ns_is_initiator (x_noise x) hs') ks t1;
         tr = tp_new_from_hs idr (ir_peer_id result') (ns_is_initiator (x_noise x) (ir_handshake_state result')) ks t2
     in tp_get_should_send ti \<and> \<not> tp_get_should_send tr \<and>
        (\<exists>out h ti' h' tr'. tp_encrypt (x_aead x) ti p (length p + 32) = Some ((Some out, h), ti') \<and>
           slice 4 8 out = idr \<and> tp_decrypt (x_aead x) tr out (length p) = Some (Some (h', p), tr') \<and>
           tp_get_should_send tr'))"
proof -
  obtain m0 hs result m1 result' hs' ks where run:
    "initiate x wi pr idi ei now = ROk (m0, hs)" "length m0 = HANDSHAKE_INIT_LEN"
    "verify_mac1 x wr m0 = Some True"
    "process_initiation x wr m0 = ROk result" "ir_peer_id result = idi" "ir_timestamp result = truncate_timestamp now"
    "ns_get_rs (x_noise x) (ir_handshake_state result) = Some (wg_pubkey wi)"
    "responde x (result\<lparr>ir_handshake_state := ns_push_psk (x_noise x) (ir_handshake_state result)
       (psk_or_zero (pi_psk pr))\<rparr>) idr er = ROk (m1, result')" "length m1 = HANDSHAKE_RESP_LEN"
    "verify_mac1 x wi m1 = Some True" "slice 8 12 m1 = idi"
    "process_response x hs m1 = ROk (idr, hs')"
    "ns_get_ciphers (x_noise x) hs' = Some ks" "ns_get_ciphers (x_noise x) (ir_handshake_state result') = Some ks"
    "ns_is_initiator (x_noise x) hs'" "\<not> ns_is_initiator (x_noise x) (ir_handshake_state result')"
    "ir_peer_id result' = idi"
    using handshake_run [OF assms(1-3) refl refl assms(4) [unfolded wg_pubkey_def] assms(5-10)] by blast
  let ?ti = "tp_new_from_hs idi idr True ks t1"
  let ?tr = "tp_new_from_hs idr idi False ks t2"
  have aead: "aead_ok (x_aead x)" using assms(1) by (simp add: hs_externals_ok_def externals_ok_def)
  have "tp_send_counter ?ti < REJECT_AFTER_MESSAGES"
    by (simp add: REJECT_AFTER_MESSAGES_def)
  then obtain out h ti' where out: "tp_encrypt (x_aead x) ?ti p (length p + 32) = Some ((Some out, h), ti')"
    "slice 4 8 out = tp_peer_id ?ti"
    using tp_encrypt_below [of ?ti "x_aead x" p] assms(9) by auto
  have "\<exists>h' tr'. tp_decrypt (x_aead x) ?tr out (length p) = Some (Some (h', p), tr') \<and> tp_get_should_send tr' \<and>
      tp_decrypt (x_aead x) tr' out (length p) = Some (None, tr')"
    using tp_deliver [OF aead _ _ out(1), of ?tr "{}"] assms(9)
    by (simp add: ar_new_represents ar_check_zero)
  then obtain h' tr' where "tp_decrypt (x_aead x) ?tr out (length p) = Some (Some (h', p), tr')" "tp_get_should_send tr'"
    by blast
  moreover have "tp_get_should_send ?ti" "\<not> tp_get_should_send ?tr" "tp_peer_id ?ti = idr"
    by (simp_all add: tp_get_should_send_def)
  ultimately have session: "tp_get_should_send ?ti \<and> \<not> tp_get_should_send ?tr \<and>
      (\<exists>out h ti' h' tr'. tp_encrypt (x_aead x) ?ti p (length p + 32) = Some ((Some out, h), ti') \<and>
         slice 4 8 out = idr \<and> tp_decrypt (x_aead x) ?tr out (length p) = Some (Some (h', p), tr') \<and>
         tp_get_should_send tr')"
    using out by auto
  show ?thesis
    by (rule exI [of _ m0], rule exI [of _ hs], rule exI [of _ result], rule exI [of _ m1], rule exI [of _ result'],
        rule exI [of _ hs'], rule exI [of _ ks]) (simp only: run session Let_def simp_thms)
qed

text \<open>Two ends for the witness.\<close>

definition example_wg :: "u8 \<Rightarrow> wg_info" where
  "example_wg k = \<lparr>wi_key = \<lparr>xk_key = replicate 32 k, xk_public_key = replicate 32 k\<rparr>, wi_fwmark = 0, wi_port = 51820\<rparr>"

definition example_peer :: "u8 \<Rightarrow> peer_info" where
  "example_peer k = \<lparr>pi_public_key = replicate 32 k, pi_psk = None, pi_endpoint = None, pi_allowed_ips = {},
     pi_keepalive = None, pi_roaming = True\<rparr>"

theorem handshake_agreement_witness:
  "\<exists>m0 hs result m1 result' hs' ks.
    initiate mock_externals (example_wg 1) (example_peer 2) [1, 2, 3, 4] (replicate 32 3) (5, 70000) = ROk (m0, hs) \<and>
    process_initiation mock_externals (example_wg 2) m0 = ROk result \<and> ir_timestamp result = truncate_timestamp (5, 70000) \<and>
    responde mock_externals (result\<lparr>ir_handshake_state := ns_push_psk (x_noise mock_externals) (ir_handshake_state result)
      (replicate 32 0)\<rparr>) [5, 6, 7, 8] (replicate 32 4) = ROk (m1, result') \<and>
    process_response mock_externals hs m1 = ROk ([5, 6, 7, 8], hs') \<and>
    ns_get_ciphers mock_noise hs' = Some ks \<and> ns_get_ciphers mock_noise (ir_handshake_state result') = Some ks"
  using handshake_agreement [OF mock_externals_ok, of "replicate 32 1" "example_wg 1" "replicate 32 2" "example_wg 2"
      "example_peer 2" "replicate 32 3" "replicate 32 4" "[1, 2, 3, 4]" "[5, 6, 7, 8]" "(5, 70000)" 0 0 "[9]"]
  by (simp add: key_from_slice_def mock_externals_def example_wg_def example_peer_def wg_pubkey_def psk_or_zero_def)
    blast

end
