(* ===== verification/Text_Format.thy ===== *)
theory Text_Format
  imports Handshake "HOL-Library.Sublist"
begin

text \<open>
  The text conversions of the Rust standard library that the IPC protocol and the configuration use:
  \<open>splitn\<close> and \<open>starts_with\<close>, \<open>Display\<close> and \<open>FromStr\<close> of the integers and of \<open>bool\<close>. A string is the
  list of its bytes as characters. Two groups of conversions are the record \<open>text_ext\<close>, an argument of
  the definitions that use them: the hexadecimal text of the crate \<open>hex\<close> with the base 64 of the crate
  \<open>base64\<close>, and the text forms of IP and socket addresses. \<open>text_ok\<close> is their documented behaviour:
  parsing reads back what formatting wrote, and an address is written without the separators that
  surround it. \<open>plain_text\<close> is a concrete instance.
\<close>

section \<open>Strings\<close>

definition starts_with :: "string \<Rightarrow> string \<Rightarrow> bool" where
  "starts_with s p \<longleftrightarrow> take (length p) s = p"

lemma starts_with_append [simp]: "starts_with (p @ s) p"
  by (simp add: starts_with_def)

text \<open>\<open>s.splitn(2, c)\<close>: the first part, and the second if the separator occurs.\<close>

definition splitn2 :: "char \<Rightarrow> string \<Rightarrow> string \<times> string option" where
  "splitn2 c s = (takeWhile (\<lambda>x. x \<noteq> c) s, case dropWhile (\<lambda>x. x \<noteq> c) s of [] \<Rightarrow> None | _ # v \<Rightarrow> Some v)"

lemma splitn2_append [simp]: "c \<notin> set k \<Longrightarrow> splitn2 c (k @ c # v) = (k, Some v)"
  unfolding splitn2_def by (induction k) auto

lemma splitn2_None: "c \<notin> set k \<Longrightarrow> splitn2 c k = (k, None)"
  unfolding splitn2_def by (induction k) auto

section \<open>Integers and booleans\<close>

definition digit :: "nat \<Rightarrow> char" where
  "digit d = char_of (48 + d)"

definition is_digit :: "char \<Rightarrow> bool" where
  "is_digit c \<longleftrightarrow> 48 \<le> (of_char c :: nat) \<and> of_char c \<le> (57 :: nat)"

text \<open>\<open>Display\<close> of an unsigned integer.\<close>

fun dec :: "nat \<Rightarrow> string" where
  "dec n = (if n < 10 then [digit n] else dec (n div 10) @ [digit (n mod 10)])"

declare dec.simps [simp del]

definition digits_value :: "string \<Rightarrow> nat" where
  "digits_value s = foldl (\<lambda>a c. 10 * a + (of_char c - 48)) 0 s"

text \<open>\<open>FromStr\<close> of the unsigned integers: an optional plus sign and at least one digit; too large a value is an error.\<close>

definition parse_uint :: "string \<Rightarrow> 'a::len word option" where
  "parse_uint s =
     (let ds = (case s of [] \<Rightarrow> [] | c # r \<Rightarrow> if c = CHR ''+'' then r else s) in
      if ds = [] \<or> \<not> list_all is_digit ds \<or> 2 ^ LENGTH('a) \<le> digits_value ds then None
      else Some (word_of_nat (digits_value ds)))"

text \<open>\<open>FromStr\<close> and \<open>Display\<close> of \<open>i32\<close>.\<close>

definition parse_i32 :: "string \<Rightarrow> int option" where
  "parse_i32 s =
     (case s of
        [] \<Rightarrow> None
      | c # r \<Rightarrow>
          let (neg, ds) = (if c = CHR ''-'' then (True, r) else if c = CHR ''+'' then (False, r) else (False, s));
              v = int (digits_value ds)
          in if ds = [] \<or> \<not> list_all is_digit ds then None
             else if neg then (if v \<le> 2 ^ 31 then Some (- v) else None)
             else if v < 2 ^ 31 then Some v else None)"

definition dec_int :: "int \<Rightarrow> string" where
  "dec_int i = (if i < 0 then CHR ''-'' # dec (nat (- i)) else dec (nat i))"

definition parse_bool :: "string \<Rightarrow> bool option" where
  "parse_bool s = (if s = ''true'' then Some True else if s = ''false'' then Some False else None)"

lemma of_char_digit: "d < 10 \<Longrightarrow> (of_char (digit d) :: nat) = 48 + d"
  by (simp add: digit_def)

lemma is_digit_digit [simp]: "d < 10 \<Longrightarrow> is_digit (digit d)"
  by (simp add: is_digit_def of_char_digit)

lemma dec_digits: "list_all is_digit (dec n) \<and> dec n \<noteq> []"
  by (induction n rule: dec.induct) (subst (1 2) dec.simps, simp)

lemma digits_value_snoc: "digits_value (s @ [c]) = 10 * digits_value s + (of_char c - 48)"
  by (simp add: digits_value_def)

lemma digits_value_dec [simp]: "digits_value (dec n) = n"
proof (induction n rule: dec.induct)
  case (1 n)
  show ?case
  proof (cases "n < 10")
    case True
    then show ?thesis by (simp add: dec.simps [of n] digits_value_def of_char_digit)
  next
    case False
    then show ?thesis using 1 by (simp add: dec.simps [of n] digits_value_snoc of_char_digit)
  qed
qed

lemma dec_chars: "c \<in> set (dec n) \<Longrightarrow> is_digit c"
  using dec_digits by (simp add: list_all_iff)

lemma sign_no_digit: "\<not> is_digit CHR ''+''" "\<not> is_digit CHR ''-''" "\<not> is_digit CHR ''/''" "\<not> is_digit CHR ''=''"
  "\<not> is_digit (CHR 0x0A)" "\<not> is_digit CHR ''_''" "\<not> is_digit CHR ''.''" "\<not> is_digit CHR '':''"
  by (simp_all add: is_digit_def)

lemma dec_Cons: "\<exists>c s. dec n = c # s \<and> is_digit c"
  using dec_digits [of n] by (cases "dec n") auto

lemma parse_uint_dec [simp]: "parse_uint (dec (unat w)) = Some (w :: 'a::len word)"
proof -
  obtain c s where "dec (unat w) = c # s" "c \<noteq> CHR ''+''"
    using dec_Cons [of "unat w"] sign_no_digit by metis
  moreover have "unat w < 2 ^ LENGTH('a)" using unsigned_less [of w, where 'a = nat] by simp
  ultimately show ?thesis
    using dec_digits [of "unat w"] digits_value_dec [of "unat w"] by (simp add: parse_uint_def Let_def not_le)
qed

lemma parse_uint_dec_nat: "n < 2 ^ LENGTH('a::len) \<Longrightarrow> parse_uint (dec n) = Some (word_of_nat n :: 'a word)"
  using parse_uint_dec [of "word_of_nat n :: 'a word"] by (simp add: unsigned_of_nat take_bit_nat_eq_self)

lemma parse_i32_dec_int:
  assumes "- (2 ^ 31) \<le> i" "i < 2 ^ 31"
  shows "parse_i32 (dec_int i) = Some i"
proof (cases "i < 0")
  case True
  then show ?thesis using assms dec_digits [of "nat (- i)"] by (simp add: dec_int_def parse_i32_def Let_def)
next
  case False
  obtain c s where "dec (nat i) = c # s" "c \<noteq> CHR ''+''" "c \<noteq> CHR ''-''"
    using dec_Cons [of "nat i"] sign_no_digit by metis
  then show ?thesis using False assms dec_digits [of "nat i"] digits_value_dec [of "nat i"]
    by (simp add: dec_int_def parse_i32_def Let_def)
qed

lemma dec_inject: "dec m = dec n \<longleftrightarrow> m = n"
  by (metis digits_value_dec)

lemma dec_int_inject: "dec_int i = dec_int j \<longleftrightarrow> i = j"
proof
  assume eq: "dec_int i = dec_int j"
  have minus: "dec n \<noteq> CHR ''-'' # s" for n s
    using dec_Cons [of n] sign_no_digit(2) by auto
  show "i = j"
    using eq minus [of "nat i"] minus [of "nat j"] by (auto simp: dec_int_def dec_inject nat_eq_iff2 split: if_splits) (metis+)
qed simp

section \<open>Hexadecimal text and addresses\<close>

record text_ext =
  tx_hex_encode :: "bytes \<Rightarrow> string"
  tx_hex_decode :: "string \<Rightarrow> bytes option"
  tx_base64 :: "bytes \<Rightarrow> string"
  tx_base64_decode :: "string \<Rightarrow> bytes option"
  tx_ip_fmt :: "ip_addr \<Rightarrow> string"
  tx_ip_parse :: "string \<Rightarrow> ip_addr option"
  tx_addr_fmt :: "socket_addr \<Rightarrow> string"
  tx_addr_parse :: "string \<Rightarrow> socket_addr option"

text \<open>The flow label of a socket address is not part of its text.\<close>

fun addr_printable :: "socket_addr \<Rightarrow> bool" where
  "addr_printable (SockV4 a p) = True"
| "addr_printable (SockV6 a) = (sa6_flowinfo a = 0)"

definition text_ok :: "text_ext \<Rightarrow> bool" where
  "text_ok tx \<longleftrightarrow>
     (\<forall>b. tx_hex_decode tx (tx_hex_encode tx b) = Some b \<and> length (tx_hex_encode tx b) = 2 * length b \<and>
        CHR 0x0A \<notin> set (tx_hex_encode tx b) \<and> tx_base64_decode tx (tx_base64 tx b) = Some b) \<and>
     (\<forall>a. tx_ip_parse tx (tx_ip_fmt tx a) = Some a \<and> CHR ''/'' \<notin> set (tx_ip_fmt tx a) \<and>
        CHR 0x0A \<notin> set (tx_ip_fmt tx a) \<and> length (tx_ip_fmt tx a) \<le> 45) \<and>
     (\<forall>a. addr_printable a \<longrightarrow> tx_addr_parse tx (tx_addr_fmt tx a) = Some a \<and>
        CHR 0x0A \<notin> set (tx_addr_fmt tx a) \<and> length (tx_addr_fmt tx a) \<le> 64)"

section \<open>An instance\<close>

text \<open>
  Hexadecimal text as it is; addresses as decimal numbers, which is not their standard text but
  shows that the laws can hold.
\<close>

definition hex_digit :: "nat \<Rightarrow> char" where
  "hex_digit d = (if d < 10 then char_of (48 + d) else char_of (87 + d))"

definition hex_value :: "char \<Rightarrow> nat option" where
  "hex_value c =
     (let n = of_char c in
      if 48 \<le> n \<and> n \<le> 57 then Some (n - 48) else if 97 \<le> n \<and> n \<le> 102 then Some (n - 87)
      else if 65 \<le> n \<and> n \<le> 70 then Some (n - 55) else None)"

fun hex_encode :: "bytes \<Rightarrow> string" where
  "hex_encode [] = []"
| "hex_encode (b # bs) = hex_digit (unat b div 16) # hex_digit (unat b mod 16) # hex_encode bs"

fun hex_decode :: "string \<Rightarrow> bytes option" where
  "hex_decode [] = Some []"
| "hex_decode [c] = None"
| "hex_decode (c # d # s) =
     (case (hex_value c, hex_value d, hex_decode s) of
        (Some h, Some l, Some bs) \<Rightarrow> Some (word_of_nat (16 * h + l) # bs)
      | _ \<Rightarrow> None)"

fun plain_ip_fmt :: "ip_addr \<Rightarrow> string" where
  "plain_ip_fmt (IpV4 a) = ''4.'' @ dec (unat a)"
| "plain_ip_fmt (IpV6 a) = ''6.'' @ dec (unat a)"

definition plain_ip_parse :: "string \<Rightarrow> ip_addr option" where
  "plain_ip_parse s =
     (case splitn2 CHR ''.'' s of
        (k, Some v) \<Rightarrow> if k = ''4'' then map_option IpV4 (parse_uint v) else map_option IpV6 (parse_uint v)
      | _ \<Rightarrow> None)"

fun plain_addr_fmt :: "socket_addr \<Rightarrow> string" where
  "plain_addr_fmt (SockV4 a p) = ''4.'' @ dec (unat a) @ '':'' @ dec (unat p)"
| "plain_addr_fmt (SockV6 a) = ''6.'' @ dec (unat (sa6_ip a)) @ '':'' @ dec (unat (sa6_port a)) @ ''.'' @ dec (unat (sa6_scope_id a))"

definition plain_addr_parse :: "string \<Rightarrow> socket_addr option" where
  "plain_addr_parse s =
     (case splitn2 CHR ''.'' s of
        (k, Some v) \<Rightarrow>
          (case splitn2 CHR '':'' v of
             (ip, Some r) \<Rightarrow>
               if k = ''4'' then
                 (case (parse_uint ip, parse_uint r) of (Some ip, Some p) \<Rightarrow> Some (SockV4 ip p) | _ \<Rightarrow> None)
               else
                 (case splitn2 CHR ''.'' r of
                    (p, Some i) \<Rightarrow>
                      (case (parse_uint ip, parse_uint p, parse_uint i) of
                         (Some ip, Some p, Some i) \<Rightarrow> Some (SockV6 \<lparr>sa6_ip = ip, sa6_port = p, sa6_flowinfo = 0, sa6_scope_id = i\<rparr>)
                       | _ \<Rightarrow> None)
                  | _ \<Rightarrow> None)
           | _ \<Rightarrow> None)
      | _ \<Rightarrow> None)"

definition plain_text :: text_ext where
  "plain_text =
     \<lparr>tx_hex_encode = hex_encode, tx_hex_decode = hex_decode, tx_base64 = hex_encode, tx_base64_decode = hex_decode,
      tx_ip_fmt = plain_ip_fmt, tx_ip_parse = plain_ip_parse,
      tx_addr_fmt = plain_addr_fmt, tx_addr_parse = plain_addr_parse\<rparr>"

lemma hex_value_digit [simp]: "d < 16 \<Longrightarrow> hex_value (hex_digit d) = Some d"
  by (auto simp: hex_value_def hex_digit_def Let_def)

lemma hex_digit_printable: "d < 16 \<Longrightarrow> hex_digit d \<noteq> CHR 0x0A"
proof -
  assume "d < 16"
  then have "hex_value (hex_digit d) \<noteq> hex_value (CHR 0x0A)" by (simp, simp add: hex_value_def)
  then show ?thesis by metis
qed

lemma hex_roundtrip:
  "hex_decode (hex_encode b) = Some b \<and> length (hex_encode b) = 2 * length b \<and> CHR 0x0A \<notin> set (hex_encode b)"
proof (induction b)
  case (Cons b bs)
  have "unat b < 256" using unsigned_less [of b, where 'a = nat] by simp
  then have "unat b div 16 < 16" "unat b mod 16 < 16" by auto
  moreover have "16 * (unat b div 16) + unat b mod 16 = unat b" by simp
  ultimately show ?case using Cons hex_digit_printable [of "unat b div 16"] hex_digit_printable [of "unat b mod 16"] by auto
qed simp

lemma length_dec: "n < 10 ^ k \<Longrightarrow> 0 < k \<Longrightarrow> length (dec n) \<le> k"
proof (induction n arbitrary: k rule: dec.induct)
  case (1 n)
  show ?case
  proof (cases "n < 10")
    case True
    then show ?thesis using 1(3) by (simp add: dec.simps [of n])
  next
    case False
    obtain j where j: "k = Suc j" using 1(3) by (cases k) simp_all
    moreover have "0 < j" using 1(2) False by (cases j) (simp_all add: j)
    ultimately have k: "k = Suc j" "0 < j" by simp_all
    then have "n div 10 < 10 ^ j" using 1(2) by (simp add: less_mult_imp_div_less mult.commute)
    then show ?thesis using 1(1) [OF False] False k by (simp add: dec.simps [of n])
  qed
qed

lemma length_dec_word:
  fixes a :: "'a::len word"
  assumes "2 ^ LENGTH('a) \<le> (10::nat) ^ k" "0 < k"
  shows "length (dec (unat a)) \<le> k"
proof -
  have "unat a < 2 ^ LENGTH('a)" using unsigned_less [of a, where 'a = nat] by simp
  then show ?thesis using length_dec [of "unat a" k] assms by linarith
qed

lemma dec_no: "\<not> is_digit c \<Longrightarrow> c \<notin> set (dec n)"
  using dec_chars by blast

lemma plain_ip_ok:
  "plain_ip_parse (plain_ip_fmt a) = Some a \<and> CHR ''/'' \<notin> set (plain_ip_fmt a) \<and>
     CHR 0x0A \<notin> set (plain_ip_fmt a) \<and> length (plain_ip_fmt a) \<le> 45"
proof (cases a)
  case (IpV4 x)
  then show ?thesis using length_dec_word [of 40 x]
    by (simp add: plain_ip_parse_def dec_no sign_no_digit splitn2_append [of "CHR ''.''" "''4''", simplified])
next
  case (IpV6 x)
  then show ?thesis using length_dec_word [of 40 x]
    by (simp add: plain_ip_parse_def dec_no sign_no_digit splitn2_append [of "CHR ''.''" "''6''", simplified])
qed

lemma plain_addr_ok:
  assumes "addr_printable a"
  shows "plain_addr_parse (plain_addr_fmt a) = Some a \<and> CHR 0x0A \<notin> set (plain_addr_fmt a) \<and> length (plain_addr_fmt a) \<le> 64"
proof (cases a)
  case (SockV4 x p)
  then show ?thesis using length_dec_word [of 10 x] length_dec_word [of 5 p]
    by (simp add: plain_addr_parse_def dec_no sign_no_digit splitn2_append [of "CHR ''.''" "''4''", simplified])
next
  case (SockV6 s)
  then have s: "s = \<lparr>sa6_ip = sa6_ip s, sa6_port = sa6_port s, sa6_flowinfo = 0, sa6_scope_id = sa6_scope_id s\<rparr>"
    using assms by simp
  then show ?thesis
    using SockV6 length_dec_word [of 40 "sa6_ip s"] length_dec_word [of 5 "sa6_port s"] length_dec_word [of 10 "sa6_scope_id s"]
    by (simp add: plain_addr_parse_def dec_no sign_no_digit splitn2_append [of "CHR ''.''" "''6''", simplified])
qed

lemma plain_text_ok: "text_ok plain_text"
  unfolding text_ok_def plain_text_def by (simp add: hex_roundtrip plain_ip_ok plain_addr_ok)

end
