(* ===== verification/Timer.thy ===== *)
theory Timer
  imports Load_Monitor
begin

text \<open>
  Timers: \<open>src/src/wireguard/timer.rs\<close>. A timer is its \<open>activated\<close> flag and the deadline of its
  \<open>Sleep\<close>; \<open>timer_poll\<close> is one poll of the closure inside \<open>create_timer_async\<close>, whose loop runs the
  action on each \<open>Ready(Ok)\<close> and ends on \<open>Ready(Err)\<close>. The sleep of tokio is not in the repository;
  it is ready exactly from its deadline on. The lemmas show that a timer fires only when active
  and due, once for each activation, and that an active timer does fire.
\<close>

section \<open>The code\<close>

record timer =
  tm_activated :: bool
  tm_deadline :: instant

datatype poll = Pending | ReadyOk | ReadyErr

definition secs :: "nat \<Rightarrow> nat" where
  "secs n = n * 1000000000"

definition timer_create :: "instant \<Rightarrow> timer" where
  "timer_create now = \<lparr>tm_activated = False, tm_deadline = now\<rparr>"

text \<open>
  The inner \<open>poll_fn\<close>. After the reset the sleep is pending again, so the \<open>unreachable!()\<close> is not
  reached.
\<close>

definition timer_poll :: "instant \<Rightarrow> bool \<Rightarrow> timer \<Rightarrow> poll \<times> timer" where
  "timer_poll now handle_dropped t =
     (if handle_dropped then (ReadyErr, t)
      else if now < tm_deadline t then (Pending, t)
      else
        let t = t\<lparr>tm_deadline := now + secs 600\<rparr>
        in if tm_activated t then (ReadyOk, t\<lparr>tm_activated := False\<rparr>) else (Pending, t))"

definition adjust_and_activate :: "instant \<Rightarrow> nat \<Rightarrow> timer \<Rightarrow> timer" where
  "adjust_and_activate now delay t = t\<lparr>tm_deadline := now + delay, tm_activated := True\<rparr>"

definition adjust_and_activate_secs :: "instant \<Rightarrow> nat \<Rightarrow> timer \<Rightarrow> timer" where
  "adjust_and_activate_secs now n t = adjust_and_activate now (secs n) t"

definition adjust_and_activate_if_not_activated :: "instant \<Rightarrow> nat \<Rightarrow> timer \<Rightarrow> timer" where
  "adjust_and_activate_if_not_activated now n t =
     (if \<not> tm_activated t then adjust_and_activate_secs now n t else t)"

definition de_activate :: "timer \<Rightarrow> timer" where
  "de_activate t = t\<lparr>tm_activated := False\<rparr>"

section \<open>Runs of a timer\<close>

datatype timer_event = TmActivate nat | TmActivateIfNot nat | TmDeactivate | TmPoll

definition timer_step :: "instant \<Rightarrow> timer_event \<Rightarrow> timer \<Rightarrow> bool \<times> timer" where
  "timer_step now e t =
     (case e of
        TmActivate delay \<Rightarrow> (False, adjust_and_activate now delay t)
      | TmActivateIfNot n \<Rightarrow> (False, adjust_and_activate_if_not_activated now n t)
      | TmDeactivate \<Rightarrow> (False, de_activate t)
      | TmPoll \<Rightarrow> (let (r, t') = timer_poll now False t in (r = ReadyOk, t')))"

text \<open>The instants at which the action runs.\<close>

fun timer_fires :: "timer \<Rightarrow> (instant \<times> timer_event) list \<Rightarrow> instant list" where
  "timer_fires t [] = []"
| "timer_fires t ((now, e) # es) =
     (let (fires, t') = timer_step now e t in (if fires then [now] else []) @ timer_fires t' es)"

fun is_activation :: "timer_event \<Rightarrow> bool" where
  "is_activation (TmActivate n) = True"
| "is_activation (TmActivateIfNot n) = True"
| "is_activation _ = False"

lemma timer_fires_le:
  "length (timer_fires t es) \<le> (if tm_activated t then 1 else 0) + length (filter (\<lambda>(now, e). is_activation e) es)"
proof (induction es arbitrary: t)
  case (Cons x es)
  obtain now e where x: "x = (now, e)" by (cases x)
  show ?case
    using Cons.IH [of "snd (timer_step now e t)"]
    by (cases e)
      (auto simp: x timer_step_def timer_poll_def adjust_and_activate_def adjust_and_activate_secs_def
        adjust_and_activate_if_not_activated_def de_activate_def Let_def split: if_splits)
qed simp

text \<open>
  C26: A new timer fires at most once for each activation, however its polls, adjustments and
  deactivations are ordered.
\<close>

theorem timer_fires_once_per_activation:
  "length (timer_fires (timer_create now) es) \<le> length (filter (\<lambda>(t, e). is_activation e) es)"
  using timer_fires_le [of "timer_create now" es] by (simp add: timer_create_def)

text \<open>
  A poll runs the action exactly when the handle is alive, the timer is active and its delay has
  passed; so an activated timer runs at the first poll from its deadline on, not before, and not
  at all once deactivated.
\<close>

theorem timer_poll_fires_iff:
  "(fst (timer_poll now dropped t) = ReadyOk \<longleftrightarrow> \<not> dropped \<and> tm_activated t \<and> tm_deadline t \<le> now) \<and>
   (fst (timer_poll now dropped (adjust_and_activate now0 delay t)) = ReadyOk \<longleftrightarrow> \<not> dropped \<and> now0 + delay \<le> now) \<and>
   fst (timer_poll now dropped (de_activate t)) \<noteq> ReadyOk"
  by (auto simp: timer_poll_def adjust_and_activate_def de_activate_def Let_def)

end
