(* ===== verification/Peer_State.thy ===== *)
theory Peer_State
  imports Handshake Timer "HOL-Library.Multiset"
begin

text \<open>
  The state of one peer: \<open>src/src/wireguard/peer_state.rs\<close>. The fields of \<open>PeerState\<close> are those of
  the record \<open>peer_state\<close>; the handshake resend scope is the instant at which its loop sends the next
  initiation (the scope is dropped exactly when the option becomes \<open>None\<close>). Dropping an
  \<open>IdMapGuard\<close> removes its identifier from the \<open>id_map\<close> of the interface, so the operations that
  drop guards return the identifiers. The methods of \<open>&self\<close> that mutate through locks return the
  new state. The lemmas show that the queue keeps the last 16 packets, that a peer holds at most
  three sessions, newest first, and which timers and identifiers each operation touches.
\<close>

section \<open>The state\<close>

definition QUEUE_SIZE :: nat where "QUEUE_SIZE = 16"
definition MAX_TRANSPORTS :: nat where "MAX_TRANSPORTS = 3"

record 'h handshake =
  hk_self_id :: wg_id
  hk_hs :: 'h

record 'h peer_state =
  ps_info :: peer_info
  ps_last_handshake :: "tai64n option"
  ps_cookie :: "(bytes \<times> instant) option"
  ps_last_mac1 :: "bytes option"
  ps_handshake :: "'h handshake option"
  ps_resend_scope :: "instant option"
  ps_rx_bytes :: u64
  ps_tx_bytes :: u64
  ps_queue :: "bytes list"
  ps_transports :: "transport list"
  ps_rekey_no_recv :: timer
  ps_keepalive :: timer
  ps_persistent_keepalive :: timer
  ps_stop_handshake :: timer
  ps_clear :: timer

text \<open>The state \<open>wg_add_peer\<close> builds.\<close>

definition ps_new :: "bytes \<Rightarrow> instant \<Rightarrow> 'h peer_state" where
  "ps_new public_key now =
     \<lparr>ps_info = \<lparr>pi_public_key = public_key, pi_psk = None, pi_endpoint = None, pi_allowed_ips = {},
        pi_keepalive = None, pi_roaming = True\<rparr>,
      ps_last_handshake = None, ps_cookie = None, ps_last_mac1 = None, ps_handshake = None,
      ps_resend_scope = None, ps_rx_bytes = counter_new 0, ps_tx_bytes = counter_new 0,
      ps_queue = [], ps_transports = [],
      ps_rekey_no_recv = timer_create now, ps_keepalive = timer_create now,
      ps_persistent_keepalive = timer_create now, ps_stop_handshake = timer_create now,
      ps_clear = timer_create now\<rparr>"

lemma ps_new_sel [simp]:
  "ps_queue (ps_new pk now) = []" "ps_transports (ps_new pk now) = []" "ps_handshake (ps_new pk now) = None"
  "ps_resend_scope (ps_new pk now) = None" "pi_public_key (ps_info (ps_new pk now)) = pk"
  "pi_allowed_ips (ps_info (ps_new pk now)) = {}" "pi_roaming (ps_info (ps_new pk now))"
  by (simp_all add: ps_new_def)

section \<open>The operations\<close>

definition ps_get_endpoint :: "'h peer_state \<Rightarrow> socket_addr_v6 option" where
  "ps_get_endpoint p = pi_endpoint (ps_info p)"

text \<open>\<open>None\<close> is the failed assertion.\<close>

definition ps_set_endpoint :: "socket_addr_v6 \<Rightarrow> 'h peer_state \<Rightarrow> 'h peer_state option" where
  "ps_set_endpoint a p =
     (if pi_roaming (ps_info p) then Some (p\<lparr>ps_info := (ps_info p)\<lparr>pi_endpoint := Some a\<rparr>\<rparr>) else None)"

definition ps_get_cookie :: "instant \<Rightarrow> 'h peer_state \<Rightarrow> bytes option" where
  "ps_get_cookie now p =
     (case ps_cookie p of
        None \<Rightarrow> None
      | Some (cookie, t) \<Rightarrow> if from_secs 120 \<le> now - t then None else Some cookie)"

definition ps_get_last_handshake_time :: "instant \<Rightarrow> nat \<Rightarrow> 'h peer_state \<Rightarrow> nat option" where
  "ps_get_last_handshake_time now system_now p =
     (case ps_transports p of
        [] \<Rightarrow> None
      | t # _ \<Rightarrow> let dur = now - tp_created t in Some (system_now - dur))"

definition ps_guards :: "'h peer_state \<Rightarrow> wg_id list" where
  "ps_guards p = (case ps_handshake p of None \<Rightarrow> [] | Some h \<Rightarrow> [hk_self_id h]) @ map tp_self_id (ps_transports p)"

definition ps_clear_all :: "'h peer_state \<Rightarrow> wg_id list \<times> 'h peer_state" where
  "ps_clear_all p =
     (ps_guards p,
      p\<lparr>ps_handshake := None, ps_resend_scope := None, ps_transports := [], ps_queue := [],
        ps_rekey_no_recv := de_activate (ps_rekey_no_recv p),
        ps_keepalive := de_activate (ps_keepalive p),
        ps_clear := de_activate (ps_clear p)\<rparr>)"

definition ps_on_new_transport :: "instant \<Rightarrow> 'h peer_state \<Rightarrow> 'h peer_state" where
  "ps_on_new_transport now p =
     p\<lparr>ps_stop_handshake := de_activate (ps_stop_handshake p),
       ps_clear := adjust_and_activate_secs now (3 * REJECT_AFTER_TIME) (ps_clear p)\<rparr>"

definition ps_count_recv :: "nat \<Rightarrow> 'h peer_state \<Rightarrow> 'h peer_state" where
  "ps_count_recv n p = p\<lparr>ps_rx_bytes := snd (counter_fetch_add (ps_rx_bytes p) (of_nat n))\<rparr>"

definition ps_count_send :: "nat \<Rightarrow> 'h peer_state \<Rightarrow> 'h peer_state" where
  "ps_count_send n p = p\<lparr>ps_tx_bytes := snd (counter_fetch_add (ps_tx_bytes p) (of_nat n))\<rparr>"

definition ps_on_recv :: "instant \<Rightarrow> bool \<Rightarrow> 'h peer_state \<Rightarrow> 'h peer_state" where
  "ps_on_recv now is_keepalive p =
     (let p = p\<lparr>ps_rekey_no_recv := de_activate (ps_rekey_no_recv p)\<rparr>
      in if \<not> is_keepalive
         then p\<lparr>ps_keepalive := adjust_and_activate_if_not_activated now KEEPALIVE_TIMEOUT (ps_keepalive p)\<rparr>
         else p)"

definition ps_adjust_persistent :: "instant \<Rightarrow> 'h peer_state \<Rightarrow> 'h peer_state" where
  "ps_adjust_persistent now p =
     (case pi_keepalive (ps_info p) of
        Some i \<Rightarrow> p\<lparr>ps_persistent_keepalive := adjust_and_activate_secs now (unat i) (ps_persistent_keepalive p)\<rparr>
      | None \<Rightarrow> p)"

definition ps_on_send_transport :: "instant \<Rightarrow> 'h peer_state \<Rightarrow> 'h peer_state" where
  "ps_on_send_transport now p =
     (let p = p\<lparr>ps_keepalive := de_activate (ps_keepalive p)\<rparr>;
          p = p\<lparr>ps_rekey_no_recv :=
            adjust_and_activate_if_not_activated now (KEEPALIVE_TIMEOUT + REKEY_TIMEOUT) (ps_rekey_no_recv p)\<rparr>
      in ps_adjust_persistent now p)"

definition ps_on_send_keepalive :: "instant \<Rightarrow> 'h peer_state \<Rightarrow> 'h peer_state" where
  "ps_on_send_keepalive now p =
     (let p = p\<lparr>ps_keepalive := de_activate (ps_keepalive p)\<rparr> in ps_adjust_persistent now p)"

definition ps_push_transport :: "instant \<Rightarrow> transport \<Rightarrow> 'h peer_state \<Rightarrow> wg_id list \<times> 'h peer_state" where
  "ps_push_transport now t p =
     (let p = ps_on_new_transport now p;
          (dropped, ts) = (if MAX_TRANSPORTS \<le> length (ps_transports p)
             then ([tp_self_id (last (ps_transports p))], butlast (ps_transports p))
             else ([], ps_transports p))
      in (dropped, p\<lparr>ps_transports := t # ts\<rparr>))"

definition ps_have_fresh_unconfirmed_transport :: "instant \<Rightarrow> 'h peer_state \<Rightarrow> bool" where
  "ps_have_fresh_unconfirmed_transport now p =
     list_ex (\<lambda>t. \<not> tp_is_initiator t \<and> now - tp_created t < from_secs 10) (ps_transports p)"

definition ps_really_should_handshake :: "instant \<Rightarrow> 'h peer_state \<Rightarrow> bool" where
  "ps_really_should_handshake now p \<longleftrightarrow>
     Option.is_none (ps_resend_scope p) \<and> \<not> ps_have_fresh_unconfirmed_transport now p"

text \<open>The position of the session in \<open>transports\<close>: the callers go on to mutate it.\<close>

definition ps_find_transport_to_send :: "'h peer_state \<Rightarrow> nat option" where
  "ps_find_transport_to_send p = find_index tp_get_should_send (ps_transports p)"

definition ps_find_transport_by_id :: "wg_id \<Rightarrow> 'h peer_state \<Rightarrow> nat option" where
  "ps_find_transport_by_id i p = find_index (\<lambda>t. tp_self_id t = i) (ps_transports p)"

text \<open>The loop of \<open>enqueue_packet\<close> that drops packets from the front.\<close>

fun queue_trim :: "bytes list \<Rightarrow> bytes list" where
  "queue_trim [] = []"
| "queue_trim (q # qs) = (if QUEUE_SIZE \<le> length (q # qs) then queue_trim qs else q # qs)"

definition ps_enqueue_packet :: "instant \<Rightarrow> bytes \<Rightarrow> 'h peer_state \<Rightarrow> 'h peer_state" where
  "ps_enqueue_packet now pkt p =
     p\<lparr>ps_stop_handshake := adjust_and_activate_secs now REKEY_ATTEMPT_TIME (ps_stop_handshake p),
       ps_queue := queue_trim (ps_queue p) @ [pkt]\<rparr>"

definition ps_dequeue_all :: "'h peer_state \<Rightarrow> bytes list \<times> 'h peer_state" where
  "ps_dequeue_all p = (ps_queue p, p\<lparr>ps_queue := []\<rparr>)"

section \<open>Runs of a peer\<close>

text \<open>
  What its users do to a peer, apart from changes of its configuration: packets queued and taken
  out, sessions added, everything cleared, packets sent and received, endpoints learned, and time
  passing for its sessions. \<open>pe_drops\<close> are the identifiers whose guards an event drops.
\<close>

datatype peer_event = PeEnqueue bytes | PeDequeueAll | PePush transport | PeClear
  | PeSend nat | PeSendKeepalive | PeRecv nat bool | PeEndpoint socket_addr_v6 | PeTick

definition pe_step :: "instant \<Rightarrow> peer_event \<Rightarrow> 'h peer_state \<Rightarrow> wg_id list \<times> 'h peer_state" where
  "pe_step now e p =
     (case e of
        PeEnqueue pkt \<Rightarrow> ([], ps_enqueue_packet now pkt p)
      | PeDequeueAll \<Rightarrow> ([], snd (ps_dequeue_all p))
      | PePush t \<Rightarrow> ps_push_transport now t p
      | PeClear \<Rightarrow> ps_clear_all p
      | PeSend n \<Rightarrow> ([], ps_on_send_transport now (ps_count_send n p))
      | PeSendKeepalive \<Rightarrow> ([], ps_on_send_keepalive now (ps_count_send 32 p))
      | PeRecv n k \<Rightarrow> ([], ps_on_recv now k (ps_count_recv n p))
      | PeEndpoint a \<Rightarrow> ([], case ps_set_endpoint a p of None \<Rightarrow> p | Some p' \<Rightarrow> p')
      | PeTick \<Rightarrow> ([], p\<lparr>ps_transports := map (tp_tick now) (ps_transports p)\<rparr>))"

fun pe_run :: "(instant \<times> peer_event) list \<Rightarrow> 'h peer_state \<Rightarrow> wg_id list \<times> 'h peer_state" where
  "pe_run [] p = ([], p)"
| "pe_run ((now, e) # es) p =
     (let (d, p) = pe_step now e p; (d', p) = pe_run es p in (d @ d', p))"

section \<open>The queue\<close>

lemma queue_trim_drop: "queue_trim q = drop (length q - 15) q"
proof (induction q)
  case (Cons x xs)
  show ?case
  proof (cases "length xs < 15")
    case False
    then have "length (x # xs) - 15 = Suc (length xs - 15)" by simp
    then show ?thesis using Cons False by (simp add: QUEUE_SIZE_def)
  qed (simp add: QUEUE_SIZE_def)
qed simp

lemma queue_push_last: "queue_trim (drop (length log - 16) log) @ [p] = drop (length (log @ [p]) - 16) (log @ [p])"
proof (cases "length log \<le> 16")
  case False
  then have "length log - 15 = Suc (length log - 16)" by simp
  then show ?thesis using False by (simp add: queue_trim_drop)
qed (simp add: queue_trim_drop)

text \<open>The packets queued since the queue was last emptied.\<close>

fun queue_log :: "bytes list \<Rightarrow> (instant \<times> peer_event) list \<Rightarrow> bytes list" where
  "queue_log l [] = l"
| "queue_log l ((now, e) # es) =
     queue_log (case e of PeEnqueue pkt \<Rightarrow> l @ [pkt] | PeDequeueAll \<Rightarrow> [] | PeClear \<Rightarrow> [] | _ \<Rightarrow> l) es"

lemmas peer_ops = ps_enqueue_packet_def ps_dequeue_all_def ps_push_transport_def ps_clear_all_def
  ps_on_send_transport_def ps_on_send_keepalive_def ps_on_recv_def ps_count_send_def ps_count_recv_def
  ps_set_endpoint_def ps_adjust_persistent_def ps_on_new_transport_def

lemma queue_run:
  "ps_queue p = drop (length l - 16) l \<Longrightarrow>
     ps_queue (snd (pe_run es p)) = drop (length (queue_log l es) - 16) (queue_log l es)"
proof (induction es arbitrary: p l)
  case (Cons x es)
  obtain now e where x: "x = (now, e)" by (cases x)
  let ?l = "case e of PeEnqueue pkt \<Rightarrow> l @ [pkt] | PeDequeueAll \<Rightarrow> [] | PeClear \<Rightarrow> [] | _ \<Rightarrow> l"
  have "ps_queue (snd (pe_step now e p)) = drop (length ?l - 16) ?l"
    using Cons.prems queue_push_last [of l]
    by (cases e) (auto simp: pe_step_def peer_ops Let_def split: option.split)
  then show ?case using Cons.IH by (simp add: x split: prod.split) (metis snd_conv)
qed simp

text \<open>
  The queue of a peer always holds, in order, the last 16 packets queued since it was last
  emptied, whatever else happens to the peer: at overflow the oldest are lost.
\<close>

theorem peer_queue_latest:
  "ps_queue (snd (pe_run es (ps_new pk now))) = (let l = queue_log [] es in drop (length l - QUEUE_SIZE) l)"
  using queue_run [of "ps_new pk now" "[]" es] by (simp add: ps_new_def QUEUE_SIZE_def Let_def)

section \<open>The sessions\<close>

text \<open>The identifiers of the sessions added since the last \<open>clear\<close>, newest first.\<close>

fun session_log :: "wg_id list \<Rightarrow> (instant \<times> peer_event) list \<Rightarrow> wg_id list" where
  "session_log l [] = l"
| "session_log l ((now, e) # es) =
     session_log (case e of PePush t \<Rightarrow> tp_self_id t # l | PeClear \<Rightarrow> [] | _ \<Rightarrow> l) es"

fun pushed_ids :: "(instant \<times> peer_event) list \<Rightarrow> wg_id list" where
  "pushed_ids [] = []"
| "pushed_ids ((now, e) # es) = (case e of PePush t \<Rightarrow> [tp_self_id t] | _ \<Rightarrow> []) @ pushed_ids es"

lemma map_self_id_tick: "map tp_self_id (map (tp_tick now) ts) = map tp_self_id ts"
  by (simp add: tp_tick_def Let_def)

lemma take_3_push:
  "map f ts = take 3 l \<Longrightarrow> map f (if 3 \<le> length ts then butlast ts else ts) = take 2 l"
  by (auto simp: map_butlast butlast_take dest!: arg_cong [where f = length] split: if_splits)

lemma sessions_run:
  assumes "map tp_self_id (ps_transports p) = take 3 l"
  shows "map tp_self_id (ps_transports (snd (pe_run es p))) = take 3 (session_log l es)"
  using assms
proof (induction es arbitrary: p l)
  case (Cons x es)
  obtain now e where x: "x = (now, e)" by (cases x)
  let ?l = "case e of PePush t \<Rightarrow> tp_self_id t # l | PeClear \<Rightarrow> [] | _ \<Rightarrow> l"
  have "map tp_self_id (ps_transports (snd (pe_step now e p))) = take 3 ?l"
    using Cons.prems take_3_push [OF Cons.prems] map_self_id_tick [of now "ps_transports p"]
    by (cases e) (auto simp: pe_step_def peer_ops Let_def MAX_TRANSPORTS_def take_Cons' split: option.split if_splits)
  then show ?case using Cons.IH by (simp add: x split: prod.split) (metis snd_conv)
qed simp

lemma mset_butlast:
  "ts \<noteq> [] \<Longrightarrow> add_mset (f (last ts)) (image_mset f (mset (butlast ts))) = image_mset f (mset ts)"
  by (induction ts) auto

lemma guards_step:
  assumes "ps_handshake p = None" "pe_step now e p = (d, p')"
  shows "ps_handshake p' = None"
    and "mset d + mset (map tp_self_id (ps_transports p')) =
      mset (map tp_self_id (ps_transports p)) + mset (case e of PePush t \<Rightarrow> [tp_self_id t] | _ \<Rightarrow> [])"
proof -
  have tick: "tp_self_id (tp_tick now t) = tp_self_id t" for t by (simp add: tp_tick_def Let_def)
  show "ps_handshake p' = None"
    using assms by (cases e) (auto simp: pe_step_def peer_ops Let_def split: option.splits if_splits)
  show "mset d + mset (map tp_self_id (ps_transports p')) =
      mset (map tp_self_id (ps_transports p)) + mset (case e of PePush t \<Rightarrow> [tp_self_id t] | _ \<Rightarrow> [])"
    using assms mset_butlast [of "ps_transports p" tp_self_id]
    by (cases e; cases "ps_transports p = []") (auto simp: pe_step_def peer_ops ps_guards_def Let_def MAX_TRANSPORTS_def multiset.map_comp
        comp_def tick split: option.splits if_splits)
qed

lemma guards_run:
  assumes "ps_handshake p = None" "pe_run es p = (d, p')"
  shows "mset d + mset (map tp_self_id (ps_transports p')) = mset (map tp_self_id (ps_transports p)) + mset (pushed_ids es)"
  using assms
proof (induction es arbitrary: p d)
  case (Cons x es)
  obtain now e where x: "x = (now, e)" by (cases x)
  obtain d1 p1 where 1: "pe_step now e p = (d1, p1)" by (cases "pe_step now e p")
  obtain d2 where 2: "pe_run es p1 = (d2, p')" "d = d1 @ d2"
    using Cons.prems 1 by (auto simp: x split: prod.splits)
  note step = guards_step [OF Cons.prems(1) 1]
  let ?ids = "\<lambda>p. mset (map tp_self_id (ps_transports p))"
  let ?E = "mset (case e of PePush t \<Rightarrow> [tp_self_id t] | _ \<Rightarrow> [])"
  have "mset d + ?ids p' = mset d1 + (mset d2 + ?ids p')" by (simp only: 2(2) mset_append add.assoc)
  also have "\<dots> = mset d1 + ?ids p1 + mset (pushed_ids es)" by (simp only: Cons.IH [OF step(1) 2(1)] add.assoc)
  also have "\<dots> = ?ids p + ?E + mset (pushed_ids es)" by (simp only: step(2))
  finally show ?case by (simp only: x pushed_ids.simps mset_append add.assoc)
qed simp

lemma sessions_latest:
  "pe_run es (ps_new pk now :: 'h peer_state) = (d, p) \<Longrightarrow>
    map tp_self_id (ps_transports p) = take 3 (session_log [] es) \<and>
    mset d + mset (map tp_self_id (ps_transports p)) = mset (pushed_ids es)"
  using sessions_run [of "ps_new pk now :: 'h peer_state" "[]" es] guards_run [of "ps_new pk now" es d p] by simp

text \<open>
  C25: A peer that starts with no sessions holds at any time the three sessions added last since its
  sessions were last cleared, newest first; and every identifier ever added is either still held by a
  session or was released exactly as often as it was added.
\<close>

theorem peer_sessions_latest:
  "(let (d, p) = pe_run es (ps_new pk now)
    in map tp_self_id (ps_transports p) = take MAX_TRANSPORTS (session_log [] es) \<and>
       mset d + mset (map tp_self_id (ps_transports p)) = mset (pushed_ids es))"
  by (auto simp: MAX_TRANSPORTS_def split: prod.split dest: sessions_latest simp del: mset_map)

end
