(* ===== verification/Prefix_Bits.thy ===== *)
theory Prefix_Bits
  imports Prelude "HOL-Library.Sublist"
begin

text \<open>
  Bit prefixes of addresses, for \<open>src/src/wireguard/ip_lookup_trie/mod.rs\<close>: the masks
  \<open>to_mask\<close> and \<open>next_bit_mask1\<close> and the length of a common prefix, on words of any width
  (\<open>u32\<close> for IPv4, \<open>u128\<close> for IPv6). The first \<open>n\<close> bits of an address, most significant first,
  are the list \<open>pre n k\<close>; the lemmas read every mask comparison of the code as an equation
  between such lists. They are collected in \<open>prefix_simps\<close>.
\<close>

named_theorems prefix_simps \<open>mask comparisons as equations between bit lists\<close>

section \<open>The code\<close>

definition to_mask :: "nat \<Rightarrow> 'a::len word" where
  "to_mask prefix_len =
     (if prefix_len = 0 then 0 else push_bit (LENGTH('a) - prefix_len) (- 1))"

definition next_bit_mask1 :: "nat \<Rightarrow> 'a::len word" where
  "next_bit_mask1 n = drop_bit n (word_rotr 1 1)"

definition leading_zeros :: "'a::len word \<Rightarrow> nat" where
  "leading_zeros w = length (takeWhile (\<lambda>i. \<not> bit w (LENGTH('a) - 1 - i)) [0..<LENGTH('a)])"

definition common_prefix_len :: "'a::len word \<Rightarrow> nat \<Rightarrow> 'a word \<Rightarrow> nat \<Rightarrow> nat" where
  "common_prefix_len k1 len1 k2 len2 =
     (let smaller_len = min len1 len2 in min smaller_len (leading_zeros (k1 XOR k2)))"

section \<open>Prefixes as bit lists\<close>

definition pbit :: "'a::len word \<Rightarrow> nat \<Rightarrow> bool" where
  "pbit k i = bit k (LENGTH('a) - 1 - i)"

definition pre :: "nat \<Rightarrow> 'a::len word \<Rightarrow> bool list" where
  "pre n k = map (pbit k) [0..<n]"

lemma length_pre [simp]: "length (pre n k) = n"
  by (simp add: pre_def)

lemma nth_pre [simp]: "i < n \<Longrightarrow> pre n k ! i = pbit k i"
  by (simp add: pre_def)

lemma take_pre [simp]: "take m (pre n k) = pre (min m n) k"
  by (rule nth_equalityI) (auto simp: pre_def)

lemma pre_0 [simp]: "pre 0 k = []"
  by (simp add: pre_def)

lemma pre_Suc: "pre (Suc n) k = pre n k @ [pbit k n]"
  by (simp add: pre_def)

lemma pre_inject_len: "pre m k = pre n k' \<Longrightarrow> m = n"
  by (metis length_pre)

lemma pre_eq_iff: "pre n k = pre n k' \<longleftrightarrow> (\<forall>i<n. pbit k i = pbit k' i)"
  by (auto simp: pre_def)

lemma prefix_nth: "prefix xs ys \<Longrightarrow> i < length xs \<Longrightarrow> xs ! i = ys ! i"
  by (auto simp: prefix_def nth_append)

lemma prefix_pre_iff: "prefix (pre m k) (pre n k') \<longleftrightarrow> m \<le> n \<and> pre m k = pre m k'"
  by (auto simp: prefix_def pre_eq_iff) (metis append_take_drop_id length_pre take_pre min_absorb1
      append_eq_conv_conj pre_eq_iff le_add1 length_append)+

lemma pbit_to_mask:
  "n \<le> LENGTH('a::len) \<Longrightarrow> i < LENGTH('a) \<Longrightarrow> pbit (to_mask n :: 'a word) i \<longleftrightarrow> i < n"
  by (auto simp: pbit_def to_mask_def bit_simps)

lemma pbit_and: "pbit (a AND b) i \<longleftrightarrow> pbit a i \<and> pbit b i"
  by (simp add: pbit_def bit_simps)

lemma word_eq_pbit: "(a :: 'a::len word) = b \<longleftrightarrow> (\<forall>i<LENGTH('a). pbit a i = pbit b i)"
proof
  assume *: "\<forall>i<LENGTH('a). pbit a i = pbit b i"
  show "a = b"
  proof (rule bit_word_eqI)
    fix n assume "n < LENGTH('a)"
    with * have "pbit a (LENGTH('a) - 1 - n) = pbit b (LENGTH('a) - 1 - n)" by simp
    then show "bit a n = bit b n" using \<open>n < LENGTH('a)\<close> by (simp add: pbit_def)
  qed
qed simp

lemma masked_eq_iff [prefix_simps]:
  fixes a b :: "'a::len word"
  assumes "n \<le> LENGTH('a)"
  shows "a AND to_mask n = b AND to_mask n \<longleftrightarrow> pre n a = pre n b"
  using assms by (auto simp: word_eq_pbit pbit_and pbit_to_mask pre_eq_iff) (meson order_less_le_trans)+

lemma masked_self_iff [prefix_simps]:
  fixes a :: "'a::len word"
  assumes "n \<le> LENGTH('a)"
  shows "a AND to_mask n = a \<longleftrightarrow> (\<forall>i<LENGTH('a). n \<le> i \<longrightarrow> \<not> pbit a i)"
  using assms by (auto simp: word_eq_pbit pbit_and pbit_to_mask)

lemma pre_masked [prefix_simps]:
  fixes a :: "'a::len word"
  assumes "n \<le> m" "m \<le> LENGTH('a)"
  shows "pre n (a AND to_mask m) = pre n a"
  using assms by (auto simp: pre_eq_iff pbit_and pbit_to_mask)

lemma masked_masked [prefix_simps]: "(a AND to_mask m) AND to_mask m = a AND to_mask m"
  by (simp add: and.assoc)

lemma to_mask_inject [prefix_simps]:
  assumes "m \<le> LENGTH('a::len)" "n \<le> LENGTH('a)"
  shows "(to_mask m :: 'a word) = to_mask n \<longleftrightarrow> m = n"
proof
  assume eq: "(to_mask m :: 'a word) = to_mask n"
  have "pbit (to_mask m :: 'a word) i = (i < m)" "pbit (to_mask m :: 'a word) i = (i < n)"
    if "i < LENGTH('a)" for i
    using assms that eq pbit_to_mask by metis+
  then show "m = n" using assms
    by (metis less_irrefl linorder_neqE_nat order_less_le_trans)
qed simp

lemma to_mask_eq_max_iff [prefix_simps]:
  "n \<le> LENGTH('a::len) \<Longrightarrow> (to_mask n :: 'a word) = - 1 \<longleftrightarrow> n = LENGTH('a)"
  using to_mask_inject [of n "LENGTH('a)", where 'a = 'a] by (simp add: to_mask_def)

lemma next_bit_mask1_eq:
  assumes "n < LENGTH('a::len)"
  shows "(next_bit_mask1 n :: 'a word) = push_bit (LENGTH('a) - 1 - n) 1"
  using assms
  by (intro bit_word_eqI) (auto simp: next_bit_mask1_def bit_simps bit_1_iff mod_eq_0_iff_dvd
      dest: dvd_imp_le)

lemma next_bit_set_iff [prefix_simps]:
  fixes k :: "'a::len word"
  shows "n < LENGTH('a) \<Longrightarrow> k AND next_bit_mask1 n = 0 \<longleftrightarrow> \<not> pbit k n"
  by (simp add: next_bit_mask1_eq pbit_def and_exp_eq_0_iff_not_bit)

lemma leading_zeros_props:
  fixes w :: "'a::len word"
  shows "leading_zeros w \<le> LENGTH('a)" "i < leading_zeros w \<Longrightarrow> \<not> pbit w i"
    "leading_zeros w < LENGTH('a) \<Longrightarrow> pbit w (leading_zeros w)"
proof -
  let ?P = "\<lambda>i. \<not> bit w (LENGTH('a) - 1 - i)"
  show "leading_zeros w \<le> LENGTH('a)"
    using length_takeWhile_le [of ?P "[0..<LENGTH('a)]"] by (simp add: leading_zeros_def)
  show "\<not> pbit w i" if "i < leading_zeros w"
  proof -
    have "takeWhile ?P [0..<LENGTH('a)] ! i \<in> set (takeWhile ?P [0..<LENGTH('a)])"
      using that by (intro nth_mem) (simp add: leading_zeros_def)
    moreover have "takeWhile ?P [0..<LENGTH('a)] ! i = i"
      using that length_takeWhile_le [of ?P "[0..<LENGTH('a)]"]
      by (simp add: leading_zeros_def takeWhile_nth)
    ultimately show ?thesis by (auto simp: pbit_def dest: set_takeWhileD)
  qed
  show "pbit w (leading_zeros w)" if "leading_zeros w < LENGTH('a)"
    using nth_length_takeWhile [of ?P "[0..<LENGTH('a)]"] that
    by (simp add: leading_zeros_def pbit_def)
qed

lemma common_prefix_len_le:
  "common_prefix_len k1 l1 k2 l2 \<le> l1" "common_prefix_len k1 l1 k2 l2 \<le> l2"
  by (simp_all add: common_prefix_len_def)

lemma pbit_xor: "pbit (a XOR b) i \<longleftrightarrow> pbit a i \<noteq> pbit b i"
  by (simp add: pbit_def bit_simps)

lemma common_prefix_len_pre:
  "pre (common_prefix_len k1 l1 k2 l2) k1 = pre (common_prefix_len k1 l1 k2 l2) k2"
  using leading_zeros_props(2) [of _ "k1 XOR k2"] by (auto simp: pre_eq_iff common_prefix_len_def pbit_xor)

lemma common_prefix_len_max:
  fixes k1 k2 :: "'a::len word"
  assumes "common_prefix_len k1 l1 k2 l2 < l1" "common_prefix_len k1 l1 k2 l2 < l2" "l1 \<le> LENGTH('a)"
  shows "pbit k1 (common_prefix_len k1 l1 k2 l2) \<noteq> pbit k2 (common_prefix_len k1 l1 k2 l2)"
  using assms leading_zeros_props(3) [of "k1 XOR k2"]
  by (auto simp: common_prefix_len_def pbit_xor Let_def min_def split: if_splits)

end
