(* ===== verification/Lookup_Trie.thy ===== *)
theory Lookup_Trie
  imports Prefix_Bits
begin

text \<open>
  The Patricia trie of \<open>src/src/wireguard/ip_lookup_trie/mod.rs\<close>: \<open>TrieNode\<close> with
  \<open>insert\<close>, \<open>remove\<close>, \<open>longest_match\<close>, the structural checks of \<open>self_check\<close>, and the stack
  iterator. A trie node stands for a finite map from bit prefixes to values,
  \<open>node_entries\<close>; the lemmas show that insertion and removal are the update and deletion of
  that map, that both keep the checks of \<open>self_check\<close>, and that \<open>longest_match\<close> returns the
  value of the longest prefix of the address in the map.
\<close>

section \<open>The code\<close>

datatype ('k, 'v) trie_node =
  TrieNode (node_k: 'k) (node_len: nat) (node_left: "('k, 'v) trie_node option")
    (node_right: "('k, 'v) trie_node option") (node_value: "'v option")

text \<open>
  \<open>TrieNode::insert\<close>. The child is created by \<open>get_or_insert_with\<close> when it is missing; the
  recursive call on the fresh node replaces its value at once, which is what the measure says.
\<close>

function node_insert ::
  "('a::len word, 'v) trie_node \<Rightarrow> 'a word \<Rightarrow> nat \<Rightarrow> 'v \<Rightarrow> 'v option \<times> ('a word, 'v) trie_node" where
  "node_insert (TrieNode sk slen l r value) k k_len v =
     (let self_mask = to_mask slen in
      if slen = k_len \<and> sk AND self_mask = k AND self_mask then
        (value, TrieNode sk slen l r (Some v))
      else if k_len > slen \<and> k AND self_mask = sk AND self_mask then
        let next_bit_mask = next_bit_mask1 slen;
            to_right = k AND next_bit_mask \<noteq> 0;
            to_insert = (if to_right then r else l);
            child = (case to_insert of Some n \<Rightarrow> n | None \<Rightarrow> TrieNode k k_len None None None);
            result = node_insert child k k_len v
        in (fst result,
            if to_right then TrieNode sk slen l (Some (snd result)) value
            else TrieNode sk slen (Some (snd result)) r value)
      else
        let cpl = common_prefix_len sk slen k k_len;
            new_mask = to_mask cpl;
            old_self = TrieNode sk slen l r value;
            next_bit_mask = next_bit_mask1 cpl;
            old_self_next_bit_is_set = sk AND next_bit_mask \<noteq> 0;
            new_node_child = (if k_len \<noteq> cpl then Some (TrieNode k k_len None None (Some v)) else None);
            new_value = (if k_len \<noteq> cpl then None else Some v)
        in (None,
            if old_self_next_bit_is_set
            then TrieNode (sk AND new_mask) cpl new_node_child (Some old_self) new_value
            else TrieNode (sk AND new_mask) cpl (Some old_self) new_node_child new_value))"
  by pat_completeness auto
termination
  by (relation "measure (\<lambda>(n, k, k_len, v). case n of TrieNode sk slen l r value \<Rightarrow>
        if slen = k_len \<and> sk AND to_mask slen = k AND to_mask slen then 0 else Suc (size n))")
    (auto split: option.splits trie_node.splits if_splits)

function node_remove ::
  "('a::len word, 'v) trie_node \<Rightarrow> 'a word \<Rightarrow> nat \<Rightarrow> 'v option \<times> ('a word, 'v) trie_node option" where
  "node_remove (TrieNode sk slen l r value) k k_len =
     (let mask = to_mask k_len; self_mask = to_mask slen in
      if self_mask = mask \<and> sk AND mask = k AND mask then
        (value,
         if Option.is_none l then r
         else if Option.is_none r then l
         else Some (TrieNode sk slen l r None))
      else if k_len \<le> slen \<or> k AND self_mask \<noteq> sk AND self_mask then
        (None, Some (TrieNode sk slen l r value))
      else
        let nbm = next_bit_mask1 slen;
            nb_set = k AND nbm \<noteq> 0;
            child = (if nb_set then r else l);
            result_new = (case child of Some n \<Rightarrow> node_remove n k k_len | None \<Rightarrow> (None, None));
            result = fst result_new;
            l' = (if nb_set then l else snd result_new);
            r' = (if nb_set then snd result_new else r)
        in if Option.is_none value \<and> Option.is_none l' then (result, r')
           else if Option.is_none value \<and> Option.is_none r' then (result, l')
           else (result, Some (TrieNode sk slen l' r' value)))"
  by pat_completeness auto
termination
  by (relation "measure (\<lambda>(n, k, k_len). size n)") (auto split: if_splits)

text \<open>\<open>TrieNode::longest_match\<close>: the loop carries the best value found so far.\<close>

function longest_match_loop :: "('a::len word, 'v) trie_node \<Rightarrow> 'a word \<Rightarrow> 'v option \<Rightarrow> 'v option" where
  "longest_match_loop (TrieNode nk nlen l r value) k current_best =
     (let n_mask = to_mask nlen in
      if nk AND n_mask = k AND n_mask then
        let current_best = (if Option.is_none value then current_best else value) in
        if n_mask \<noteq> - 1 then
          let nbm = next_bit_mask1 nlen;
              nb_set = k AND nbm \<noteq> 0;
              next_node = (if nb_set then r else l)
          in (case next_node of
                Some next \<Rightarrow> longest_match_loop next k current_best
              | None \<Rightarrow> current_best)
        else current_best
      else current_best)"
  by pat_completeness auto
termination
  by (relation "measure (\<lambda>(n, k, b). size n)") (auto split: if_splits)

definition node_longest_match :: "('a::len word, 'v) trie_node \<Rightarrow> 'a word \<Rightarrow> 'v option" where
  "node_longest_match n k = longest_match_loop n k None"

declare node_insert.simps [simp del] node_remove.simps [simp del] longest_match_loop.simps [simp del]

text \<open>\<open>self_check\<close> and \<open>self_check_as_child\<close>; the error strings of the source are constructors.\<close>

datatype check_error =
  InvalidLen nat
| UnmaskedK
| OneChildNoValue
| ParentLen nat nat
| WrongChildPosition
| ParentNotPrefix

fun self_check :: "('a::len word, 'v) trie_node \<Rightarrow> check_error option"
  and self_check_as_child :: "('a word, 'v) trie_node option \<Rightarrow> 'a word \<Rightarrow> nat \<Rightarrow> bool \<Rightarrow> check_error option" where
  "self_check (TrieNode k len l r value) =
     (if len > LENGTH('a) then Some (InvalidLen len)
      else if k AND to_mask len \<noteq> k then Some UnmaskedK
      else if Option.is_none value \<and> (Option.is_none l \<or> Option.is_none r) then Some OneChildNoValue
      else case self_check_as_child l k len False of
             Some e \<Rightarrow> Some e
           | None \<Rightarrow> self_check_as_child r k len True)"
| "self_check_as_child None parent_k parent_len right_child = None"
| "self_check_as_child (Some n) parent_k parent_len right_child =
     (if parent_len \<ge> node_len n then Some (ParentLen parent_len (node_len n))
      else if (node_k n AND next_bit_mask1 parent_len \<noteq> 0) \<noteq> right_child then Some WrongChildPosition
      else if node_k n AND to_mask parent_len \<noteq> parent_k then Some ParentNotPrefix
      else self_check n)"

text \<open>\<open>Iter::next\<close> and \<open>IntoIter::next\<close>: a stack of nodes, popped from its end (here: its head).\<close>

function iter_next :: "('a::len word, 'v) trie_node list \<Rightarrow>
    ('a word \<times> nat \<times> 'v) option \<times> ('a word, 'v) trie_node list" where
  "iter_next [] = (None, [])"
| "iter_next (TrieNode k len l r value # nodes) =
     (let nodes1 = (case r of Some n \<Rightarrow> n # nodes | None \<Rightarrow> nodes);
          nodes2 = (case l of Some n \<Rightarrow> n # nodes1 | None \<Rightarrow> nodes1)
      in case value of
           Some t \<Rightarrow> (Some (k, len, t), nodes2)
         | None \<Rightarrow> iter_next nodes2)"
  by pat_completeness auto
termination
  by (relation "measure (\<lambda>nodes. sum_list (map size nodes))") (auto split: option.splits)

section \<open>The map a trie stands for\<close>

definition node_bits :: "('a::len word, 'v) trie_node \<Rightarrow> bool list" where
  "node_bits n = pre (node_len n) (node_k n)"

fun node_entries :: "('a::len word, 'v) trie_node \<Rightarrow> bool list \<Rightarrow> 'v option"
  and child_entries :: "('a word, 'v) trie_node option \<Rightarrow> bool list \<Rightarrow> 'v option" where
  "node_entries (TrieNode k len l r value) p =
     (if p = pre len k then value
      else if strict_prefix (pre len k) p
      then (if p ! len then child_entries r p else child_entries l p)
      else None)"
| "child_entries None p = None"
| "child_entries (Some n) p = node_entries n p"

text \<open>The structural invariant, over bit lists: each child extends its parent on the right side.\<close>

fun node_wf :: "('a::len word, 'v) trie_node \<Rightarrow> bool"
  and child_wf :: "bool list \<Rightarrow> ('a word, 'v) trie_node option \<Rightarrow> bool" where
  "node_wf (TrieNode k len l r value) \<longleftrightarrow>
     len \<le> LENGTH('a) \<and> k AND to_mask len = k \<and> (value = None \<longrightarrow> l \<noteq> None \<and> r \<noteq> None) \<and>
     child_wf (pre len k @ [False]) l \<and> child_wf (pre len k @ [True]) r"
| "child_wf q None \<longleftrightarrow> True"
| "child_wf q (Some n) \<longleftrightarrow> prefix q (node_bits n) \<and> node_wf n"

lemma node_entries_prefix: "node_entries n p \<noteq> None \<Longrightarrow> prefix (node_bits n) p"
  by (cases n) (auto simp: node_bits_def split: if_splits)

lemma child_entries_prefix: "child_wf q c \<Longrightarrow> child_entries c p \<noteq> None \<Longrightarrow> prefix q p"
  by (cases c) (auto simp del: node_entries.simps dest: node_entries_prefix [rotated -1] prefix_order.trans
      intro: prefix_order.trans [OF _ node_entries_prefix])

lemma child_wf_len: "child_wf q (Some n) \<Longrightarrow> length q \<le> node_len n \<and> node_len n \<le> LENGTH('a)"
  for n :: "('a::len word, 'v) trie_node"
  by (cases n) (auto simp: node_bits_def dest: prefix_length_le)

section \<open>Insertion\<close>

lemma fresh_entries [simp]: "node_entries (TrieNode k n None None None) = (\<lambda>_. None)"
  by auto

lemma strict_prefix_pre: "strict_prefix (pre m k) (pre n k') \<longleftrightarrow> m < n \<and> pre m k = pre m k'"
  by (auto simp: strict_prefix_def prefix_pre_iff le_less dest: pre_inject_len)

lemma strict_prefix_nth:
  "prefix (xs @ [b]) ys \<longleftrightarrow> strict_prefix xs ys \<and> ys ! length xs = b"
  by (auto simp: prefix_def strict_prefix_def nth_append neq_Nil_conv) (metis list.exhaust append_Nil2 nth_Cons_0)

text \<open>The three cases of \<open>insert\<close> over bit lists.\<close>

lemma node_insert_same:
  fixes sk k :: "'a::len word"
  assumes "slen \<le> LENGTH('a)" "pre slen sk = pre slen k"
  shows "node_insert (TrieNode sk slen l r value) k slen v = (value, TrieNode sk slen l r (Some v))"
  using assms by (simp add: node_insert.simps prefix_simps)

definition fresh_child :: "'a::len word \<Rightarrow> nat \<Rightarrow> ('a word, 'v) trie_node option \<Rightarrow> ('a word, 'v) trie_node" where
  "fresh_child k k_len c = (case c of Some n \<Rightarrow> n | None \<Rightarrow> TrieNode k k_len None None None)"

lemma node_insert_child:
  fixes sk k :: "'a::len word"
  assumes "slen < k_len" "k_len \<le> LENGTH('a)" "pre slen sk = pre slen k"
  shows "node_insert (TrieNode sk slen l r value) k k_len v =
    (if pbit k slen
     then let res = node_insert (fresh_child k k_len r) k k_len v
          in (fst res, TrieNode sk slen l (Some (snd res)) value)
     else let res = node_insert (fresh_child k k_len l) k k_len v
          in (fst res, TrieNode sk slen (Some (snd res)) r value))"
  using assms
  by (simp add: node_insert.simps [of sk slen] prefix_simps fresh_child_def Let_def cong: option.case_cong)

lemma node_insert_split:
  fixes sk k :: "'a::len word"
  assumes "slen \<le> LENGTH('a)" "k_len \<le> LENGTH('a)" "\<not> (slen \<le> k_len \<and> pre slen sk = pre slen k)"
    and c: "c = common_prefix_len sk slen k k_len"
  shows "node_insert (TrieNode sk slen l r value) k k_len v =
    (let new_node = (if k_len \<noteq> c then Some (TrieNode k k_len None None (Some v)) else None);
         new_value = (if k_len \<noteq> c then None else Some v);
         old = Some (TrieNode sk slen l r value)
     in (None, if pbit sk c then TrieNode (sk AND to_mask c) c new_node old new_value
               else TrieNode (sk AND to_mask c) c old new_node new_value))"
    and "c < slen" and "c \<le> k_len" and "pre c sk = pre c k"
    and "c < k_len \<Longrightarrow> pbit sk c \<noteq> pbit k c"
proof -
  have le: "c \<le> slen" "c \<le> k_len" and eq: "pre c sk = pre c k"
    using common_prefix_len_le common_prefix_len_pre by (auto simp: c)
  show lt: "c < slen" using assms(3) le eq by (metis le_neq_implies_less)
  show "c \<le> k_len" "pre c sk = pre c k" by fact+
  show "c < k_len \<Longrightarrow> pbit sk c \<noteq> pbit k c"
    using common_prefix_len_max [of sk slen k k_len] lt assms(1) by (simp add: c)
  have "c < LENGTH('a)" using lt assms(1) by simp
  then show "node_insert (TrieNode sk slen l r value) k k_len v =
    (let new_node = (if k_len \<noteq> c then Some (TrieNode k k_len None None (Some v)) else None);
         new_value = (if k_len \<noteq> c then None else Some v);
         old = Some (TrieNode sk slen l r value)
     in (None, if pbit sk c then TrieNode (sk AND to_mask c) c new_node old new_value
               else TrieNode (sk AND to_mask c) c old new_node new_value))"
    using assms(1-3)
    by (auto simp: node_insert.simps prefix_simps Let_def c [symmetric] le_less)
qed

lemma node_insert_fresh:
  fixes k :: "'a::len word"
  assumes "k_len \<le> LENGTH('a)"
  shows "node_insert (TrieNode k k_len None None None) k k_len v = (None, TrieNode k k_len None None (Some v))"
  using assms by (simp add: node_insert_same)

text \<open>
  What \<open>insert\<close> promises of a node: the old value, the updated map, the invariant, and every
  common prefix of the node and the new key kept.
\<close>

definition inserted ::
  "('a::len word, 'v) trie_node \<Rightarrow> 'a word \<Rightarrow> nat \<Rightarrow> 'v \<Rightarrow> 'v option \<times> ('a word, 'v) trie_node \<Rightarrow> bool" where
  "inserted n k k_len v res \<longleftrightarrow>
     fst res = node_entries n (pre k_len k) \<and>
     node_entries (snd res) = (node_entries n)(pre k_len k \<mapsto> v) \<and>
     node_wf (snd res) \<and>
     (\<forall>q. prefix q (node_bits n) \<longrightarrow> prefix q (pre k_len k) \<longrightarrow> prefix q (node_bits (snd res)))"

lemma inserted_fresh:
  fixes k :: "'a::len word"
  assumes "k_len \<le> LENGTH('a)" "k AND to_mask k_len = k"
  shows "inserted (TrieNode k k_len None None None) k k_len v
           (node_insert (TrieNode k k_len None None None) k k_len v)"
  using assms by (auto simp: inserted_def node_insert_fresh node_bits_def fun_eq_iff)

lemma child_entries_fresh: "node_entries (fresh_child k k_len c) = child_entries c"
  by (cases c) (auto simp: fresh_child_def)

lemma inserted_same:
  fixes sk k :: "'a::len word"
  assumes "node_wf (TrieNode sk slen l r vo)" "pre slen sk = pre slen k"
  shows "inserted (TrieNode sk slen l r vo) k slen v (node_insert (TrieNode sk slen l r vo) k slen v)"
  using assms by (auto simp: inserted_def node_insert_same node_bits_def fun_eq_iff)

lemma inserted_child:
  fixes sk k :: "'a::len word"
  assumes wf: "node_wf (TrieNode sk slen l r vo)" and lt: "slen < k_len" "k_len \<le> LENGTH('a)"
    and eq: "pre slen sk = pre slen k"
    and sub: "\<And>c. c = (if pbit k slen then r else l) \<Longrightarrow>
      inserted (fresh_child k k_len c) k k_len v (node_insert (fresh_child k k_len c) k k_len v)"
  shows "inserted (TrieNode sk slen l r vo) k k_len v (node_insert (TrieNode sk slen l r vo) k k_len v)"
proof -
  have strict: "strict_prefix (pre slen sk) (pre k_len k)"
    using lt eq by (simp add: strict_prefix_pre)
  define c where "c = (if pbit k slen then r else l)"
  define res where "res = node_insert (fresh_child k k_len c) k k_len v"
  have sub': "inserted (fresh_child k k_len c) k k_len v res"
    unfolding res_def by (rule sub) (rule c_def)
  have "prefix (pre slen sk @ [pbit k slen]) (pre k_len k)"
    using strict lt by (simp add: strict_prefix_nth)
  moreover have "prefix (pre slen sk @ [pbit k slen]) (node_bits (fresh_child k k_len c))"
    using wf calculation by (cases c) (auto simp: fresh_child_def c_def node_bits_def split: if_splits)
  ultimately have child: "child_wf (pre slen sk @ [pbit k slen]) (Some (snd res))"
    using sub' by (simp add: inserted_def)
  have ne: "pre k_len k \<noteq> pre slen sk" using lt by (metis length_pre nat_neq_iff)
  have nth: "pre k_len k ! slen = pbit k slen" using lt by simp
  have ent: "node_entries (snd res) = (child_entries c)(pre k_len k \<mapsto> v)"
    and old: "fst res = child_entries c (pre k_len k)"
    using sub' by (simp_all add: inserted_def child_entries_fresh)
  have step: "node_insert (TrieNode sk slen l r vo) k k_len v =
      (fst res, if pbit k slen then TrieNode sk slen l (Some (snd res)) vo
                else TrieNode sk slen (Some (snd res)) r vo)"
    by (simp add: node_insert_child [OF lt eq] Let_def res_def c_def)
  show ?thesis
    using child wf strict ne nth
    by (auto simp: inserted_def step ent old c_def node_bits_def fun_eq_iff)
qed

lemma inserted_split:
  fixes sk k :: "'a::len word"
  assumes wf: "node_wf (TrieNode sk slen l r vo)" and k: "k_len \<le> LENGTH('a)" "k AND to_mask k_len = k"
    and ns: "\<not> (slen \<le> k_len \<and> pre slen sk = pre slen k)"
  shows "inserted (TrieNode sk slen l r vo) k k_len v (node_insert (TrieNode sk slen l r vo) k k_len v)"
proof -
  define n0 where "n0 = TrieNode sk slen l r vo"
  have bits0: "node_bits n0 = pre slen sk" and wf0: "node_wf n0"
    using wf by (simp_all add: n0_def node_bits_def)
  define c where "c = common_prefix_len sk slen k k_len"
  have slen: "slen \<le> LENGTH('a)" using wf by simp
  note split = node_insert_split [OF slen k(1) ns c_def]
  have c: "c < slen" "c \<le> k_len" "pre c sk = pre c k" and c_bit: "c < k_len \<Longrightarrow> pbit sk c \<noteq> pbit k c"
    using split(2-5) by auto
  define nn where "nn = (if k_len \<noteq> c then Some (TrieNode k k_len None None (Some v)) else None)"
  define nv where "nv = (if k_len \<noteq> c then None else Some v)"
  define n' where "n' = (if pbit sk c then TrieNode (sk AND to_mask c) c nn (Some n0) nv
               else TrieNode (sk AND to_mask c) c (Some n0) nn nv)"
  have step: "node_insert n0 k k_len v = (None, n')"
    unfolding n0_def n'_def nn_def nv_def split(1) Let_def by (rule refl)
  have bits: "pre c (sk AND to_mask c) = pre c sk"
    using c slen by (intro pre_masked) auto
  have old_side: "prefix (pre c sk @ [pbit sk c]) (node_bits n0)"
    using c by (simp add: bits0 strict_prefix_nth strict_prefix_pre)
  have new_side: "prefix (pre c sk @ [\<not> pbit sk c]) (pre k_len k)" if "k_len \<noteq> c"
    using c c_bit that by (simp add: strict_prefix_nth strict_prefix_pre)
  have n'_entries: "node_entries n' p =
      (if p = pre c sk then nv
       else if strict_prefix (pre c sk) p
       then (if p ! c = pbit sk c then node_entries n0 p else child_entries nn p)
       else None)" for p
    unfolding n'_def
    by (simp only: node_entries.simps(1) [of "sk AND to_mask c"] bits child_entries.simps split: if_split) auto
  have n_entries: "strict_prefix (pre c sk) p \<and> p ! c = pbit sk c" if "node_entries n0 p \<noteq> None" for p
    using prefix_order.trans [OF old_side node_entries_prefix [OF that]]
    by (simp add: strict_prefix_nth)
  have key: "prefix (pre c sk) (pre k_len k)" using c by (simp add: prefix_pre_iff)
  have key_nth: "pre k_len k ! c \<noteq> pbit sk c" if "strict_prefix (pre c sk) (pre k_len k)"
    using that c_bit by (auto simp: strict_prefix_pre)
  have entries: "node_entries n' p = ((node_entries n0)(pre k_len k \<mapsto> v)) p" for p
  proof (cases "p = pre k_len k")
    case True
    then show ?thesis
      using key key_nth c n'_entries [of p]
      by (auto simp: nv_def nn_def strict_prefix_def dest: pre_inject_len)
  next
    case False
    then have "child_entries nn p = None" "p = pre c sk \<Longrightarrow> nv = None"
      using c by (auto simp: nn_def nv_def strict_prefix_def)
    with False show ?thesis
      unfolding n'_entries [of p] using n_entries [of p]
      by (cases "node_entries n0 p") (auto simp: strict_prefix_def)
  qed
  have none: "node_entries n0 (pre k_len k) = None"
    using ns node_entries_prefix [of n0 "pre k_len k"] by (metis bits0 prefix_pre_iff)
  have wf': "node_wf n'"
  proof -
    have "child_wf (pre c sk @ [\<not> pbit sk c]) nn" "nv = None \<longrightarrow> nn \<noteq> None"
      using new_side k by (auto simp: nn_def nv_def node_bits_def)
    moreover have "child_wf (pre c sk @ [pbit sk c]) (Some n0)"
      using old_side wf0 by simp
    ultimately show ?thesis
      using c(1) slen bits
      by (cases "pbit sk c") (auto simp del: child_wf.simps simp: n'_def masked_masked)
  qed
  have pre': "prefix q (node_bits n')" if "prefix q (node_bits n0)" "prefix q (pre k_len k)" for q
  proof (rule ccontr)
    assume "\<not> prefix q (node_bits n')"
    then have q: "\<not> prefix q (pre c sk)" using bits by (simp add: n'_def node_bits_def split: if_splits)
    have "prefix (pre c sk) (node_bits n0)" using old_side by (rule append_prefixD)
    then have sp: "strict_prefix (pre c sk) q"
      using q that(1) by (auto simp: strict_prefix_def dest: prefix_same_cases)
    have lens: "c < length q" "length q \<le> slen" "length q \<le> k_len"
      using sp that prefix_length_less [OF sp] by (auto simp: bits0 dest: prefix_length_le)
    have "q ! c = pbit sk c" "q ! c = pbit k c"
      using prefix_nth [OF that(1) lens(1)] prefix_nth [OF that(2) lens(1)] lens
      by (simp_all add: bits0)
    then show False using c_bit lens by simp
  qed
  show ?thesis
    unfolding inserted_def n0_def [symmetric] step fst_conv snd_conv
    using none wf' pre' by (intro conjI ext allI impI entries) simp_all
qed

text \<open>Insertion of a masked key into a well-formed node is the update of its map.\<close>

lemma node_insert_inserted:
  fixes n :: "('a::len word, 'v) trie_node"
  assumes "node_wf n" and k: "k_len \<le> LENGTH('a)" "k AND to_mask k_len = k"
  shows "inserted n k k_len v (node_insert n k k_len v)"
  using assms(1)
proof (induction n rule: measure_induct_rule [of size])
  case (less n)
  obtain sk slen l r vo where n: "n = TrieNode sk slen l r vo" by (cases n)
  consider "slen = k_len" "pre slen sk = pre slen k" | "slen < k_len" "pre slen sk = pre slen k"
    | "\<not> (slen \<le> k_len \<and> pre slen sk = pre slen k)"
    by fastforce
  then show ?case
  proof cases
    case 1
    then show ?thesis using less.prems by (simp only: n) (metis inserted_same)
  next
    case 2
    have "inserted (fresh_child k k_len c) k k_len v (node_insert (fresh_child k k_len c) k k_len v)"
      if "c = (if pbit k slen then r else l)" for c
    proof (cases c)
      case None
      then show ?thesis using k by (simp add: fresh_child_def inserted_fresh)
    next
      case (Some m)
      then have "size m < size n" "node_wf m"
        using that less.prems by (auto simp: n split: if_splits)
      with less.IH [of m] Some show ?thesis by (simp add: fresh_child_def)
    qed
    then show ?thesis unfolding n
      using less.prems 2 k by (intro inserted_child) (simp_all add: n)
  next
    case 3
    then show ?thesis unfolding n using less.prems k by (intro inserted_split) (simp_all add: n)
  qed
qed

section \<open>Removal\<close>

text \<open>
  What \<open>remove\<close> promises: the old value, the map without the key, the invariant of what is left,
  and every prefix of the node's bits kept; no node is left exactly when the map is empty.
\<close>

definition removed ::
  "('a::len word, 'v) trie_node \<Rightarrow> bool list \<Rightarrow> 'v option \<times> ('a word, 'v) trie_node option \<Rightarrow> bool" where
  "removed n p res \<longleftrightarrow>
     fst res = node_entries n p \<and>
     child_entries (snd res) = (node_entries n)(p := None) \<and>
     child_wf (node_bits n) (snd res)"

lemma child_wf_prefix: "prefix q q' \<Longrightarrow> child_wf q' c \<Longrightarrow> child_wf q c"
  by (cases c) (auto intro: prefix_order.trans)

lemma child_entries_None: "child_wf q c \<Longrightarrow> \<not> prefix q p \<Longrightarrow> child_entries c p = None"
  using child_entries_prefix by fastforce

lemma child_entries_short: "child_wf q c \<Longrightarrow> length p < length q \<Longrightarrow> child_entries c p = None"
  using child_entries_None prefix_length_le leD by metis

text \<open>A node left with one child and no value is replaced by that child; the map is the same.\<close>

definition collapse :: "'a::len word \<Rightarrow> nat \<Rightarrow> ('a word, 'v) trie_node option \<Rightarrow> ('a word, 'v) trie_node option
    \<Rightarrow> 'v option \<Rightarrow> ('a word, 'v) trie_node option" where
  "collapse k len l r value =
     (if Option.is_none value \<and> Option.is_none l then r
      else if Option.is_none value \<and> Option.is_none r then l
      else Some (TrieNode k len l r value))"

lemma collapse_correct:
  fixes k :: "'a::len word"
  assumes "child_wf (pre len k @ [False]) l" "child_wf (pre len k @ [True]) r"
    and "len \<le> LENGTH('a)" "k AND to_mask len = k"
  shows "child_entries (collapse k len l r value) = node_entries (TrieNode k len l r value)"
    and "child_wf (pre len k) (collapse k len l r value)"
proof -
  have "child_entries l p = None" if "\<not> (strict_prefix (pre len k) p \<and> \<not> p ! len)" for p
    using that child_entries_None [OF assms(1), of p] by (simp add: strict_prefix_nth)
  moreover have "child_entries r p = None" if "\<not> (strict_prefix (pre len k) p \<and> p ! len)" for p
    using that child_entries_None [OF assms(2), of p] by (simp add: strict_prefix_nth)
  ultimately show "child_entries (collapse k len l r value) = node_entries (TrieNode k len l r value)"
    by (auto simp: collapse_def fun_eq_iff Option.is_none_def)
  have "child_wf (pre len k) l" "child_wf (pre len k) r"
    using child_wf_prefix [OF _ assms(1), of "pre len k"] child_wf_prefix [OF _ assms(2), of "pre len k"]
    by simp_all
  then show "child_wf (pre len k) (collapse k len l r value)"
    using assms by (auto simp: collapse_def node_bits_def Option.is_none_def)
qed

lemma node_remove_cases:
  fixes sk k :: "'a::len word"
  assumes "slen \<le> LENGTH('a)" "k_len \<le> LENGTH('a)"
  shows "node_remove (TrieNode sk slen l r vo) k k_len =
    (if slen = k_len \<and> pre slen sk = pre slen k then (vo, collapse sk slen l r None)
     else if k_len \<le> slen \<or> pre slen sk \<noteq> pre slen k then (None, Some (TrieNode sk slen l r vo))
     else let c = (if pbit k slen then r else l);
              res = (case c of Some n \<Rightarrow> node_remove n k k_len | None \<Rightarrow> (None, None))
          in (fst res, if pbit k slen then collapse sk slen l (snd res) vo
                       else collapse sk slen (snd res) r vo))"
proof -
  have same: "(to_mask slen :: 'a word) = to_mask k_len \<and> sk AND to_mask k_len = k AND to_mask k_len
      \<longleftrightarrow> slen = k_len \<and> pre slen sk = pre slen k"
    using assms by (auto simp: prefix_simps)
  have absent: "k AND to_mask slen \<noteq> sk AND to_mask slen \<longleftrightarrow> pre slen sk \<noteq> pre slen k"
    using assms by (auto simp: prefix_simps)
  have bit: "k AND next_bit_mask1 slen \<noteq> 0 \<longleftrightarrow> pbit k slen" if "slen < k_len"
    using assms that by (simp add: prefix_simps)
  show ?thesis
    unfolding node_remove.simps [of sk slen] Let_def same absent
    by (cases "slen = k_len \<and> pre slen sk = pre slen k"; cases "slen < k_len")
      (auto simp: bit collapse_def)
qed

lemma node_remove_removed:
  fixes n :: "('a::len word, 'v) trie_node"
  assumes "node_wf n" and k: "k_len \<le> LENGTH('a)"
  shows "removed n (pre k_len k) (node_remove n k k_len)"
  using assms(1)
proof (induction n rule: measure_induct_rule [of size])
  case (less n)
  obtain sk slen l r vo where n: "n = TrieNode sk slen l r vo" by (cases n)
  have wf: "child_wf (pre slen sk @ [False]) l" "child_wf (pre slen sk @ [True]) r"
    "slen \<le> LENGTH('a)" "sk AND to_mask slen = sk"
    using less.prems by (simp_all add: n)
  note step = node_remove_cases [OF wf(3) k, of sk l r vo k]
  consider (same) "slen = k_len" "pre slen sk = pre slen k"
    | (absent) "\<not> (slen \<le> k_len \<and> pre slen sk = pre slen k)"
    | (child) "slen < k_len" "pre slen sk = pre slen k"
    by fastforce
  then show ?case
  proof cases
    case same
    have "node_remove n k k_len = (vo, collapse sk slen l r None)"
      unfolding n step using same by simp
    then show ?thesis
      using same collapse_correct [OF wf, of None]
      by (auto simp: removed_def n node_bits_def fun_eq_iff)
  next
    case absent
    then have "node_remove n k k_len = (None, Some n)"
      by (auto simp: n step)
    moreover have "node_entries n (pre k_len k) = None"
      using absent node_entries_prefix [of n "pre k_len k"]
      by (metis n node_bits_def prefix_pre_iff trie_node.sel(1,2))
    ultimately show ?thesis using less.prems by (auto simp: removed_def)
  next
    case child
    define c where "c = (if pbit k slen then r else l)"
    define res where "res = (case c of Some m \<Rightarrow> node_remove m k k_len | None \<Rightarrow> (None, None))"
    have c_wf: "child_wf (pre slen sk @ [pbit k slen]) c" using wf by (simp add: c_def)
    have res: "fst res = child_entries c (pre k_len k)"
      "child_entries (snd res) = (child_entries c)(pre k_len k := None)"
      "child_wf (pre slen sk @ [pbit k slen]) (snd res)"
    proof -
      have "removed m (pre k_len k) res" if "c = Some m" for m
        using less.IH [of m] less.prems that by (auto simp: n c_def res_def split: if_splits)
      then show "fst res = child_entries c (pre k_len k)"
        "child_entries (snd res) = (child_entries c)(pre k_len k := None)"
        "child_wf (pre slen sk @ [pbit k slen]) (snd res)"
        using c_wf
        by (cases c; auto simp: removed_def res_def fun_eq_iff intro: child_wf_prefix)+
    qed
    have rem: "node_remove n k k_len = (fst res,
        if pbit k slen then collapse sk slen l (snd res) vo else collapse sk slen (snd res) r vo)"
      using child by (simp add: n step c_def res_def Let_def)
    have key: "strict_prefix (pre slen sk) (pre k_len k)" "pre k_len k ! slen = pbit k slen"
      "pre k_len k \<noteq> pre slen sk"
      using child by (auto simp: strict_prefix_pre dest: pre_inject_len)
    show ?thesis
    proof (cases "pbit k slen")
      case True
      then show ?thesis
        unfolding removed_def rem
        using res key wf collapse_correct [of slen sk l "snd res" vo]
        by (auto simp: c_def n node_bits_def fun_eq_iff)
    next
      case False
      then show ?thesis
        unfolding removed_def rem
        using res key wf collapse_correct [of slen sk "snd res" r vo]
        by (auto simp: c_def n node_bits_def fun_eq_iff)
    qed
  qed
qed

section \<open>Longest prefix match\<close>

text \<open>
  The specification: of the entries for the prefixes of \<open>k\<close> no longer than \<open>n\<close> bits, the value of
  the longest.
\<close>

fun lpm :: "(bool list \<Rightarrow> 'v option) \<Rightarrow> 'a::len word \<Rightarrow> nat \<Rightarrow> 'v option" where
  "lpm m k 0 = m []"
| "lpm m k (Suc n) = (case m (pre (Suc n) k) of Some v \<Rightarrow> Some v | None \<Rightarrow> lpm m k n)"

lemma lpm_None_iff: "lpm m k n = None \<longleftrightarrow> (\<forall>i\<le>n. m (pre i k) = None)"
  by (induction n) (auto simp: le_Suc_eq split: option.splits)

lemma lpm_Some_iff:
  "lpm m k n = Some v \<longleftrightarrow>
     (\<exists>i\<le>n. m (pre i k) = Some v \<and> (\<forall>j\<le>n. i < j \<longrightarrow> m (pre j k) = None))"
proof (induction n)
  case (Suc n)
  then show ?case
    by (cases "m (pre (Suc n) k)") (force simp: le_Suc_eq)+
qed auto

lemma lpm_cong: "(\<And>i. i \<le> n \<Longrightarrow> m (pre i k) = m' (pre i k)) \<Longrightarrow> lpm m k n = lpm m' k n"
  by (induction n) (auto split: option.splits)

text \<open>Below a node whose bits are a prefix of the address, the child on its side decides.\<close>

lemma lpm_node:
  assumes "child_wf (pre nlen nk @ [pbit k nlen]) c" and "pre nlen nk = pre nlen k" and "nlen \<le> n"
    and c: "c = (if pbit k nlen then r else l)"
  shows "lpm (node_entries (TrieNode nk nlen l r vo)) k n =
    (case lpm (child_entries c) k n of Some v \<Rightarrow> Some v | None \<Rightarrow> vo)"
  using assms(3)
proof (induction n rule: dec_induct)
  case base
  have "lpm (child_entries c) k nlen = None"
    using child_entries_short [OF assms(1)] by (simp add: lpm_None_iff)
  moreover have "lpm (node_entries (TrieNode nk nlen l r vo)) k nlen = vo"
  proof (cases nlen)
    case (Suc m)
    have "lpm (node_entries (TrieNode nk nlen l r vo)) k m = None"
      using Suc by (auto simp: lpm_None_iff strict_prefix_pre dest: pre_inject_len)
    then show ?thesis using Suc assms(2) by (auto simp del: lpm.simps simp: lpm.simps(2) split: option.splits)
  qed simp
  ultimately show ?case by (simp only: option.case)
next
  case (step n)
  have "strict_prefix (pre nlen nk) (pre (Suc n) k)" "pre (Suc n) k \<noteq> pre nlen nk"
    using step(1) assms(2) by (auto simp: strict_prefix_pre dest: pre_inject_len)
  then have "node_entries (TrieNode nk nlen l r vo) (pre (Suc n) k) = child_entries c (pre (Suc n) k)"
    using step(1) by (simp add: c)
  then show ?case using step by (simp only: lpm.simps(2)) (simp split: option.splits)
qed

lemma longest_match_loop_correct:
  fixes n :: "('a::len word, 'v) trie_node"
  assumes "node_wf n"
  shows "longest_match_loop n k best =
    (case lpm (node_entries n) k LENGTH('a) of Some v \<Rightarrow> Some v | None \<Rightarrow> best)"
  using assms
proof (induction n arbitrary: best rule: measure_induct_rule [of size])
  case (less n)
  obtain nk nlen l r vo where n: "n = TrieNode nk nlen l r vo" by (cases n)
  have nlen: "nlen \<le> LENGTH('a)" using less.prems by (simp add: n)
  define c where "c = (if pbit k nlen then r else l)"
  have c_wf: "child_wf (pre nlen nk @ [pbit k nlen]) c" using less.prems by (simp add: n c_def)
  show ?case
  proof (cases "pre nlen nk = pre nlen k")
    case False
    then have "node_entries n (pre i k) = None" for i
      using node_entries_prefix [of n "pre i k"]
      by (metis n node_bits_def prefix_pre_iff trie_node.sel(1,2))
    then have "lpm (node_entries n) k LENGTH('a) = None" by (simp add: lpm_None_iff)
    moreover have "longest_match_loop n k best = best"
      using False nlen by (simp add: n longest_match_loop.simps prefix_simps)
    ultimately show ?thesis by simp
  next
    case True
    note lpm = lpm_node [OF c_wf True nlen c_def, of vo]
    define best' where "best' = (if Option.is_none vo then best else vo)"
    have best': "(case vo of Some v \<Rightarrow> Some v | None \<Rightarrow> best) = best'"
      by (cases vo) (simp_all add: best'_def)
    show ?thesis
    proof (cases "nlen = LENGTH('a)")
      case full: True
      have "lpm (child_entries c) k LENGTH('a) = None"
        using child_entries_short [OF c_wf] full by (simp add: lpm_None_iff)
      moreover have "longest_match_loop n k best = best'"
        using True full by (simp add: n longest_match_loop.simps prefix_simps best'_def)
      ultimately show ?thesis using lpm best' by (simp only: n option.case)
    next
      case False
      then have "longest_match_loop n k best =
          (case c of Some m \<Rightarrow> longest_match_loop m k best' | None \<Rightarrow> best')"
        using True nlen
        by (simp add: n longest_match_loop.simps [of nk] prefix_simps best'_def c_def Let_def cong: option.case_cong)
      also have "\<dots> = (case lpm (child_entries c) k LENGTH('a) of Some v \<Rightarrow> Some v | None \<Rightarrow> best')"
      proof (cases c)
        case None
        then have "lpm (child_entries c) k LENGTH('a) = None" by (simp add: lpm_None_iff)
        with None show ?thesis by simp
      next
        case (Some m)
        then have "size m < size n" "node_wf m"
          using c_wf by (auto simp: n c_def split: if_splits)
        moreover have "child_entries c = node_entries m" using Some by (simp add: fun_eq_iff)
        ultimately show ?thesis using less.IH [of m best'] Some by simp
      qed
      finally show ?thesis using best' by (simp only: n lpm) (auto split: option.splits)
    qed
  qed
qed

section \<open>The structural checks\<close>

lemma masked_eq_parent_iff:
  fixes pk k :: "'a::len word"
  assumes "plen \<le> LENGTH('a)" "pk AND to_mask plen = pk"
  shows "k AND to_mask plen = pk \<longleftrightarrow> pre plen pk = pre plen k"
  using assms masked_eq_iff [of plen k pk] by auto

lemma self_check_as_child_iff:
  fixes pk :: "'a::len word"
  assumes "plen \<le> LENGTH('a)" "pk AND to_mask plen = pk" and len: "node_len n \<le> LENGTH('a)"
  shows "self_check_as_child (Some n) pk plen b = None \<longleftrightarrow>
     prefix (pre plen pk @ [b]) (node_bits n) \<and> self_check n = None"
  using assms by (auto simp: strict_prefix_nth strict_prefix_pre node_bits_def prefix_simps masked_eq_parent_iff)

lemma self_check_len: "self_check n = None \<Longrightarrow> node_len n \<le> LENGTH('a)"
  for n :: "('a::len word, 'v) trie_node"
  by (cases n) (auto split: if_splits)

lemma node_wf_len: "node_wf n \<Longrightarrow> node_len n \<le> LENGTH('a)"
  for n :: "('a::len word, 'v) trie_node"
  by (cases n) simp

lemma self_check_as_child_len: "self_check_as_child (Some n) pk plen b = None \<Longrightarrow> node_len n \<le> LENGTH('a)"
  for n :: "('a::len word, 'v) trie_node"
  by (auto dest: self_check_len split: if_splits)

text \<open>The checks of the code are the invariant of the proofs.\<close>

lemma self_check_iff: "self_check n = None \<longleftrightarrow> node_wf n"
  for n :: "('a::len word, 'v) trie_node"
proof (induction n rule: measure_induct_rule [of size])
  case (less n)
  obtain k len l r vo where n: "n = TrieNode k len l r vo" by (cases n)
  have child: "self_check_as_child c k len b = None \<longleftrightarrow> child_wf (pre len k @ [b]) c"
    if "c \<in> {l, r}" "len \<le> LENGTH('a)" "k AND to_mask len = k" for c b
  proof (cases c)
    case (Some m)
    then have IH: "self_check m = None \<longleftrightarrow> node_wf m"
      using that less.IH [of m] by (auto simp: n)
    show ?thesis
    proof (cases "node_len m \<le> LENGTH('a)")
      case True
      then show ?thesis
        by (simp only: Some child_wf.simps self_check_as_child_iff [OF that(2,3) True] IH)
    next
      case False
      then show ?thesis using self_check_as_child_len node_wf_len
        by (metis Some child_wf.simps(2))
    qed
  qed simp
  have "self_check_as_child l k len False = None \<longleftrightarrow> child_wf (pre len k @ [False]) l"
    "self_check_as_child r k len True = None \<longleftrightarrow> child_wf (pre len k @ [True]) r"
    if "len \<le> LENGTH('a)" "k AND to_mask len = k"
    using child that by simp_all
  then show ?case
    by (auto simp: n Option.is_none_def split: option.splits if_splits)
qed

section \<open>Iteration\<close>

fun node_items :: "('a::len word, 'v) trie_node \<Rightarrow> ('a word \<times> nat \<times> 'v) list"
  and child_items :: "('a word, 'v) trie_node option \<Rightarrow> ('a word \<times> nat \<times> 'v) list" where
  "node_items (TrieNode k len l r value) =
     (case value of Some t \<Rightarrow> [(k, len, t)] | None \<Rightarrow> []) @ child_items l @ child_items r"
| "child_items None = []"
| "child_items (Some n) = node_items n"

lemma iter_next_items:
  "concat (map node_items nodes) =
     (case iter_next nodes of (None, _) \<Rightarrow> [] | (Some i, nodes') \<Rightarrow> i # concat (map node_items nodes'))"
  by (induction nodes rule: iter_next.induct) (auto simp: Let_def split: option.splits)

lemma iter_next_size:
  "iter_next nodes = (Some i, nodes') \<Longrightarrow> sum_list (map size nodes') < sum_list (map size nodes)"
proof (induction nodes rule: iter_next.induct)
  case (2 k len l r vo nodes)
  show ?case using "2.prems" "2.IH" [OF refl refl]
    by (cases vo; cases l; cases r) (auto simp: less_SucI)
qed simp

text \<open>A \<open>for\<close> loop over the iterator: \<open>next\<close> until it returns nothing.\<close>

function iter_collect :: "('a::len word, 'v) trie_node list \<Rightarrow> ('a word \<times> nat \<times> 'v) list" where
  "iter_collect nodes =
     (case iter_next nodes of (None, _) \<Rightarrow> [] | (Some i, nodes') \<Rightarrow> i # iter_collect nodes')"
  by pat_completeness auto
termination
  by (relation "measure (\<lambda>nodes. sum_list (map size nodes))") (auto dest: iter_next_size [OF sym])

declare iter_collect.simps [simp del]

lemma iter_collect_items: "iter_collect nodes = concat (map node_items nodes)"
  by (induction nodes rule: iter_collect.induct)
    (subst iter_collect.simps, subst iter_next_items, auto split: prod.splits option.splits)

lemma node_items_entries:
  "node_wf n \<Longrightarrow> (k, len, v) \<in> set (node_items n) \<Longrightarrow>
     len \<le> LENGTH('a) \<and> k AND to_mask len = k \<and> node_entries n (pre len k) = Some v"
  "child_wf q c \<Longrightarrow> (k, len, v) \<in> set (child_items c) \<Longrightarrow>
     len \<le> LENGTH('a) \<and> k AND to_mask len = k \<and> child_entries c (pre len k) = Some v"
  for n :: "('a::len word, 'v) trie_node" and c :: "('a word, 'v) trie_node option"
proof (induction n and c arbitrary: and q rule: node_items_child_items.induct)
  case (1 nk nlen l r vo)
  have child: ?case
    if "child_wf (pre nlen nk @ [b]) c" "child_entries c (pre len k) = Some v" "c = (if b then r else l)"
      "len \<le> LENGTH('a)" "k AND to_mask len = k" for b c
  proof -
    have "prefix (pre nlen nk @ [b]) (pre len k)" using that child_entries_prefix by fastforce
    then show ?thesis using that by (auto simp: strict_prefix_nth strict_prefix_def)
  qed
  from 1 consider "vo = Some v" "nk = k" "nlen = len" | "(k, len, v) \<in> set (child_items l)"
    | "(k, len, v) \<in> set (child_items r)"
    by (auto split: option.splits)
  then show ?case
  proof cases
    case 1
    then show ?thesis using "1.prems" by simp
  next
    case 2
    then show ?thesis using "1.IH"(1) "1.prems"(1) by (intro child [of False l]) auto
  next
    case 3
    then show ?thesis using "1.IH"(2) "1.prems"(1) by (intro child [of True r]) auto
  qed
qed auto

lemma node_entries_items:
  "node_wf n \<Longrightarrow> node_entries n p = Some v \<Longrightarrow> \<exists>k len. (k, len, v) \<in> set (node_items n) \<and> p = pre len k"
  "child_wf q c \<Longrightarrow> child_entries c p = Some v \<Longrightarrow> \<exists>k len. (k, len, v) \<in> set (child_items c) \<and> p = pre len k"
  for n :: "('a::len word, 'v) trie_node" and c :: "('a word, 'v) trie_node option"
  by (induction n p and c p arbitrary: and q rule: node_entries_child_entries.induct)
    (fastforce split: if_splits option.splits)+

text \<open>The iterator yields every entry of the map once.\<close>

lemma node_items_distinct:
  "node_wf n \<Longrightarrow> distinct (map (\<lambda>(k, len, v). pre len k) (node_items n))"
  "child_wf q c \<Longrightarrow> distinct (map (\<lambda>(k, len, v). pre len k) (child_items c))"
  for n :: "('a::len word, 'v) trie_node" and c :: "('a word, 'v) trie_node option"
proof (induction n and c arbitrary: and q rule: node_items_child_items.induct)
  case (1 nk nlen l r vo)
  have below: "strict_prefix (pre nlen nk) (pre len k) \<and> pre len k ! nlen = b"
    if "(k, len, v) \<in> set (child_items c)" "child_wf (pre nlen nk @ [b]) c" for k len v b c
    using node_items_entries(2) [OF that(2,1)] child_entries_prefix [OF that(2), of "pre len k"]
    by (simp add: strict_prefix_nth)
  show ?case
    using 1 below [of _ _ _ l False] below [of _ _ _ r True]
    by (fastforce split: option.splits)
qed auto

end
