(* ===== verification/Lookup_Table.thy ===== *)
theory Lookup_Table
  imports Lookup_Trie "HOL-Library.Mapping"
begin

text \<open>
  The routing tables. \<open>IpLookupTable\<close> of \<open>src/src/wireguard/ip_lookup_trie/mod.rs\<close> is the root
  of a Patricia trie; the table of \<open>src/src/wireguard/ip_lookup_trie/simple.rs\<close>, which the tests of
  the repository compare it with, is a vector of hash maps sorted by prefix length. Both are
  instances of the interface \<open>prefix_table\<close>: a finite map from bit prefixes to values with
  longest-prefix lookup. An address is the integer it converts to (\<open>Address::into_integer\<close>): a
  word of 32 bits for IPv4, 128 for IPv6. A \<open>None\<close> result of \<open>insert\<close> or \<open>remove\<close> is a panic.
\<close>

section \<open>The trie table\<close>

record ('k, 'v) ip_lookup_table =
  lt_root :: "('k, 'v) trie_node option"

definition address_masked :: "'a::len word \<Rightarrow> nat \<Rightarrow> 'a word" where
  "address_masked a prefix_len = (let mask = to_mask prefix_len in a AND mask)"

definition table_new :: "('a::len word, 'v) ip_lookup_table" where
  "table_new = \<lparr>lt_root = None\<rparr>"

definition table_insert :: "('a::len word, 'v) ip_lookup_table \<Rightarrow> 'a word \<Rightarrow> nat \<Rightarrow> 'v \<Rightarrow>
    ('v option \<times> ('a word, 'v) ip_lookup_table) option" where
  "table_insert self addr prefix_len t =
     (if prefix_len \<le> LENGTH('a) then
        let k = addr AND to_mask prefix_len in
        (case lt_root self of
           None \<Rightarrow> Some (None, \<lparr>lt_root = Some (TrieNode k prefix_len None None (Some t))\<rparr>)
         | Some n \<Rightarrow> let (result, n') = node_insert n k prefix_len t
                     in Some (result, \<lparr>lt_root = Some n'\<rparr>))
      else None)"

definition table_remove :: "('a::len word, 'v) ip_lookup_table \<Rightarrow> 'a word \<Rightarrow> nat \<Rightarrow>
    ('v option \<times> ('a word, 'v) ip_lookup_table) option" where
  "table_remove self addr prefix_len =
     (if prefix_len \<le> LENGTH('a) then
        (case lt_root self of
           Some r \<Rightarrow> let (result, new_root) = node_remove r addr prefix_len
                     in Some (result, \<lparr>lt_root = new_root\<rparr>)
         | None \<Rightarrow> Some (None, self))
      else None)"

definition table_longest_match :: "('a::len word, 'v) ip_lookup_table \<Rightarrow> 'a word \<Rightarrow> 'v option" where
  "table_longest_match self addr =
     (case lt_root self of None \<Rightarrow> None | Some n \<Rightarrow> node_longest_match n addr)"

definition table_is_empty :: "('a::len word, 'v) ip_lookup_table \<Rightarrow> bool" where
  "table_is_empty self = Option.is_none (lt_root self)"

definition table_self_check :: "('a::len word, 'v) ip_lookup_table \<Rightarrow> check_error option" where
  "table_self_check self = (case lt_root self of Some n \<Rightarrow> self_check n | None \<Rightarrow> None)"

definition table_iter :: "('a::len word, 'v) ip_lookup_table \<Rightarrow> ('a word \<times> nat \<times> 'v) list" where
  "table_iter self = iter_collect (case lt_root self of None \<Rightarrow> [] | Some n \<Rightarrow> [n])"

fun table_extend :: "('a::len word, 'v) ip_lookup_table \<Rightarrow> ('a word \<times> nat \<times> 'v) list \<Rightarrow>
    ('a word, 'v) ip_lookup_table option" where
  "table_extend t [] = Some t"
| "table_extend t ((a, l, v) # iter) =
     (case table_insert t a l v of None \<Rightarrow> None | Some (_, t') \<Rightarrow> table_extend t' iter)"

definition table_from_iter :: "('a::len word \<times> nat \<times> 'v) list \<Rightarrow> ('a word, 'v) ip_lookup_table option" where
  "table_from_iter iter = table_extend table_new iter"

section \<open>The table of hash maps\<close>

text \<open>
  \<open>[T]::binary_search_by_key\<close> on a sorted vector without duplicate keys: \<open>Inr i\<close> for \<open>Ok(i)\<close>, the
  position of the key, and \<open>Inl i\<close> for \<open>Err(i)\<close>, the position that keeps the vector sorted.
\<close>

definition binary_search :: "nat list \<Rightarrow> nat \<Rightarrow> nat + nat" where
  "binary_search ks x =
     (let i = length (takeWhile (\<lambda>k. k < x) ks)
      in if i < length ks \<and> ks ! i = x then Inr i else Inl i)"

record ('k, 'v) simple_table =
  st_vec :: "(nat \<times> ('k, 'v) mapping) list"

definition simple_new :: "('a::len word, 'v) simple_table" where
  "simple_new = \<lparr>st_vec = []\<rparr>"

definition mask_with_prefix :: "'a::len word \<Rightarrow> nat \<Rightarrow> 'a word option" where
  "mask_with_prefix a plen =
     (if plen = 0 then Some (a AND 0)
      else if plen \<le> LENGTH('a) then Some (a AND push_bit (LENGTH('a) - plen) (NOT 0))
      else None)"

definition simple_insert :: "('a::len word, 'v) simple_table \<Rightarrow> 'a word \<Rightarrow> nat \<Rightarrow> 'v \<Rightarrow>
    ('v option \<times> ('a word, 'v) simple_table) option" where
  "simple_insert self a plen t =
     (case mask_with_prefix a plen of
        None \<Rightarrow> None
      | Some masked \<Rightarrow>
          let vec = st_vec self;
              (i, vec1) = (case binary_search (map fst vec) plen of
                 Inr i \<Rightarrow> (i, vec)
               | Inl i \<Rightarrow> (i, take i vec @ (plen, Mapping.empty) # drop i vec));
              table = snd (vec1 ! i)
          in Some (Mapping.lookup table masked,
                   \<lparr>st_vec = vec1[i := (fst (vec1 ! i), Mapping.update masked t table)]\<rparr>))"

fun simple_search :: "(nat \<times> ('a::len word, 'v) mapping) list \<Rightarrow> 'a word \<Rightarrow> 'v option" where
  "simple_search [] a = None"
| "simple_search ((plen, table) # vec) a =
     (case (case mask_with_prefix a plen of Some m \<Rightarrow> Mapping.lookup table m | None \<Rightarrow> None) of
        Some x \<Rightarrow> Some x
      | None \<Rightarrow> simple_search vec a)"

definition simple_longest_match :: "('a::len word, 'v) simple_table \<Rightarrow> 'a word \<Rightarrow> 'v option" where
  "simple_longest_match self a = simple_search (rev (st_vec self)) a"

definition simple_remove :: "('a::len word, 'v) simple_table \<Rightarrow> 'a word \<Rightarrow> nat \<Rightarrow>
    ('v option \<times> ('a word, 'v) simple_table) option" where
  "simple_remove self a plen =
     (let vec = st_vec self in
      case binary_search (map fst vec) plen of
        Inr i \<Rightarrow>
          (case mask_with_prefix a plen of
             None \<Rightarrow> None
           | Some masked \<Rightarrow>
               let t = snd (vec ! i);
                   result = Mapping.lookup t masked;
                   t' = Mapping.delete masked t
               in Some (result,
                    if Mapping.is_empty t' then \<lparr>st_vec = take i vec @ drop (Suc i) vec\<rparr>
                    else \<lparr>st_vec = vec[i := (fst (vec ! i), t')]\<rparr>))
      | Inl i \<Rightarrow> Some (None, self))"

section \<open>The interface\<close>

datatype ('k, 'v) table_op = OpInsert 'k nat 'v | OpRemove 'k nat | OpLongestMatch 'k

text \<open>A client of a table: a sequence of operations, and the result of each (\<open>None\<close> a panic).\<close>

fun run_table :: "('t \<Rightarrow> 'k \<Rightarrow> nat \<Rightarrow> 'v \<Rightarrow> ('v option \<times> 't) option) \<Rightarrow>
    ('t \<Rightarrow> 'k \<Rightarrow> nat \<Rightarrow> ('v option \<times> 't) option) \<Rightarrow> ('t \<Rightarrow> 'k \<Rightarrow> 'v option) \<Rightarrow>
    't \<Rightarrow> ('k, 'v) table_op list \<Rightarrow> 'v option list option" where
  "run_table ins rem look t [] = Some []"
| "run_table ins rem look t (OpInsert k n v # ops) =
     (case ins t k n v of None \<Rightarrow> None
      | Some (r, t') \<Rightarrow> map_option ((#) r) (run_table ins rem look t' ops))"
| "run_table ins rem look t (OpRemove k n # ops) =
     (case rem t k n of None \<Rightarrow> None
      | Some (r, t') \<Rightarrow> map_option ((#) r) (run_table ins rem look t' ops))"
| "run_table ins rem look t (OpLongestMatch k # ops) =
     map_option ((#) (look t k)) (run_table ins rem look t ops)"

fun op_len :: "('k, 'v) table_op \<Rightarrow> nat" where
  "op_len (OpInsert k n v) = n"
| "op_len (OpRemove k n) = n"
| "op_len (OpLongestMatch k) = 0"

text \<open>The same client over the specification: a finite map from bit prefixes.\<close>

fun run_map :: "(bool list \<Rightarrow> 'v option) \<Rightarrow> ('a::len word, 'v) table_op list \<Rightarrow> 'v option list" where
  "run_map m [] = []"
| "run_map m (OpInsert k n v # ops) = m (pre n k) # run_map (m(pre n k \<mapsto> v)) ops"
| "run_map m (OpRemove k n # ops) = m (pre n k) # run_map (m(pre n k := None)) ops"
| "run_map m (OpLongestMatch k # ops) = lpm m k LENGTH('a) # run_map m ops"

locale prefix_table =
  fixes inv :: "'t \<Rightarrow> bool"
    and entries :: "'t \<Rightarrow> bool list \<Rightarrow> 'v option"
    and new :: 't
    and ins :: "'t \<Rightarrow> 'a::len word \<Rightarrow> nat \<Rightarrow> 'v \<Rightarrow> ('v option \<times> 't) option"
    and rem :: "'t \<Rightarrow> 'a word \<Rightarrow> nat \<Rightarrow> ('v option \<times> 't) option"
    and look :: "'t \<Rightarrow> 'a word \<Rightarrow> 'v option"
  assumes new: "inv new" "entries new = (\<lambda>_. None)"
    and ins: "inv t \<Longrightarrow> n \<le> LENGTH('a) \<Longrightarrow>
      \<exists>t'. ins t k n v = Some (entries t (pre n k), t') \<and> inv t' \<and> entries t' = (entries t)(pre n k \<mapsto> v)"
    and rem: "inv t \<Longrightarrow> n \<le> LENGTH('a) \<Longrightarrow>
      \<exists>t'. rem t k n = Some (entries t (pre n k), t') \<and> inv t' \<and> entries t' = (entries t)(pre n k := None)"
    and look: "inv t \<Longrightarrow> look t k = lpm (entries t) k LENGTH('a)"
begin

lemma run_refines:
  "inv t \<Longrightarrow> \<forall>x \<in> set ops. op_len x \<le> LENGTH('a) \<Longrightarrow>
     run_table ins rem look t ops = Some (run_map (entries t) ops)"
proof (induction ops arbitrary: t)
  case (Cons x ops)
  show ?case
  proof (cases x)
    case (OpInsert k n v)
    then obtain t' where "ins t k n v = Some (entries t (pre n k), t')" "inv t'"
      "entries t' = (entries t)(pre n k \<mapsto> v)"
      using ins [of t n k v] Cons.prems by auto
    then show ?thesis using Cons OpInsert by simp
  next
    case (OpRemove k n)
    then obtain t' where "rem t k n = Some (entries t (pre n k), t')" "inv t'"
      "entries t' = (entries t)(pre n k := None)"
      using rem [of t n k] Cons.prems by auto
    then show ?thesis using Cons OpRemove by simp
  next
    case (OpLongestMatch k)
    then show ?thesis using Cons look by simp
  qed
qed simp

lemma run_new:
  "\<forall>x \<in> set ops. op_len x \<le> LENGTH('a) \<Longrightarrow>
     run_table ins rem look new ops = Some (run_map (\<lambda>_. None) ops)"
  using run_refines [OF new(1)] new(2) by simp

end

section \<open>The trie table as a prefix table\<close>

definition table_wf :: "('a::len word, 'v) ip_lookup_table \<Rightarrow> bool" where
  "table_wf t \<longleftrightarrow> child_wf [] (lt_root t)"

definition table_entries :: "('a::len word, 'v) ip_lookup_table \<Rightarrow> bool list \<Rightarrow> 'v option" where
  "table_entries t = child_entries (lt_root t)"

lemma table_self_check_iff: "table_self_check t = None \<longleftrightarrow> table_wf t"
  by (cases "lt_root t") (simp_all add: table_self_check_def table_wf_def self_check_iff)

lemma table_insert_correct:
  fixes t :: "('a::len word, 'v) ip_lookup_table"
  assumes "table_wf t" "n \<le> LENGTH('a)"
  shows "\<exists>t'. table_insert t k n v = Some (table_entries t (pre n k), t') \<and> table_wf t' \<and>
    table_entries t' = (table_entries t)(pre n k \<mapsto> v)"
proof (cases "lt_root t")
  case None
  then show ?thesis
    using assms by (auto simp: table_insert_def table_wf_def table_entries_def prefix_simps fun_eq_iff)
next
  case (Some r)
  have bits: "pre n (k AND to_mask n) = pre n k" using assms(2) by (simp add: pre_masked)
  have "inserted r (k AND to_mask n) n v (node_insert r (k AND to_mask n) n v)"
    using assms Some by (intro node_insert_inserted) (simp_all add: table_wf_def masked_masked)
  then show ?thesis
    using assms(2) Some
    by (cases "node_insert r (k AND to_mask n) n v")
      (auto simp: table_insert_def table_wf_def table_entries_def inserted_def bits fun_eq_iff)
qed

lemma table_remove_correct:
  fixes t :: "('a::len word, 'v) ip_lookup_table"
  assumes "table_wf t" "n \<le> LENGTH('a)"
  shows "\<exists>t'. table_remove t k n = Some (table_entries t (pre n k), t') \<and> table_wf t' \<and>
    table_entries t' = (table_entries t)(pre n k := None)"
proof (cases "lt_root t")
  case None
  then show ?thesis
    using assms by (simp add: table_remove_def table_wf_def table_entries_def fun_eq_iff)
next
  case (Some r)
  have "removed r (pre n k) (node_remove r k n)"
    using assms Some by (intro node_remove_removed) (simp_all add: table_wf_def)
  then show ?thesis
    using assms(2) Some child_wf_prefix [of "[]"]
    by (cases "node_remove r k n")
      (auto simp: table_remove_def table_wf_def table_entries_def removed_def fun_eq_iff)
qed

lemma table_longest_match_correct:
  fixes t :: "('a::len word, 'v) ip_lookup_table"
  assumes "table_wf t"
  shows "table_longest_match t k = lpm (table_entries t) k LENGTH('a)"
proof (cases "lt_root t")
  case None
  then have "lpm (table_entries t) k LENGTH('a) = None" by (simp add: lpm_None_iff table_entries_def)
  with None show ?thesis by (simp add: table_longest_match_def)
next
  case (Some r)
  have "child_entries (Some r) = node_entries r" by (simp add: fun_eq_iff)
  then show ?thesis
    using assms longest_match_loop_correct [of r k None] Some
    by (simp add: table_longest_match_def node_longest_match_def table_entries_def table_wf_def
        split: option.splits)
qed

interpretation trie: prefix_table table_wf table_entries table_new table_insert table_remove table_longest_match
proof
  show "table_wf table_new" "table_entries table_new = (\<lambda>_. None)"
    by (simp_all add: table_new_def table_wf_def table_entries_def fun_eq_iff)
qed (simp_all add: table_insert_correct table_remove_correct table_longest_match_correct)

section \<open>The table of hash maps as a prefix table\<close>

text \<open>The masked address with a given list of leading bits.\<close>

definition bits_key :: "bool list \<Rightarrow> 'a::len word" where
  "bits_key p = push_bit (LENGTH('a) - length p) (horner_sum of_bool 2 (rev p))"

lemma pbit_bits_key:
  "length p \<le> LENGTH('a::len) \<Longrightarrow> i < LENGTH('a) \<Longrightarrow> pbit (bits_key p :: 'a word) i \<longleftrightarrow> i < length p \<and> p ! i"
  by (auto simp: pbit_def bits_key_def bit_simps bit_horner_sum_bit_word_iff rev_nth Suc_diff_Suc)

lemma bits_key_pre: "n \<le> LENGTH('a) \<Longrightarrow> bits_key (pre n k) = k AND to_mask n" for k :: "'a::len word"
  by (auto simp: word_eq_pbit pbit_bits_key pbit_and pbit_to_mask)

lemma pre_bits_key: "length p = n \<Longrightarrow> n \<le> LENGTH('a) \<Longrightarrow> pre n (bits_key p :: 'a::len word) = p"
  by (rule nth_equalityI) (auto simp: pbit_bits_key)

lemma mask_with_prefix_eq:
  "mask_with_prefix a n = (if n \<le> LENGTH('a) then Some (a AND to_mask n) else None)" for a :: "'a::len word"
  by (auto simp: mask_with_prefix_def to_mask_def)

definition simple_wf :: "('a::len word, 'v) simple_table \<Rightarrow> bool" where
  "simple_wf t \<longleftrightarrow> sorted_wrt (<) (map fst (st_vec t)) \<and> (\<forall>n\<in>fst ` set (st_vec t). n \<le> LENGTH('a))"

definition vec_entries :: "(nat \<times> ('a::len word, 'v) mapping) list \<Rightarrow> bool list \<Rightarrow> 'v option" where
  "vec_entries vec p =
     (case map_of vec (length p) of None \<Rightarrow> None
      | Some m \<Rightarrow> if length p \<le> LENGTH('a) then Mapping.lookup m (bits_key p) else None)"

lemma vec_entries_pre:
  "n \<le> LENGTH('a) \<Longrightarrow> vec_entries vec (pre n a) =
     (case map_of vec n of None \<Rightarrow> None | Some m \<Rightarrow> Mapping.lookup m (a AND to_mask n))"
  for a :: "'a::len word"
  by (simp add: vec_entries_def bits_key_pre split: option.split)

text \<open>A sorted vector split at the place of a key.\<close>

lemma binary_search_split:
  assumes "sorted_wrt (<) (map fst vec)"
  obtains (found) ys m zs where "vec = ys @ (x, m) # zs" "binary_search (map fst vec) x = Inr (length ys)"
      "\<forall>n\<in>fst ` set ys. n < x" "\<forall>n\<in>fst ` set zs. x < n"
  | (missing) ys zs where "vec = ys @ zs" "binary_search (map fst vec) x = Inl (length ys)"
      "\<forall>n\<in>fst ` set ys. n < x" "\<forall>n\<in>fst ` set zs. x < n"
proof -
  define ys where "ys = takeWhile (\<lambda>e. fst e < x) vec"
  define zs where "zs = dropWhile (\<lambda>e. fst e < x) vec"
  have vec: "vec = ys @ zs" by (simp add: ys_def zs_def)
  have len: "length (takeWhile (\<lambda>k. k < x) (map fst vec)) = length ys"
    by (simp add: ys_def takeWhile_map comp_def)
  have ys: "\<forall>n\<in>fst ` set ys. n < x" by (auto simp: ys_def dest: set_takeWhileD)
  show ?thesis
  proof (cases zs)
    case Nil
    then show ?thesis using missing [of ys zs] vec len ys by (auto simp: binary_search_def)
  next
    case (Cons e zs')
    then have "\<not> fst e < x" using hd_dropWhile [of "\<lambda>e. fst e < x" vec] by (simp add: zs_def)
    moreover have "\<forall>n\<in>fst ` set zs'. fst e < n"
      using assms vec Cons by (auto simp: sorted_wrt_append)
    ultimately show ?thesis
      using found [of ys "snd e" zs'] missing [of ys zs] vec len ys Cons
      by (cases "fst e = x") (force simp: binary_search_def nth_append)+
  qed
qed

lemma map_of_split:
  fixes x :: nat
  assumes "\<forall>n\<in>fst ` set ys. n < x" "\<forall>n\<in>fst ` set zs. x < n"
  shows "map_of (ys @ zs) x = None" "map_of (ys @ (x, m) # zs) = (map_of (ys @ zs))(x \<mapsto> m)"
proof -
  have "x \<notin> fst ` set ys" "x \<notin> fst ` set zs"
    using bspec [OF assms(1), of x] bspec [OF assms(2), of x] by blast+
  then have "x \<notin> fst ` set (ys @ zs)" by auto
  then show "map_of (ys @ zs) x = None" by (metis map_of_eq_None_iff)
  have "map_of ys x = None" using assms by (auto simp: map_of_eq_None_iff)
  then show "map_of (ys @ (x, m) # zs) = (map_of (ys @ zs))(x \<mapsto> m)"
    by (auto simp: fun_eq_iff map_add_def split: option.splits)
qed

lemma simple_wf_split:
  "simple_wf (\<lparr>st_vec = ys @ (x, m) # zs\<rparr> :: ('a::len word, 'v) simple_table) \<longleftrightarrow>
     simple_wf (\<lparr>st_vec = ys @ zs\<rparr> :: ('a word, 'v) simple_table) \<and> x \<le> LENGTH('a) \<and>
     (\<forall>n\<in>fst ` set ys. n < x) \<and> (\<forall>n\<in>fst ` set zs. x < n)"
  by (auto simp: simple_wf_def sorted_wrt_append)

lemma vec_entries_update:
  fixes k :: "'a::len word"
  assumes "n \<le> LENGTH('a)" "map_of vec n = Some m"
    and "map_of vec' = (map_of vec)(n \<mapsto> m')"
    and "Mapping.lookup m' = (Mapping.lookup m)(k AND to_mask n := vo)"
  shows "vec_entries vec' = (vec_entries vec)(pre n k := vo)"
proof
  fix p
  have "bits_key p \<noteq> k AND to_mask n" if "length p = n" "p \<noteq> pre n k"
    using that assms(1) by (metis bits_key_pre length_pre pre_bits_key pre_masked order_refl)
  then show "vec_entries vec' p = ((vec_entries vec)(pre n k := vo)) p"
    using assms by (auto simp: vec_entries_def bits_key_pre split: option.splits)
qed

lemma simple_insert_correct:
  fixes t :: "('a::len word, 'v) simple_table"
  assumes wf: "simple_wf t" and n: "n \<le> LENGTH('a)"
  shows "\<exists>t'. simple_insert t k n v = Some (vec_entries (st_vec t) (pre n k), t') \<and> simple_wf t' \<and>
    vec_entries (st_vec t') = (vec_entries (st_vec t))(pre n k \<mapsto> v)"
proof -
  have sorted: "sorted_wrt (<) (map fst (st_vec t))" using wf by (simp add: simple_wf_def)
  have upd: "Mapping.lookup (Mapping.update key v m) = (Mapping.lookup m)(key := Some v)"
    for key and m :: "('a word, 'v) mapping"
    by (auto simp: fun_eq_iff lookup_update')
  from sorted show ?thesis
  proof (cases rule: binary_search_split [where x = n])
    case (found ys m zs)
    define vec' where "vec' = ys @ (n, Mapping.update (k AND to_mask n) v m) # zs"
    have m: "map_of (st_vec t) n = Some m" "map_of vec' = (map_of (st_vec t))(n \<mapsto> Mapping.update (k AND to_mask n) v m)"
      unfolding vec'_def using map_of_split [OF found(3,4)] found(1) by (simp_all del: map_of_append)
    have "simple_insert t k n v = Some (vec_entries (st_vec t) (pre n k), \<lparr>st_vec = vec'\<rparr>)"
      using found n m
      by (simp add: simple_insert_def mask_with_prefix_eq vec_entries_pre vec'_def nth_append list_update_append)
    moreover have "simple_wf \<lparr>st_vec = vec'\<rparr>"
      using wf n found unfolding vec'_def simple_wf_split by (simp add: simple_wf_def sorted_wrt_append)
    moreover have "vec_entries vec' = (vec_entries (st_vec t))(pre n k \<mapsto> v)"
      by (rule vec_entries_update [OF n m upd])
    ultimately show ?thesis by simp
  next
    case (missing ys zs)
    define m' where "m' = Mapping.update (k AND to_mask n) v Mapping.empty"
    define vec' where "vec' = ys @ (n, m') # zs"
    have m: "map_of (st_vec t) n = None" "map_of vec' = (map_of (st_vec t))(n \<mapsto> m')"
      unfolding vec'_def using map_of_split [OF missing(3,4)] missing(1) by (simp_all del: map_of_append)
    have "vec_entries (st_vec t) (pre n k) = None" using n m(1) by (simp add: vec_entries_pre)
    then have "simple_insert t k n v = Some (vec_entries (st_vec t) (pre n k), \<lparr>st_vec = vec'\<rparr>)"
      using missing n
      by (simp add: simple_insert_def mask_with_prefix_eq vec'_def m'_def nth_append list_update_append
          lookup_empty)
    moreover have "simple_wf \<lparr>st_vec = vec'\<rparr>"
      using wf n missing unfolding vec'_def simple_wf_split by (simp add: simple_wf_def)
    moreover have "vec_entries vec' = (vec_entries (st_vec t))(pre n k \<mapsto> v)"
    proof -
      define vec0 where "vec0 = ys @ (n, Mapping.empty) # zs"
      have m0: "map_of vec0 = (map_of (st_vec t))(n \<mapsto> Mapping.empty)"
        unfolding vec0_def using map_of_split [OF missing(3,4)] missing(1) by (simp del: map_of_append)
      then have "vec_entries vec0 = vec_entries (st_vec t)"
        using m(1) by (auto simp: fun_eq_iff vec_entries_def lookup_empty split: option.splits)
      moreover have "vec_entries vec' = (vec_entries vec0)(pre n k \<mapsto> v)"
        using m m0 by (intro vec_entries_update [OF n _ _ upd]) (auto simp: m'_def)
      ultimately show ?thesis by simp
    qed
    ultimately show ?thesis by simp
  qed
qed

lemma simple_remove_correct:
  fixes t :: "('a::len word, 'v) simple_table"
  assumes wf: "simple_wf t" and n: "n \<le> LENGTH('a)"
  shows "\<exists>t'. simple_remove t k n = Some (vec_entries (st_vec t) (pre n k), t') \<and> simple_wf t' \<and>
    vec_entries (st_vec t') = (vec_entries (st_vec t))(pre n k := None)"
proof -
  have sorted: "sorted_wrt (<) (map fst (st_vec t))" using wf by (simp add: simple_wf_def)
  have del: "Mapping.lookup (Mapping.delete key m) = (Mapping.lookup m)(key := None)"
    for key and m :: "('a word, 'v) mapping"
    by transfer (simp add: fun_eq_iff)
  from sorted show ?thesis
  proof (cases rule: binary_search_split [where x = n])
    case (found ys m zs)
    define m' where "m' = Mapping.delete (k AND to_mask n) m"
    define vec' where "vec' = ys @ (n, m') # zs"
    have m: "map_of (st_vec t) n = Some m" "map_of vec' = (map_of (st_vec t))(n \<mapsto> m')"
      and m0: "map_of (ys @ zs) n = None" "map_of vec' = (map_of (ys @ zs))(n \<mapsto> m')"
      unfolding vec'_def using map_of_split [OF found(3,4)] found(1) by (simp_all del: map_of_append)
    have run: "simple_remove t k n = Some (vec_entries (st_vec t) (pre n k),
        \<lparr>st_vec = if Mapping.is_empty m' then ys @ zs else vec'\<rparr>)"
      using found n m
      by (simp add: simple_remove_def mask_with_prefix_eq vec_entries_pre vec'_def m'_def
          nth_append list_update_append)
    have "simple_wf \<lparr>st_vec = if Mapping.is_empty m' then ys @ zs else vec'\<rparr>"
      using wf n found unfolding vec'_def by (auto simp: simple_wf_def sorted_wrt_append)
    moreover have vec': "vec_entries vec' = (vec_entries (st_vec t))(pre n k := None)"
      by (rule vec_entries_update [OF n m]) (simp add: m'_def del)
    moreover have "vec_entries (ys @ zs) = vec_entries vec'" if "Mapping.is_empty m'"
    proof -
      have "Mapping.lookup m' = (\<lambda>_. None)"
        using that by (simp add: Mapping.is_empty_def keys_dom_lookup)
      then show ?thesis
        using m0 by (auto simp: fun_eq_iff vec_entries_def split: option.splits)
    qed
    ultimately show ?thesis using run by auto
  next
    case (missing ys zs)
    have "map_of (st_vec t) n = None"
      using map_of_split [OF missing(3,4)] missing(1) by (simp del: map_of_append)
    then have none: "vec_entries (st_vec t) (pre n k) = None" using n by (simp add: vec_entries_pre)
    have "simple_remove t k n = Some (None, t)"
      using missing by (simp add: simple_remove_def)
    then show ?thesis using none wf by (auto simp: fun_eq_iff)
  qed
qed

lemma simple_search_correct:
  fixes a :: "'a::len word"
  assumes "sorted_wrt (>) (map fst vec)" "\<forall>p\<in>fst ` set vec. p \<le> LENGTH('a)"
  shows "simple_search vec a = lpm (vec_entries vec) a LENGTH('a)"
  using assms
proof (induction vec)
  case Nil
  show ?case by (rule sym) (simp add: lpm_None_iff vec_entries_def)
next
  case (Cons e vec)
  obtain p m where e: "e = (p, m)" by (cases e)
  have p: "p \<le> LENGTH('a)" and rest: "\<forall>q\<in>fst ` set vec. q < p" using Cons.prems by (auto simp: e)
  have other: "vec_entries (e # vec) (pre i a) = vec_entries vec (pre i a)" if "i \<noteq> p" "i \<le> LENGTH('a)" for i
    using that by (simp add: e vec_entries_pre)
  have none: "vec_entries vec (pre i a) = None" if "p \<le> i" "i \<le> LENGTH('a)" for i
  proof -
    have "i \<notin> fst ` set vec" using rest that by auto
    then have "map_of vec i = None" by (simp only: map_of_eq_None_iff simp_thms)
    then show ?thesis using that by (simp add: vec_entries_pre)
  qed
  have IH: "simple_search vec a = lpm (vec_entries vec) a LENGTH('a)" using Cons by simp
  show ?case
  proof (cases "Mapping.lookup m (a AND to_mask p)")
    case None
    have "lpm (vec_entries (e # vec)) a LENGTH('a) = lpm (vec_entries vec) a LENGTH('a)"
      using other none [of p] None p by (intro lpm_cong) (auto simp: e vec_entries_pre)
    with None IH p show ?thesis by (simp add: e mask_with_prefix_eq)
  next
    case (Some v)
    have "lpm (vec_entries (e # vec)) a LENGTH('a) = Some v"
      unfolding lpm_Some_iff using p Some other none
      by (intro exI [of _ p]) (auto simp: e vec_entries_pre)
    with Some p show ?thesis by (simp add: e mask_with_prefix_eq)
  qed
qed

lemma vec_entries_rev: "sorted_wrt (<) (map fst vec) \<Longrightarrow> vec_entries (rev vec) = vec_entries vec"
proof -
  assume "sorted_wrt (<) (map fst vec)"
  then have "distinct (map fst vec)" by (metis strict_sorted_iff)
  then have "map_of (rev vec) = map_of vec"
    by (intro map_of_eqI ballI) (auto simp: rev_map [symmetric] map_of_eq_Some_iff)
  then show ?thesis by (simp add: vec_entries_def fun_eq_iff)
qed

lemma simple_longest_match_correct:
  fixes t :: "('a::len word, 'v) simple_table"
  assumes "simple_wf t"
  shows "simple_longest_match t a = lpm (vec_entries (st_vec t)) a LENGTH('a)"
  using assms simple_search_correct [of "rev (st_vec t)" a]
  by (simp add: simple_longest_match_def simple_wf_def vec_entries_rev rev_map [symmetric] sorted_wrt_rev)

interpretation simple: prefix_table simple_wf "\<lambda>t. vec_entries (st_vec t)" simple_new
  simple_insert simple_remove simple_longest_match
proof
  show "simple_wf simple_new" "vec_entries (st_vec simple_new) = (\<lambda>_. None)"
    by (simp_all add: simple_new_def simple_wf_def vec_entries_def fun_eq_iff)
qed (simp_all add: simple_insert_correct simple_remove_correct simple_longest_match_correct)

section \<open>What the tables promise\<close>

lemma node_items_iff:
  fixes n :: "('a::len word, 'v) trie_node"
  assumes "node_wf n"
  shows "(k, len, v) \<in> set (node_items n) \<longleftrightarrow>
    len \<le> LENGTH('a) \<and> k AND to_mask len = k \<and> node_entries n (pre len k) = Some v"
proof
  assume "(k, len, v) \<in> set (node_items n)"
  then show "len \<le> LENGTH('a) \<and> k AND to_mask len = k \<and> node_entries n (pre len k) = Some v"
    using node_items_entries(1) [OF assms] by simp
next
  assume *: "len \<le> LENGTH('a) \<and> k AND to_mask len = k \<and> node_entries n (pre len k) = Some v"
  then obtain k' len' where i: "(k', len', v) \<in> set (node_items n)" "pre len k = pre len' k'"
    using node_entries_items(1) [OF assms, of "pre len k" v] by blast
  then have "len' = len" using pre_inject_len by metis
  moreover have "k' = k"
    using * i node_items_entries(1) [OF assms i(1)] \<open>len' = len\<close> masked_eq_iff [of len k k'] by metis
  ultimately show "(k, len, v) \<in> set (node_items n)" using i by simp
qed

lemma table_iter_iff:
  fixes t :: "('a::len word, 'v) ip_lookup_table"
  assumes "table_wf t"
  shows "(k, len, v) \<in> set (table_iter t) \<longleftrightarrow>
    len \<le> LENGTH('a) \<and> k AND to_mask len = k \<and> table_entries t (pre len k) = Some v"
  using assms node_items_iff
  by (cases "lt_root t") (simp_all add: table_wf_def table_iter_def table_entries_def iter_collect_items)

lemma table_iter_distinct: "table_wf t \<Longrightarrow> distinct (map (\<lambda>(k, len, v). pre len k) (table_iter t))"
  using node_items_distinct(1)
  by (cases "lt_root t") (simp_all add: table_wf_def table_iter_def iter_collect_items)

lemma table_empty_iff: "table_wf t \<Longrightarrow> table_is_empty t \<longleftrightarrow> table_iter t = []"
proof (cases "lt_root t")
  case (Some n)
  have "node_items n \<noteq> []" if "node_wf n" for n :: "('a word, 'b) trie_node"
    using that
  proof (induction n rule: measure_induct_rule [of size])
    case (less n)
    obtain k len l r vo where n: "n = TrieNode k len l r vo" by (cases n)
    show ?case
    proof (cases vo)
      case None
      then obtain m where "l = Some m" "node_wf m" using less.prems by (auto simp: n)
      then show ?thesis using less.IH [of m] by (simp add: n)
    qed (simp add: n)
  qed
  moreover assume "table_wf t"
  ultimately show ?thesis
    using Some by (simp add: table_wf_def table_is_empty_def table_iter_def iter_collect_items)
qed (simp add: table_is_empty_def table_iter_def iter_collect_items)

text \<open>
  C15: A table that passes \<open>self_check\<close> answers \<open>longest_match\<close> with the value of the stored prefix
  that contains the address and is longest: the entries are those its iterator yields.
\<close>

theorem longest_match_longest:
  fixes t :: "('a::len word, 'v) ip_lookup_table"
  assumes "table_self_check t = None"
  shows "table_longest_match t a = Some v \<longleftrightarrow>
    (\<exists>k len. (k, len, v) \<in> set (table_iter t) \<and> address_masked a len = k \<and>
       (\<forall>(k', len', v') \<in> set (table_iter t). address_masked a len' = k' \<longrightarrow> len' \<le> len))"
proof -
  have wf: "table_wf t" using assms by (simp add: table_self_check_iff)
  have iter: "(k, len, v') \<in> set (table_iter t) \<and> address_masked a len = k \<longleftrightarrow>
      k = address_masked a len \<and> len \<le> LENGTH('a) \<and> table_entries t (pre len a) = Some v'" for k len v'
    unfolding table_iter_iff [OF wf] address_masked_def Let_def
    by (auto simp: pre_masked masked_masked)
  have longest: "(\<forall>(k', len', v') \<in> set (table_iter t). address_masked a len' = k' \<longrightarrow> len' \<le> len) \<longleftrightarrow>
      (\<forall>j\<le>LENGTH('a). len < j \<longrightarrow> table_entries t (pre j a) = None)" (is "?L \<longleftrightarrow> ?R") for len
  proof
    assume L: ?L
    show ?R
    proof (intro allI impI)
      fix j assume "j \<le> LENGTH('a)" "len < j"
      have "\<not> table_entries t (pre j a) = Some v'" for v'
      proof
        assume "table_entries t (pre j a) = Some v'"
        then have "(address_masked a j, j, v') \<in> set (table_iter t)"
          using iter \<open>j \<le> LENGTH('a)\<close> by blast
        with L have "j \<le> len" by fastforce
        with \<open>len < j\<close> show False by simp
      qed
      then show "table_entries t (pre j a) = None" by (cases "table_entries t (pre j a)") auto
    qed
  next
    assume R: ?R
    show ?L
    proof (clarify)
      fix k' len' v' assume "(address_masked a len', len', v') \<in> set (table_iter t)"
      then have "len' \<le> LENGTH('a)" "table_entries t (pre len' a) = Some v'"
        using iter [of "address_masked a len'" len' v'] by blast+
      with R show "len' \<le> len" by (cases "len < len'") auto
    qed
  qed
  show ?thesis
    unfolding longest table_longest_match_correct [OF wf] lpm_Some_iff
  proof (intro iffI; elim exE conjE)
    fix i assume "i \<le> LENGTH('a)" "table_entries t (pre i a) = Some v"
      "\<forall>j\<le>LENGTH('a). i < j \<longrightarrow> table_entries t (pre j a) = None"
    then show "\<exists>k len. (k, len, v) \<in> set (table_iter t) \<and> address_masked a len = k \<and>
        (\<forall>j\<le>LENGTH('a). len < j \<longrightarrow> table_entries t (pre j a) = None)"
      using iter [of "address_masked a i" i v] by blast
  next
    fix k len assume "(k, len, v) \<in> set (table_iter t)" "address_masked a len = k"
      "\<forall>j\<le>LENGTH('a). len < j \<longrightarrow> table_entries t (pre j a) = None"
    then show "\<exists>i\<le>LENGTH('a). table_entries t (pre i a) = Some v \<and>
        (\<forall>j\<le>LENGTH('a). i < j \<longrightarrow> table_entries t (pre j a) = None)"
      using iter [of k len v] by blast
  qed
qed


lemmas trie_eval = table_longest_match_def node_longest_match_def longest_match_loop.simps to_mask_def
  next_bit_mask1_eq mask_eq_exp_minus_1 Let_def

theorem longest_match_longest_witness:
  "\<exists>k len. (k, len, 2) \<in> set (table_iter
         \<lparr>lt_root = Some (TrieNode (0x0A000000 :: u32) 8 None (Some (TrieNode 0x0A840000 16 None None (Some 2))) (Some (1 :: nat)))\<rparr>)
     \<and> address_masked 0x0A84B301 len = k \<and>
       (\<forall>(k', len', v') \<in> set (table_iter
         \<lparr>lt_root = Some (TrieNode (0x0A000000 :: u32) 8 None (Some (TrieNode 0x0A840000 16 None None (Some 2))) (Some (1 :: nat)))\<rparr>).
          address_masked 0x0A84B301 len' = k' \<longrightarrow> len' \<le> len)"
  by (rule longest_match_longest [THEN iffD1]) (simp_all add: table_self_check_def trie_eval)

text \<open>
  C14: The trie and the table of hash maps cannot be told apart: any sequence of insertions,
  removals and lookups with valid prefix lengths returns the same results from both
  (\<open>qc_same_with_simple\<close>), and never panics.
\<close>

theorem trie_same_with_simple:
  fixes ops :: "('a::len word, 'v) table_op list"
  assumes "\<forall>x \<in> set ops. op_len x \<le> LENGTH('a)"
  shows "run_table table_insert table_remove table_longest_match table_new ops =
      run_table simple_insert simple_remove simple_longest_match simple_new ops \<and>
    run_table table_insert table_remove table_longest_match table_new ops \<noteq> None"
  using trie.run_new [OF assms] simple.run_new [OF assms] by auto

theorem trie_same_with_simple_witness:
  "let ops = [OpInsert (0x0A84B301 :: u32) 24 (5 :: nat), OpInsert 0x0A84B301 32 6, OpInsert 0 0 0,
      OpLongestMatch 0x0A84B302, OpRemove 0x0A84B301 24, OpLongestMatch 0x0A84B302]
   in run_table table_insert table_remove table_longest_match table_new ops =
      run_table simple_insert simple_remove simple_longest_match simple_new ops \<and>
    run_table table_insert table_remove table_longest_match table_new ops \<noteq> None"
  unfolding Let_def by (rule trie_same_with_simple) simp

lemma table_iter_update:
  fixes t t' :: "('a::len word, 'v) ip_lookup_table"
  assumes "table_wf t" "table_wf t'" "n \<le> LENGTH('a)"
    and "table_entries t' = (table_entries t)(pre n k := vo)"
  shows "set (table_iter t') = {(k', n', v') \<in> set (table_iter t). (k', n') \<noteq> (address_masked k n, n)} \<union>
    {(address_masked k n, n, v) | v. vo = Some v}"
proof -
  have eq: "pre n' k' = pre n k \<longleftrightarrow> (k', n') = (address_masked k n, n)"
    if "k' AND to_mask n' = k'" "n' \<le> LENGTH('a)" for k' n'
    using that assms(3) by (auto simp: address_masked_def pre_masked dest: pre_inject_len)
      (metis masked_eq_iff pre_inject_len)
  have self: "address_masked k n AND to_mask n = address_masked k n" "pre n (address_masked k n) = pre n k"
    using assms(3) by (simp_all add: address_masked_def pre_masked masked_masked)
  have "(k', n', v') \<in> set (table_iter t') \<longleftrightarrow> (k', n', v') \<in> set (table_iter t) \<and> (k', n') \<noteq> (address_masked k n, n)
      \<or> (k', n') = (address_masked k n, n) \<and> vo = Some v'" for k' n' v'
    unfolding table_iter_iff [OF assms(1)] table_iter_iff [OF assms(2)] assms(4)
    using eq [of k' n'] self assms(3) by (cases "(k', n') = (address_masked k n, n)") auto
  then show ?thesis by fastforce
qed

lemma table_entries_old:
  fixes t :: "('a::len word, 'v) ip_lookup_table"
  assumes "table_wf t" "n \<le> LENGTH('a)"
  shows "table_entries t (pre n k) = Some v \<longleftrightarrow> (address_masked k n, n, v) \<in> set (table_iter t)"
  using assms by (simp add: table_iter_iff address_masked_def pre_masked masked_masked)

text \<open>
  C23: Insertion of a prefix of valid length into a table that passes \<open>self_check\<close>: it returns the
  value stored for the masked prefix before, the result passes \<open>self_check\<close>, and its iterator
  yields the new entry and the old entries of every other prefix.
\<close>

theorem table_insert_spec:
  fixes t :: "('a::len word, 'v) ip_lookup_table"
  assumes "table_self_check t = None" "n \<le> LENGTH('a)"
  shows "\<exists>old t'. table_insert t k n v = Some (old, t') \<and> table_self_check t' = None \<and>
    (\<forall>v'. old = Some v' \<longleftrightarrow> (address_masked k n, n, v') \<in> set (table_iter t)) \<and>
    set (table_iter t') = insert (address_masked k n, n, v)
      {(k', n', v') \<in> set (table_iter t). (k', n') \<noteq> (address_masked k n, n)}"
  using assms table_insert_correct [of t n k v] table_iter_update [of t _ n k "Some v"] table_entries_old [of t n k]
  by (auto simp: table_self_check_iff)

theorem table_insert_spec_witness:
  "\<exists>old t'. table_insert table_new (0x0A84B301 :: u32) 24 (5 :: nat) = Some (old, t') \<and> table_self_check t' = None \<and>
    (\<forall>v'. old = Some v' \<longleftrightarrow> (address_masked 0x0A84B301 24, 24, v') \<in> set (table_iter (table_new :: (u32, nat) ip_lookup_table))) \<and>
    set (table_iter t') = insert (address_masked 0x0A84B301 24, 24, 5)
      {(k', n', v') \<in> set (table_iter table_new). (k', n') \<noteq> (address_masked (0x0A84B301 :: u32) 24, 24)}"
  by (rule table_insert_spec) (simp_all add: table_self_check_def table_new_def)

text \<open>
  C24: Removal returns the value stored for the masked prefix, keeps \<open>self_check\<close>, deletes exactly
  that entry, and leaves an empty table exactly when no other entry was there.
\<close>

theorem table_remove_spec:
  fixes t :: "('a::len word, 'v) ip_lookup_table"
  assumes "table_self_check t = None" "n \<le> LENGTH('a)"
  shows "\<exists>old t'. table_remove t k n = Some (old, t') \<and> table_self_check t' = None \<and>
    (\<forall>v'. old = Some v' \<longleftrightarrow> (address_masked k n, n, v') \<in> set (table_iter t)) \<and>
    set (table_iter t') = {(k', n', v') \<in> set (table_iter t). (k', n') \<noteq> (address_masked k n, n)} \<and>
    (table_is_empty t' \<longleftrightarrow> (\<forall>(k', n', v') \<in> set (table_iter t). (k', n') = (address_masked k n, n)))"
proof -
  have wf: "table_wf t" using assms(1) by (simp add: table_self_check_iff)
  obtain t' where t': "table_remove t k n = Some (table_entries t (pre n k), t')" "table_wf t'"
    "table_entries t' = (table_entries t)(pre n k := None)"
    using table_remove_correct [OF wf assms(2)] by blast
  have iter: "set (table_iter t') = {(k', n', v') \<in> set (table_iter t). (k', n') \<noteq> (address_masked k n, n)}"
    using table_iter_update [OF wf t'(2) assms(2) t'(3)] by auto
  have "table_is_empty t' \<longleftrightarrow> set (table_iter t') = {}" using t'(2) by (simp add: table_empty_iff)
  then have "table_is_empty t' \<longleftrightarrow> (\<forall>(k', n', v') \<in> set (table_iter t). (k', n') = (address_masked k n, n))"
    unfolding iter by auto
  then show ?thesis
    using t' iter table_entries_old [OF wf assms(2), of k] by (auto simp: table_self_check_iff)
qed

theorem table_remove_spec_witness:
  "\<exists>old t'. table_remove \<lparr>lt_root = Some (TrieNode (0x0A84B300 :: u32) 24 None None (Some (5 :: nat)))\<rparr> 0x0A84B301 24 = Some (old, t') \<and>
    table_self_check t' = None \<and>
    (\<forall>v'. old = Some v' \<longleftrightarrow> (address_masked 0x0A84B301 24, 24, v') \<in>
       set (table_iter \<lparr>lt_root = Some (TrieNode (0x0A84B300 :: u32) 24 None None (Some (5 :: nat)))\<rparr>)) \<and>
    set (table_iter t') = {(k', n', v') \<in> set (table_iter \<lparr>lt_root = Some (TrieNode (0x0A84B300 :: u32) 24 None None (Some (5 :: nat)))\<rparr>).
       (k', n') \<noteq> (address_masked 0x0A84B301 24, 24)} \<and>
    (table_is_empty t' \<longleftrightarrow> (\<forall>(k', n', v') \<in> set (table_iter \<lparr>lt_root = Some (TrieNode (0x0A84B300 :: u32) 24 None None (Some (5 :: nat)))\<rparr>).
       (k', n') = (address_masked 0x0A84B301 24, 24)))"
  by (rule table_remove_spec) (simp_all add: table_self_check_def trie_eval)

lemma table_extend_correct:
  fixes xs :: "('a::len word \<times> nat \<times> 'v) list"
  assumes "table_wf t" "\<forall>(k, n, v) \<in> set xs. n \<le> LENGTH('a)"
  shows "\<exists>t'. table_extend t xs = Some t' \<and> table_wf t' \<and>
    table_entries t' = foldl (\<lambda>m (k, n, v). m(pre n k \<mapsto> v)) (table_entries t) xs"
  using assms
proof (induction xs arbitrary: t)
  case (Cons x xs)
  obtain k n v where x: "x = (k, n, v)" by (cases x)
  obtain t1 where t1: "table_insert t k n v = Some (table_entries t (pre n k), t1)" "table_wf t1"
    "table_entries t1 = (table_entries t)(pre n k \<mapsto> v)"
    using table_insert_correct [of t n k v] Cons.prems x by auto
  then show ?case using Cons.IH [of t1] Cons.prems by (simp add: x)
qed simp

lemma foldl_map_upd:
  assumes "distinct (map key xs)"
  shows "foldl (\<lambda>m x. m(key x \<mapsto> val x)) m xs p =
    (case map_of (map (\<lambda>x. (key x, val x)) xs) p of Some v \<Rightarrow> Some v | None \<Rightarrow> m p)"
  using assms
proof (induction xs arbitrary: m)
  case (Cons x xs)
  have "map_of (map (\<lambda>x. (key x, val x)) xs) (key x) = None"
    using Cons.prems by (force simp: map_of_eq_None_iff)
  then show ?case using Cons by (auto split: option.split)
qed simp

lemma table_entries_extensional:
  fixes t :: "('a::len word, 'v) ip_lookup_table"
  assumes "table_wf t"
  shows "table_entries t p = map_of (map (\<lambda>x. (pre (fst (snd x)) (fst x), snd (snd x))) (table_iter t)) p"
proof -
  let ?items = "map (\<lambda>x. (pre (fst (snd x)) (fst x), snd (snd x))) (table_iter t)"
  have "distinct (map fst ?items)"
    using table_iter_distinct [OF assms] by (simp add: comp_def case_prod_beta')
  then have map: "map_of ?items p = Some v \<longleftrightarrow> (\<exists>k n. (k, n, v) \<in> set (table_iter t) \<and> p = pre n k)" for v
    by (simp only: map_of_eq_Some_iff) force
  have "table_entries t p = Some v \<longleftrightarrow> (\<exists>k n. (k, n, v) \<in> set (table_iter t) \<and> p = pre n k)" for v
  proof (cases "lt_root t")
    case (Some r)
    then have "node_wf r" "table_entries t p = node_entries r p" "table_iter t = node_items r"
      using assms by (simp_all add: table_wf_def table_iter_def table_entries_def iter_collect_items)
    then show ?thesis
      using node_items_iff [of r _ _ v] node_entries_items(1) [of r p v] by metis
  qed (simp add: table_iter_def table_entries_def iter_collect_items)
  with map show ?thesis by (intro option_eqI) (simp only:)
qed

text \<open>
  Collecting the entries a table's iterator yields into a new table (\<open>from_iter\<close>) does not panic
  and gives a table that passes \<open>self_check\<close>, holds the same entries and answers every lookup alike.
\<close>

theorem table_iter_from_iter:
  fixes t :: "('a::len word, 'v) ip_lookup_table"
  assumes "table_self_check t = None"
  shows "\<exists>t'. table_from_iter (table_iter t) = Some t' \<and> table_self_check t' = None \<and>
    set (table_iter t') = set (table_iter t) \<and> (\<forall>a. table_longest_match t' a = table_longest_match t a)"
proof -
  have wf: "table_wf t" using assms by (simp add: table_self_check_iff)
  have lens: "\<forall>(k, n, v) \<in> set (table_iter t). n \<le> LENGTH('a)" using table_iter_iff [OF wf] by auto
  obtain t' where ext: "table_extend table_new (table_iter t) = Some t'" and t': "table_wf t'"
    "table_entries t' = foldl (\<lambda>m (k, n, v). m(pre n k \<mapsto> v)) (table_entries (table_new :: ('a word, 'v) ip_lookup_table)) (table_iter t)"
    using table_extend_correct [OF trie.new(1) lens] by (elim exE conjE) (rule that)
  have dist: "distinct (map (\<lambda>x. pre (fst (snd x)) (fst x)) (table_iter t))"
    using table_iter_distinct [OF wf] by (simp add: case_prod_beta')
  have same: "table_entries t' = table_entries t"
  proof
    fix p show "table_entries t' p = table_entries t p"
      unfolding t'(2) case_prod_beta' foldl_map_upd [OF dist] table_entries_extensional [OF wf] trie.new(2)
      by (simp split: option.split)
  qed
  have "set (table_iter t') = set (table_iter t)"
    by (auto simp: table_iter_iff [OF wf] table_iter_iff [OF t'(1)] same)
  with ext t' wf same show ?thesis
    by (auto simp: table_from_iter_def table_self_check_iff table_longest_match_correct)
qed

theorem table_iter_from_iter_witness:
  "\<exists>t'. table_from_iter (table_iter \<lparr>lt_root = Some (TrieNode (0x0A84B300 :: u32) 24 None None (Some (5 :: nat)))\<rparr>) = Some t' \<and>
    table_self_check t' = None \<and>
    set (table_iter t') = set (table_iter \<lparr>lt_root = Some (TrieNode (0x0A84B300 :: u32) 24 None None (Some (5 :: nat)))\<rparr>) \<and>
    (\<forall>a. table_longest_match t' a = table_longest_match \<lparr>lt_root = Some (TrieNode 0x0A84B300 24 None None (Some 5))\<rparr> a)"
  by (rule table_iter_from_iter) (simp_all add: table_self_check_def trie_eval)

end
