(* ===== verification/Wg_State.thy ===== *)
theory Wg_State
  imports Peer_State Lookup_Table "HOL-Library.AList"
begin

text \<open>
  The interface: \<open>WgState\<close> of \<open>src/src/wireguard/state.rs\<close> with its configuration operations, and
  \<open>wg_add_peer\<close> of \<open>src/src/wireguard/peer_state.rs\<close>. A \<open>SharedPeerState\<close> is a reference into the
  store \<open>ws_peers\<close>, so that two maps that hold clones of one \<open>Arc\<close> see the same peer and
  \<open>Arc::ptr_eq\<close> is equality of references. A hash map is an association list; where the code
  iterates over one, the order of the list stands for the arbitrary order of the hash map. A
  \<open>BTreeSet\<close> is a set, iterated in its order. Sockets are what the operating system reports of them
  (port and mark): the calls that can fail are the record \<open>os\<close>. \<open>RPanic\<close> is a panic or a deadlock on
  the lock of a peer that is already held.
\<close>

section \<open>The state\<close>

record udp_socket =
  us_port :: u16
  us_fwmark :: u32

text \<open>
  Creating and binding a socket to a port gives the local port, or an error; setting the mark of a
  socket succeeds or fails.
\<close>

record os =
  os_bind :: "u16 \<Rightarrow> u16 option"
  os_set_fwmark :: "u32 \<Rightarrow> bool"

definition os_ok :: "os \<Rightarrow> bool" where
  "os_ok o' \<longleftrightarrow> (\<forall>p q. os_bind o' p = Some q \<longrightarrow> p \<noteq> 0 \<longrightarrow> q = p)"

text \<open>\<open>ws_sender\<close> is \<open>None\<close> before \<open>task_rx\<close> runs, and then the contents of its channel.\<close>

record 'h wg_state =
  ws_info :: wg_info
  ws_pubkey_map :: "(bytes \<times> nat) list"
  ws_id_map :: "wg_id \<rightharpoonup> nat"
  ws_rt4 :: "(u32, nat) ip_lookup_table"
  ws_rt6 :: "(u128, nat) ip_lookup_table"
  ws_load_monitor :: load_monitor
  ws_cookie_secret :: bytes
  ws_socket :: udp_socket
  ws_sender :: "udp_socket list option"
  ws_mtu :: u32
  ws_peers :: "nat \<Rightarrow> 'h peer_state"
  ws_next :: nat

definition HANDSHAKES_PER_SEC :: u32 where "HANDSHAKES_PER_SEC = 250"

section \<open>Sockets\<close>

text \<open>The new port and the socket; the caller's port is only used when the call succeeds.\<close>

definition prepare_socket :: "os \<Rightarrow> u16 \<Rightarrow> u32 \<Rightarrow> (unit, u16 \<times> udp_socket) rust_result" where
  "prepare_socket o' port fwmark =
     (case os_bind o' port of
        None \<Rightarrow> RErr ()
      | Some local_port \<Rightarrow>
          let port = (if port = 0 then local_port else port);
              socket = \<lparr>us_port = local_port, us_fwmark = 0\<rparr>
          in if fwmark \<noteq> 0
             then (if os_set_fwmark o' fwmark then ROk (port, socket\<lparr>us_fwmark := fwmark\<rparr>) else RErr ())
             else ROk (port, socket))"

definition wg_new :: "os \<Rightarrow> x25519_key \<Rightarrow> bytes \<Rightarrow> u32 option \<Rightarrow> instant \<Rightarrow> (unit, 'h wg_state) rust_result" where
  "wg_new o' genkey cookie tun_mtu now =
     and_then (prepare_socket o' 0 0) (\<lambda>(port, socket).
       case tun_mtu of
         None \<Rightarrow> RErr ()
       | Some mtu \<Rightarrow> ROk
           \<lparr>ws_info = \<lparr>wi_key = genkey, wi_fwmark = 0, wi_port = port\<rparr>,
            ws_pubkey_map = [], ws_id_map = Map.empty, ws_rt4 = table_new, ws_rt6 = table_new,
            ws_load_monitor = lm_new HANDSHAKES_PER_SEC now, ws_cookie_secret = cookie,
            ws_socket = socket, ws_sender = None, ws_mtu = mtu,
            ws_peers = (\<lambda>_. ps_new [] now), ws_next = 0\<rparr>)"

text \<open>
  One round of \<open>task_update_cookie_secret\<close>, of \<open>task_update_mtu\<close>, the start of \<open>task_rx\<close>, and the
  arm of the receiving loop that replaces the socket.
\<close>

definition task_update_cookie_secret :: "bytes \<Rightarrow> 'h wg_state \<Rightarrow> 'h wg_state" where
  "task_update_cookie_secret random w = w\<lparr>ws_cookie_secret := random\<rparr>"

definition task_update_mtu :: "u32 option \<Rightarrow> 'h wg_state \<Rightarrow> 'h wg_state" where
  "task_update_mtu tun_mtu w =
     (case tun_mtu of
        Some mtu \<Rightarrow> (let old_mtu = ws_mtu w in if mtu \<noteq> old_mtu then w\<lparr>ws_mtu := mtu\<rparr> else w)
      | None \<Rightarrow> w)"

definition task_rx_start :: "'h wg_state \<Rightarrow> 'h wg_state" where
  "task_rx_start w = w\<lparr>ws_sender := Some []\<rparr>"

definition rx_replace_socket :: "'h wg_state \<Rightarrow> 'h wg_state" where
  "rx_replace_socket w =
     (case ws_sender w of
        Some (s # q) \<Rightarrow> w\<lparr>ws_socket := s, ws_sender := Some q\<rparr>
      | _ \<Rightarrow> w)"

text \<open>\<open>set_port\<close> on a running interface waits until the channel, of capacity one, has room.\<close>

definition set_port :: "os \<Rightarrow> u16 \<Rightarrow> 'h wg_state \<Rightarrow> (unit, 'h wg_state) rust_result" where
  "set_port o' new_port w =
     (if new_port = wi_port (ws_info w) then ROk w
      else and_then (prepare_socket o' new_port (wi_fwmark (ws_info w))) (\<lambda>(new_port, new_socket).
        let w = (case ws_sender w of
                   Some q \<Rightarrow> w\<lparr>ws_sender := Some (q @ [new_socket])\<rparr>
                 | None \<Rightarrow> w\<lparr>ws_socket := new_socket\<rparr>)
        in ROk (w\<lparr>ws_info := (ws_info w)\<lparr>wi_port := new_port\<rparr>\<rparr>)))"

definition set_fwmark :: "os \<Rightarrow> u32 \<Rightarrow> 'h wg_state \<Rightarrow> (unit, 'h wg_state) rust_result" where
  "set_fwmark o' new_fwmark w =
     (if wi_fwmark (ws_info w) = new_fwmark then ROk w
      else if os_set_fwmark o' new_fwmark
      then ROk (w\<lparr>ws_socket := (ws_socket w)\<lparr>us_fwmark := new_fwmark\<rparr>,
                  ws_info := (ws_info w)\<lparr>wi_fwmark := new_fwmark\<rparr>\<rparr>)
      else RErr ())"

section \<open>Peers and identifiers\<close>

definition update_peer :: "nat \<Rightarrow> ('h peer_state \<Rightarrow> 'h peer_state) \<Rightarrow> 'h wg_state \<Rightarrow> 'h wg_state" where
  "update_peer r f w = w\<lparr>ws_peers := (ws_peers w)(r := f (ws_peers w r))\<rparr>"

text \<open>\<open>IdMapGuard::drop\<close> for a list of guards; a busy lock only delays the removal.\<close>

definition drop_guards :: "wg_id list \<Rightarrow> 'h wg_state \<Rightarrow> 'h wg_state" where
  "drop_guards ids w = w\<lparr>ws_id_map := ws_id_map w |` (- set ids)\<rparr>"

definition wg_add_peer :: "bytes \<Rightarrow> instant \<Rightarrow> 'h wg_state \<Rightarrow> (unit, 'h wg_state) rust_result" where
  "wg_add_peer public_key now w =
     (if map_of (ws_pubkey_map w) public_key \<noteq> None then RErr ()
      else
        let r = ws_next w
        in ROk (w\<lparr>ws_peers := (ws_peers w)(r := ps_new public_key now), ws_next := Suc r,
                  ws_pubkey_map := AList.update public_key r (ws_pubkey_map w)\<rparr>))"

definition find_peer_by_id :: "'h wg_state \<Rightarrow> wg_id \<Rightarrow> nat option" where
  "find_peer_by_id w i = ws_id_map w i"

definition find_peer_by_pubkey :: "'h wg_state \<Rightarrow> bytes \<Rightarrow> nat option" where
  "find_peer_by_pubkey w pk = map_of (ws_pubkey_map w) pk"

definition peer_exists :: "'h wg_state \<Rightarrow> bytes \<Rightarrow> bool" where
  "peer_exists w pk \<longleftrightarrow> find_peer_by_pubkey w pk \<noteq> None"

definition find_peer_by_ip :: "'h wg_state \<Rightarrow> ip_addr \<Rightarrow> nat option" where
  "find_peer_by_ip w addr =
     (case addr of
        IpV4 ip4 \<Rightarrow> table_longest_match (ws_rt4 w) ip4
      | IpV6 ip6 \<Rightarrow> table_longest_match (ws_rt6 w) ip6)"

section \<open>Routes\<close>

text \<open>\<open>None\<close> is the failed assertion of the table on a prefix length beyond the address.\<close>

definition rt_insert :: "ip_addr \<Rightarrow> nat \<Rightarrow> nat \<Rightarrow> 'h wg_state \<Rightarrow> (nat option \<times> 'h wg_state) option" where
  "rt_insert a m r w =
     (case a of
        IpV4 a \<Rightarrow> map_option (\<lambda>(old, t). (old, w\<lparr>ws_rt4 := t\<rparr>)) (table_insert (ws_rt4 w) a m r)
      | IpV6 a \<Rightarrow> map_option (\<lambda>(old, t). (old, w\<lparr>ws_rt6 := t\<rparr>)) (table_insert (ws_rt6 w) a m r))"

definition rt_remove :: "ip_addr \<Rightarrow> nat \<Rightarrow> 'h wg_state \<Rightarrow> 'h wg_state option" where
  "rt_remove a m w =
     (case a of
        IpV4 a \<Rightarrow> map_option (\<lambda>(_, t). w\<lparr>ws_rt4 := t\<rparr>) (table_remove (ws_rt4 w) a m)
      | IpV6 a \<Rightarrow> map_option (\<lambda>(_, t). w\<lparr>ws_rt6 := t\<rparr>) (table_remove (ws_rt6 w) a m))"

fun remove_routes :: "(ip_addr \<times> nat) list \<Rightarrow> 'h wg_state \<Rightarrow> 'h wg_state option" where
  "remove_routes [] w = Some w"
| "remove_routes ((a, m) # ips) w =
     (case rt_remove a m w of None \<Rightarrow> None | Some w \<Rightarrow> remove_routes ips w)"

text \<open>The loops that add routes, with the vector \<open>to_remove_others\<close> they collect.\<close>

fun add_routes :: "nat \<Rightarrow> (ip_addr \<times> nat) list \<Rightarrow> (nat \<times> ip_addr \<times> nat) list \<Rightarrow> 'h wg_state \<Rightarrow>
    ((nat \<times> ip_addr \<times> nat) list \<times> 'h wg_state) option" where
  "add_routes r [] others w = Some (others, w)"
| "add_routes r ((a, m) # ips) others w =
     (case rt_insert a m r w of
        None \<Rightarrow> None
      | Some (old_peer, w) \<Rightarrow>
          add_routes r ips (others @ (case old_peer of Some o' \<Rightarrow> [(o', a, m)] | None \<Rightarrow> [])) w)"

definition peer_allowed_ips :: "'h wg_state \<Rightarrow> nat \<Rightarrow> (ip_addr \<times> nat) set" where
  "peer_allowed_ips w r = pi_allowed_ips (ps_info (ws_peers w r))"

definition set_allowed_ips :: "(ip_addr \<times> nat) set \<Rightarrow> 'h peer_state \<Rightarrow> 'h peer_state" where
  "set_allowed_ips ips p = p\<lparr>ps_info := (ps_info p)\<lparr>pi_allowed_ips := ips\<rparr>\<rparr>"

fun append_routes :: "nat \<Rightarrow> (ip_addr \<times> nat) list \<Rightarrow> (nat \<times> ip_addr \<times> nat) list \<Rightarrow> 'h wg_state \<Rightarrow>
    ((nat \<times> ip_addr \<times> nat) list \<times> 'h wg_state) option" where
  "append_routes r [] others w = Some (others, w)"
| "append_routes r ((a, m) # ips) others w =
     (if (a, m) \<notin> peer_allowed_ips w r then
        (case rt_insert a m r w of
           None \<Rightarrow> None
         | Some (old_peer, w) \<Rightarrow>
             append_routes r ips (others @ (case old_peer of Some o' \<Rightarrow> [(o', a, m)] | None \<Rightarrow> []))
               (update_peer r (\<lambda>p. set_allowed_ips (insert (a, m) (pi_allowed_ips (ps_info p))) p) w))
      else append_routes r ips others w)"

text \<open>
  The last loop of \<open>set_peer\<close> takes the lock of each old peer while that of the peer itself is
  held: \<open>None\<close> if they are the same, or if the assertion fails.
\<close>

fun remove_from_others :: "nat \<Rightarrow> (nat \<times> ip_addr \<times> nat) list \<Rightarrow> 'h wg_state \<Rightarrow> 'h wg_state option" where
  "remove_from_others r [] w = Some w"
| "remove_from_others r ((old_peer, a, m) # others) w =
     (if old_peer = r then None
      else if (a, m) \<in> peer_allowed_ips w old_peer
      then remove_from_others r others
             (update_peer old_peer (\<lambda>p. set_allowed_ips (pi_allowed_ips (ps_info p) - {(a, m)}) p) w)
      else None)"

section \<open>Configuration of peers\<close>

record set_peer_command =
  sp_public_key :: bytes
  sp_preshared_key :: "bytes option"
  sp_endpoint :: "socket_addr option"
  sp_keepalive :: "u16 option"
  sp_replace_allowed_ips :: bool
  sp_allowed_ips :: "(ip_addr \<times> nat) set"

fun ip_width :: "ip_addr \<Rightarrow> nat" where
  "ip_width (IpV4 a) = 32"
| "ip_width (IpV6 a) = 128"

fun ip_masked :: "ip_addr \<Rightarrow> nat \<Rightarrow> ip_addr" where
  "ip_masked (IpV4 a) l = IpV4 (address_masked a l)"
| "ip_masked (IpV6 a) l = IpV6 (address_masked a l)"

definition nonzero_u16 :: "u16 \<Rightarrow> u16 option" where
  "nonzero_u16 n = (if n = 0 then None else Some n)"

text \<open>The first part of \<open>set_peer\<close>: key (with the guards that are dropped), endpoint and keepalive.\<close>

definition set_peer_psk :: "set_peer_command \<Rightarrow> 'h peer_state \<Rightarrow> wg_id list \<times> 'h peer_state" where
  "set_peer_psk command peer =
     (if pi_psk (ps_info peer) \<noteq> sp_preshared_key command
      then let (dropped, peer) = ps_clear_all peer
           in (dropped, peer\<lparr>ps_info := (ps_info peer)\<lparr>pi_psk := sp_preshared_key command\<rparr>\<rparr>)
      else ([], peer))"

definition set_peer_endpoint :: "set_peer_command \<Rightarrow> 'h peer_state \<Rightarrow> 'h peer_state" where
  "set_peer_endpoint command peer =
     (case sp_endpoint command of
        Some endpoint \<Rightarrow>
          let peer = (if pi_endpoint (ps_info peer) \<noteq> Some (map_ipv4_to_ipv6 endpoint)
                then peer\<lparr>ps_info := (ps_info peer)\<lparr>pi_endpoint := Some (map_ipv4_to_ipv6 endpoint)\<rparr>\<rparr>
                else peer)
          in peer\<lparr>ps_info := (ps_info peer)\<lparr>pi_roaming := False\<rparr>\<rparr>
      | None \<Rightarrow> peer)"

definition set_peer_keepalive :: "instant \<Rightarrow> set_peer_command \<Rightarrow> 'h peer_state \<Rightarrow> 'h peer_state" where
  "set_peer_keepalive now command peer =
     (case sp_keepalive command of
        Some interval \<Rightarrow>
          if pi_keepalive (ps_info peer) \<noteq> nonzero_u16 interval
          then let peer = peer\<lparr>ps_info := (ps_info peer)\<lparr>pi_keepalive := nonzero_u16 interval\<rparr>\<rparr>
               in if interval > 0
                  then peer\<lparr>ps_persistent_keepalive := adjust_and_activate_secs now 5 (ps_persistent_keepalive peer)\<rparr>
                  else peer\<lparr>ps_persistent_keepalive := de_activate (ps_persistent_keepalive peer)\<rparr>
          else peer
      | None \<Rightarrow> peer)"

definition set_peer_info :: "instant \<Rightarrow> set_peer_command \<Rightarrow> 'h peer_state \<Rightarrow> wg_id list \<times> 'h peer_state" where
  "set_peer_info now command peer =
     (let (dropped, peer) = set_peer_psk command peer;
          peer = set_peer_endpoint command peer
      in (dropped, set_peer_keepalive now command peer))"

text \<open>
  A prefix length beyond the width of its address underflows in \<open>masked\<close> or, where that wraps, fails
  the assertion of \<open>insert\<close> later: a panic either way.
\<close>

definition set_peer :: "instant \<Rightarrow> set_peer_command \<Rightarrow> 'h wg_state \<Rightarrow> (unit, 'h wg_state) rust_result" where
  "set_peer now command w =
     (case find_peer_by_pubkey w (sp_public_key command) of
        None \<Rightarrow> RErr ()
      | Some r \<Rightarrow>
          let (dropped, peer) = set_peer_info now command (ws_peers w r);
              w = drop_guards dropped (update_peer r (\<lambda>_. peer) w)
          in if \<not> (\<forall>(a, l) \<in> sp_allowed_ips command. l \<le> ip_width a) then RPanic
             else
               let allowed_ips = (\<lambda>(a, l). (ip_masked a l, l)) ` sp_allowed_ips command;
                   routed =
                     (if sp_replace_allowed_ips command then
                        (case remove_routes (sorted_list_of_set (peer_allowed_ips w r - allowed_ips)) w of
                           None \<Rightarrow> None
                         | Some w \<Rightarrow>
                             (case add_routes r (sorted_list_of_set (allowed_ips - peer_allowed_ips w r)) [] w of
                                None \<Rightarrow> None
                              | Some (others, w) \<Rightarrow> Some (others, update_peer r (set_allowed_ips allowed_ips) w)))
                      else append_routes r (sorted_list_of_set allowed_ips) [] w)
               in case routed of
                    None \<Rightarrow> RPanic
                  | Some (others, w) \<Rightarrow>
                      (case remove_from_others r others w of None \<Rightarrow> RPanic | Some w \<Rightarrow> ROk w))"

definition remove_peer :: "bytes \<Rightarrow> 'h wg_state \<Rightarrow> (unit, bool \<times> 'h wg_state) rust_result" where
  "remove_peer peer_pubkey w =
     (case map_of (ws_pubkey_map w) peer_pubkey of
        None \<Rightarrow> ROk (False, w)
      | Some r \<Rightarrow>
          let w = w\<lparr>ws_pubkey_map := AList.delete peer_pubkey (ws_pubkey_map w)\<rparr>;
              (dropped, peer) = ps_clear_all (ws_peers w r);
              w = drop_guards dropped (update_peer r (\<lambda>_. peer) w)
          in case remove_routes (sorted_list_of_set (peer_allowed_ips w r)) w of
               None \<Rightarrow> RPanic
             | Some w \<Rightarrow> ROk (True, w))"

fun remove_peers :: "bytes list \<Rightarrow> 'h wg_state \<Rightarrow> (unit, 'h wg_state) rust_result" where
  "remove_peers [] w = ROk w"
| "remove_peers (p # ps) w = and_then (remove_peer p w) (\<lambda>(_, w). remove_peers ps w)"

definition remove_all_peers :: "'h wg_state \<Rightarrow> (unit, 'h wg_state) rust_result" where
  "remove_all_peers w = (let peers = map fst (ws_pubkey_map w) in remove_peers peers w)"

fun clear_peers :: "nat list \<Rightarrow> 'h wg_state \<Rightarrow> 'h wg_state" where
  "clear_peers [] w = w"
| "clear_peers (r # rs) w =
     (let (dropped, peer) = ps_clear_all (ws_peers w r)
      in clear_peers rs (drop_guards dropped (update_peer r (\<lambda>_. peer) w)))"

definition set_key :: "x25519_key \<Rightarrow> 'h wg_state \<Rightarrow> 'h wg_state" where
  "set_key key w =
     (let w = clear_peers (map snd (ws_pubkey_map w)) w
      in w\<lparr>ws_info := (ws_info w)\<lparr>wi_key := key\<rparr>\<rparr>)"

section \<open>Inspection\<close>

record peer_state_out =
  po_public_key :: bytes
  po_preshared_key :: "bytes option"
  po_endpoint :: "socket_addr option"
  po_last_handshake_time :: "nat option"
  po_rx_bytes :: u64
  po_tx_bytes :: u64
  po_persistent_keepalive_interval :: u16
  po_allowed_ips :: "(ip_addr \<times> nat) set"

record wg_state_out =
  wo_private_key :: x25519_key
  wo_peers :: "peer_state_out list"
  wo_listen_port :: u16
  wo_fwmark :: u32

definition peer_out :: "instant \<Rightarrow> nat \<Rightarrow> 'h peer_state \<Rightarrow> peer_state_out" where
  "peer_out now system_now peer =
     \<lparr>po_public_key = pi_public_key (ps_info peer), po_preshared_key = pi_psk (ps_info peer),
      po_endpoint = map_option unmap_ipv4_from_ipv6 (pi_endpoint (ps_info peer)),
      po_last_handshake_time = ps_get_last_handshake_time now system_now peer,
      po_rx_bytes = counter_load (ps_rx_bytes peer), po_tx_bytes = counter_load (ps_tx_bytes peer),
      po_persistent_keepalive_interval = (case pi_keepalive (ps_info peer) of None \<Rightarrow> 0 | Some i \<Rightarrow> i),
      po_allowed_ips = pi_allowed_ips (ps_info peer)\<rparr>"

definition get_state :: "instant \<Rightarrow> nat \<Rightarrow> 'h wg_state \<Rightarrow> wg_state_out" where
  "get_state now system_now w =
     \<lparr>wo_private_key = wi_key (ws_info w),
      wo_peers = map (\<lambda>(_, r). peer_out now system_now (ws_peers w r)) (ws_pubkey_map w),
      wo_listen_port = wi_port (ws_info w), wo_fwmark = wi_fwmark (ws_info w)\<rparr>"

datatype route_error = PeerDoesNotThinkSo ip_addr nat bytes | NotInTables bytes ip_addr nat

fun check_table :: "'h wg_state \<Rightarrow> (ip_addr \<times> nat \<times> nat) list \<Rightarrow> (bytes \<times> ip_addr \<times> nat) set \<Rightarrow>
    (route_error, (bytes \<times> ip_addr \<times> nat) set) rust_result" where
  "check_table w [] exist = ROk exist"
| "check_table w ((ip, prefix_len, r) # entries) exist =
     (let peer = ps_info (ws_peers w r) in
      if (ip, prefix_len) \<notin> pi_allowed_ips peer then RErr (PeerDoesNotThinkSo ip prefix_len (pi_public_key peer))
      else check_table w entries (insert (pi_public_key peer, ip, prefix_len) exist))"

fun check_allowed :: "bytes \<Rightarrow> (bytes \<times> ip_addr \<times> nat) set \<Rightarrow> (ip_addr \<times> nat) list \<Rightarrow> (route_error, unit) rust_result" where
  "check_allowed pk exist [] = ROk ()"
| "check_allowed pk exist ((ip, prefix_len) # ips) =
     (if (pk, ip, prefix_len) \<notin> exist then RErr (NotInTables pk ip prefix_len) else check_allowed pk exist ips)"

fun check_peers :: "'h wg_state \<Rightarrow> (bytes \<times> ip_addr \<times> nat) set \<Rightarrow> nat list \<Rightarrow> (route_error, unit) rust_result" where
  "check_peers w exist [] = ROk ()"
| "check_peers w exist (r # rs) =
     and_then (check_allowed (pi_public_key (ps_info (ws_peers w r))) exist (sorted_list_of_set (peer_allowed_ips w r)))
       (\<lambda>_. check_peers w exist rs)"

definition check_route_consistency :: "'h wg_state \<Rightarrow> (route_error, unit) rust_result" where
  "check_route_consistency w =
     and_then (check_table w (map (\<lambda>(ip, l, r). (IpV4 ip, l, r)) (table_iter (ws_rt4 w))) {}) (\<lambda>exist.
     and_then (check_table w (map (\<lambda>(ip, l, r). (IpV6 ip, l, r)) (table_iter (ws_rt6 w))) exist) (\<lambda>exist.
       check_peers w exist (map snd (ws_pubkey_map w))))"

end
