(* ===== verification/Ipc_Parse.thy ===== *)
theory Ipc_Parse
  imports Text_Format Wg_State
begin

text \<open>
  The parser of the IPC protocol: \<open>src/src/ipc/parse.rs\<close> with the commands of
  \<open>src/src/ipc/commands.rs\<close>. A stream of lines is the list of its items, a line or an I/O error (the
  server reads at most 1 MiB, so that the list is finite); the wrapper \<open>Peekable\<close> is a record with its
  two fields. A \<open>Result\<close> is \<open>rust_result\<close>, where \<open>RPanic\<close> is an \<open>unwrap\<close> that fails or an overflow
  of the clock arithmetic; \<open>?\<close> is \<open>and_then\<close>. The loops recurse on the stream: each round consumes a
  line, which is their termination measure. \<open>LinesCodec\<close>, which splits a byte stream into lines, is an
  argument.
\<close>

section \<open>Commands and errors\<close>

record wg_set_peer_command =
  wsp_public_key :: bytes
  wsp_remove :: bool
  wsp_preshared_key :: "bytes option"
  wsp_endpoint :: "socket_addr option"
  wsp_persistent_keepalive_interval :: "u16 option"
  wsp_replace_allowed_ips :: bool
  wsp_allowed_ips :: "(ip_addr \<times> nat) set"

record wg_set_command =
  wsc_private_key :: "x25519_key option"
  wsc_fwmark :: "u32 option"
  wsc_listen_port :: "u16 option"
  wsc_replace_peers :: bool
  wsc_peers :: "wg_set_peer_command list"

datatype wg_ipc_command = IpcGet | IpcSet wg_set_command

type_synonym io_error = string
type_synonym item = "io_error + string"

text \<open>The errors of \<open>bail!\<close> and of the conversions; \<open>InvalidValue\<close> is a value that does not parse.\<close>

datatype parse_error = IoError io_error | UnexpectedEnd | InvalidLine string | UnexpectedLine string
  | InvalidValue string | InvalidLength | InvalidAllowedIp string | InvalidPrefixLength nat
  | UnexpectedKey string | ExpectedEmptyLine string | UnexpectedCommand string
  | NsecWithoutSec | EmptyResponse

section \<open>The stream\<close>

record peekable =
  pk_inner :: "item list"
  pk_peeked :: "item option"

definition peekable_new :: "item list \<Rightarrow> peekable" where
  "peekable_new inner = \<lparr>pk_inner = inner, pk_peeked = None\<rparr>"

definition try_next :: "peekable \<Rightarrow> (parse_error, string option \<times> peekable) rust_result" where
  "try_next s =
     (let (x, s) = (case pk_peeked s of
          Some x \<Rightarrow> (Some x, s\<lparr>pk_peeked := None\<rparr>)
        | None \<Rightarrow> (case pk_inner s of [] \<Rightarrow> (None, s) | x # xs \<Rightarrow> (Some x, s\<lparr>pk_inner := xs\<rparr>)))
      in case x of
           None \<Rightarrow> ROk (None, s)
         | Some (Inr l) \<Rightarrow> ROk (Some l, s)
         | Some (Inl e) \<Rightarrow> RErr (IoError e))"

definition try_peek :: "peekable \<Rightarrow> (parse_error, string option \<times> peekable) rust_result" where
  "try_peek s =
     (let s = (case pk_peeked s of
          Some x \<Rightarrow> s
        | None \<Rightarrow> (case pk_inner s of [] \<Rightarrow> s | x # xs \<Rightarrow> s\<lparr>pk_inner := xs, pk_peeked := Some x\<rparr>))
      in case pk_peeked s of
           None \<Rightarrow> ROk (None, s)
         | Some (Inr l) \<Rightarrow> ROk (Some l, s)
         | Some (Inl e) \<Rightarrow> RErr (IoError e))"

text \<open>The items still to come, and the list as a stream whose first item may have been peeked.\<close>

definition pk_items :: "peekable \<Rightarrow> item list" where
  "pk_items s = (case pk_peeked s of None \<Rightarrow> [] | Some x \<Rightarrow> [x]) @ pk_inner s"

definition unwrap :: "('e, 'a) rust_result \<Rightarrow> ('e, 'a) rust_result" where
  "unwrap r = (case r of ROk a \<Rightarrow> ROk a | _ \<Rightarrow> RPanic)"

definition ok_or :: "'e \<Rightarrow> 'a option \<Rightarrow> ('e, 'a) rust_result" where
  "ok_or e r = (case r of None \<Rightarrow> RErr e | Some a \<Rightarrow> ROk a)"

lemma ok_or_simps [simp]: "ok_or e None = RErr e" "ok_or e (Some a) = ROk a"
  by (simp_all add: ok_or_def)

lemma ok_or_ROk_iff: "ok_or e r = ROk a \<longleftrightarrow> r = Some a"
  by (cases r) simp_all

lemma ok_or_not_panic [simp]: "ok_or e r \<noteq> RPanic"
  by (cases r) simp_all

lemma unwrap_simps [simp]: "unwrap (ROk a) = ROk a" "unwrap (RErr e) = RPanic" "unwrap RPanic = RPanic"
  by (simp_all add: unwrap_def)

lemma and_then_cong [fundef_cong]:
  "r = r' \<Longrightarrow> (\<And>a. r' = ROk a \<Longrightarrow> f a = g a) \<Longrightarrow> and_then r f = and_then r' g"
  by (cases r') simp_all

lemma and_then_RPanic_iff: "and_then r f = RPanic \<longleftrightarrow> r = RPanic \<or> (\<exists>a. r = ROk a \<and> f a = RPanic)"
  by (cases r) simp_all

text \<open>What the two calls do on the items of the stream.\<close>

lemma pk_items_new [simp]: "pk_items (peekable_new xs) = xs"
  by (simp add: pk_items_def peekable_new_def)

lemma try_next_cases:
  "case pk_items s of
     [] \<Rightarrow> try_next s = ROk (None, s)
   | Inr l # xs \<Rightarrow> (\<exists>s'. try_next s = ROk (Some l, s') \<and> pk_items s' = xs)
   | Inl e # xs \<Rightarrow> try_next s = RErr (IoError e)"
  by (auto simp: try_next_def pk_items_def Let_def split: option.splits list.splits sum.splits)

lemma try_peek_cases:
  "case pk_items s of
     [] \<Rightarrow> try_peek s = ROk (None, s)
   | Inr l # xs \<Rightarrow> (\<exists>s'. try_peek s = ROk (Some l, s') \<and> pk_items s' = Inr l # xs)
   | Inl e # xs \<Rightarrow> try_peek s = RErr (IoError e)"
  by (auto simp: try_peek_def pk_items_def Let_def split: option.splits list.splits sum.splits)

lemma try_next_ROk:
  assumes "try_next s = ROk (r, s')"
  shows "(case r of None \<Rightarrow> pk_items s = [] \<and> s' = s | Some l \<Rightarrow> pk_items s = Inr l # pk_items s')"
  using assms try_next_cases [of s] by (auto split: list.splits sum.splits)

lemma try_peek_ROk:
  assumes "try_peek s = ROk (r, s')"
  shows "pk_items s' = pk_items s \<and> (case r of None \<Rightarrow> pk_items s = [] | Some l \<Rightarrow> \<exists>xs. pk_items s = Inr l # xs)"
  using assms try_peek_cases [of s] by (auto split: list.splits sum.splits)

lemma try_no_panic [simp]: "try_next s \<noteq> RPanic" "try_peek s \<noteq> RPanic"
  using try_next_cases [of s] try_peek_cases [of s] by (auto split: list.splits sum.splits)

text \<open>The idiom of the loops: peek at a line, and take it when it has been dealt with.\<close>

lemma peek_then_next:
  assumes "try_peek s = ROk (Some l, s')"
  shows "\<exists>s''. try_next s' = ROk (Some l, s'') \<and> length (pk_items s'') < length (pk_items s) \<and>
    pk_items s = Inr l # pk_items s''"
proof -
  obtain xs where "pk_items s' = Inr l # xs" "pk_items s = Inr l # xs" using try_peek_ROk [OF assms] by auto
  then show ?thesis using try_next_cases [of s'] by auto
qed

lemma try_peek_Cons [simp]:
  "pk_items s = Inr l # xs \<Longrightarrow> \<exists>s'. try_peek s = ROk (Some l, s') \<and> pk_items s' = Inr l # xs"
  using try_peek_cases [of s] by simp

lemma try_next_Cons [simp]:
  "pk_items s = Inr l # xs \<Longrightarrow> \<exists>s'. try_next s = ROk (Some l, s') \<and> pk_items s' = xs"
  using try_next_cases [of s] by simp

section \<open>Values\<close>

definition parse_key32 :: "text_ext \<Rightarrow> string \<Rightarrow> (parse_error, bytes) rust_result" where
  "parse_key32 tx v =
     and_then (ok_or (InvalidValue v) (tx_hex_decode tx v)) (\<lambda>b. if length b \<noteq> 32 then RErr InvalidLength else ROk b)"

definition parse_num :: "string \<Rightarrow> (parse_error, 'a::len word) rust_result" where
  "parse_num v = ok_or (InvalidValue v) (parse_uint v)"

definition parse_flag :: "string \<Rightarrow> (parse_error, bool) rust_result" where
  "parse_flag v = ok_or (InvalidValue v) (parse_bool v)"

definition parse_allowed_ip :: "text_ext \<Rightarrow> string \<Rightarrow> (parse_error, ip_addr \<times> nat) rust_result" where
  "parse_allowed_ip tx v =
     (case splitn2 CHR ''/'' v of
        (ip, None) \<Rightarrow> RErr (InvalidAllowedIp v)
      | (ip, Some prefix_len) \<Rightarrow>
          and_then (ok_or (InvalidValue ip) (tx_ip_parse tx ip)) (\<lambda>ip.
          and_then (parse_num prefix_len :: (parse_error, u32) rust_result) (\<lambda>prefix_len.
            if ip_width ip < unat prefix_len then RErr (InvalidPrefixLength (unat prefix_len))
            else ROk (ip, unat prefix_len))))"

text \<open>The line \<open>public_key=...\<close> both parsers of a peer start with: the line, the key, the rest.\<close>

definition parse_public_key :: "text_ext \<Rightarrow> peekable \<Rightarrow> (parse_error, string \<times> bytes \<times> peekable) rust_result" where
  "parse_public_key tx s =
     and_then (try_next s) (\<lambda>(line, s).
       case line of
         None \<Rightarrow> RErr UnexpectedEnd
       | Some public_key_line \<Rightarrow>
           (case splitn2 CHR ''='' public_key_line of
              (k, None) \<Rightarrow> RErr (InvalidLine public_key_line)
            | (k, Some v) \<Rightarrow>
                if k \<noteq> ''public_key'' then RErr (UnexpectedLine public_key_line)
                else and_then (parse_key32 tx v) (\<lambda>key. ROk (public_key_line, key, s))))"

section \<open>Requests\<close>

definition new_set_peer :: "bytes \<Rightarrow> wg_set_peer_command" where
  "new_set_peer public_key =
     \<lparr>wsp_public_key = public_key, wsp_remove = False, wsp_preshared_key = None, wsp_endpoint = None,
      wsp_persistent_keepalive_interval = None, wsp_replace_allowed_ips = False, wsp_allowed_ips = {}\<rparr>"

text \<open>One line of a peer; \<open>None\<close> is a key that does not belong to a peer, at which the loop stops.\<close>

definition parse_peer_line :: "text_ext \<Rightarrow> string \<Rightarrow> string \<Rightarrow> wg_set_peer_command \<Rightarrow>
    (parse_error, wg_set_peer_command option) rust_result" where
  "parse_peer_line tx public_key_line line peer =
     (case splitn2 CHR ''='' line of
        (k, None) \<Rightarrow> RErr (InvalidLine public_key_line)
      | (k, Some v) \<Rightarrow>
          if k = ''remove'' then and_then (parse_flag v) (\<lambda>b. ROk (Some (peer\<lparr>wsp_remove := b\<rparr>)))
          else if k = ''preshared_key'' then
            and_then (parse_key32 tx v) (\<lambda>b. ROk (Some (peer\<lparr>wsp_preshared_key := Some b\<rparr>)))
          else if k = ''endpoint'' then
            and_then (ok_or (InvalidValue v) (tx_addr_parse tx v)) (\<lambda>a. ROk (Some (peer\<lparr>wsp_endpoint := Some a\<rparr>)))
          else if k = ''persistent_keepalive_interval'' then
            and_then (parse_num v) (\<lambda>n. ROk (Some (peer\<lparr>wsp_persistent_keepalive_interval := Some n\<rparr>)))
          else if k = ''replace_allowed_ips'' then
            and_then (parse_flag v) (\<lambda>b. ROk (Some (peer\<lparr>wsp_replace_allowed_ips := b\<rparr>)))
          else if k = ''allowed_ip'' then
            and_then (parse_allowed_ip tx v) (\<lambda>a. ROk (Some (peer\<lparr>wsp_allowed_ips := insert a (wsp_allowed_ips peer)\<rparr>)))
          else ROk None)"

function parse_peer_loop :: "text_ext \<Rightarrow> string \<Rightarrow> wg_set_peer_command \<Rightarrow> peekable \<Rightarrow>
    (parse_error, wg_set_peer_command \<times> peekable) rust_result" where
  "parse_peer_loop tx public_key_line peer s =
     and_then (try_peek s) (\<lambda>(line, s).
       case line of
         None \<Rightarrow> RErr UnexpectedEnd
       | Some line \<Rightarrow>
           if line = [] \<or> starts_with line ''public_key'' then ROk (peer, s)
           else and_then (parse_peer_line tx public_key_line line peer) (\<lambda>r.
             case r of
               None \<Rightarrow> ROk (peer, s)
             | Some peer \<Rightarrow> and_then (unwrap (try_next s)) (\<lambda>(_, s). parse_peer_loop tx public_key_line peer s)))"
  by pat_completeness auto
termination
  by (relation "measure (\<lambda>(_, _, _, s). length (pk_items s))") (auto dest!: peek_then_next)

definition parse_peer :: "text_ext \<Rightarrow> peekable \<Rightarrow> (parse_error, wg_set_peer_command \<times> peekable) rust_result" where
  "parse_peer tx s =
     and_then (parse_public_key tx s) (\<lambda>(public_key_line, public_key, s).
       parse_peer_loop tx public_key_line (new_set_peer public_key) s)"

declare parse_peer_loop.simps [simp del]

lemma parse_public_key_shorter:
  "parse_public_key tx s = ROk (l, k, s') \<Longrightarrow> length (pk_items s') < length (pk_items s) \<and> length k = 32"
  (is "_ \<Longrightarrow> ?goal")
proof -
  assume ok: "parse_public_key tx s = ROk (l, k, s')"
  then obtain line s1 where step: "try_next s = ROk (Some line, s1)"
    by (auto simp: parse_public_key_def and_then_ROk_iff split: option.splits)
  show ?goal using ok try_next_ROk [OF step]
    by (cases "splitn2 CHR ''='' line")
      (auto simp: parse_public_key_def parse_key32_def step and_then_ROk_iff ok_or_ROk_iff split: option.splits if_splits)
qed

lemma parse_peer_loop_shorter:
  "parse_peer_loop tx l peer s = ROk (p, s') \<Longrightarrow> length (pk_items s') \<le> length (pk_items s)"
proof (induction tx l peer s arbitrary: p s' rule: parse_peer_loop.induct)
  case (1 tx l peer s)
  from 1(2) obtain line s1 where peek: "try_peek s = ROk (Some line, s1)"
    by (subst (asm) parse_peer_loop.simps) (auto simp: and_then_ROk_iff split: option.splits)
  obtain s2 where s2: "try_next s1 = ROk (Some line, s2)" "length (pk_items s2) < length (pk_items s)"
    using peek_then_next [OF peek] by blast
  have s1: "pk_items s1 = pk_items s" using try_peek_ROk [OF peek] by simp
  show ?case using 1(2) 1(1) [OF peek refl refl] s2 s1 unfolding parse_peer_loop.simps [of tx l peer s] peek
    by (fastforce simp: and_then_ROk_iff split: if_splits option.splits)
qed

lemma parse_peer_shorter: "parse_peer tx s = ROk (p, s') \<Longrightarrow> length (pk_items s') < length (pk_items s)"
  unfolding parse_peer_def and_then_ROk_iff
  by (auto dest!: parse_public_key_shorter parse_peer_loop_shorter)

text \<open>The inner loop of \<open>parse_set_command\<close>, which reads the peers up to the empty line.\<close>

function parse_peers :: "text_ext \<Rightarrow> wg_set_command \<Rightarrow> peekable \<Rightarrow> (parse_error, wg_set_command) rust_result" where
  "parse_peers tx command s =
     and_then (parse_peer tx s) (\<lambda>(peer, s).
       let command = command\<lparr>wsc_peers := wsc_peers command @ [peer]\<rparr> in
       and_then (try_peek s) (\<lambda>(line, s).
         case line of
           None \<Rightarrow> RErr UnexpectedEnd
         | Some line \<Rightarrow> if line = [] then ROk command else parse_peers tx command s))"
  by pat_completeness auto
termination
  by (relation "measure (\<lambda>(_, _, s). length (pk_items s))") (auto dest!: parse_peer_shorter try_peek_ROk)

text \<open>One line before the peers.\<close>

definition parse_set_line :: "text_ext \<Rightarrow> 'h hs_externals \<Rightarrow> string \<Rightarrow> wg_set_command \<Rightarrow>
    (parse_error, wg_set_command) rust_result" where
  "parse_set_line tx x line command =
     (case splitn2 CHR ''='' line of
        (key, None) \<Rightarrow> RErr (InvalidLine line)
      | (key, Some v) \<Rightarrow>
          if key = ''private_key'' then
            and_then (parse_key32 tx v) (\<lambda>b.
              case key_from_slice x b of None \<Rightarrow> RPanic | Some k \<Rightarrow> ROk (command\<lparr>wsc_private_key := Some k\<rparr>))
          else if key = ''fwmark'' then and_then (parse_num v) (\<lambda>n. ROk (command\<lparr>wsc_fwmark := Some n\<rparr>))
          else if key = ''listen_port'' then and_then (parse_num v) (\<lambda>n. ROk (command\<lparr>wsc_listen_port := Some n\<rparr>))
          else if key = ''replace_peers'' then and_then (parse_flag v) (\<lambda>b. ROk (command\<lparr>wsc_replace_peers := b\<rparr>))
          else RErr (UnexpectedKey key))"

function parse_set_loop :: "text_ext \<Rightarrow> 'h hs_externals \<Rightarrow> wg_set_command \<Rightarrow> peekable \<Rightarrow>
    (parse_error, wg_set_command) rust_result" where
  "parse_set_loop tx x command s =
     and_then (try_peek s) (\<lambda>(line, s).
       case line of
         None \<Rightarrow> RErr UnexpectedEnd
       | Some line \<Rightarrow>
           if line = [] then and_then (unwrap (try_next s)) (\<lambda>_. ROk command)
           else if starts_with line ''public_key'' then parse_peers tx command s
           else and_then (unwrap (try_next s)) (\<lambda>(line, s).
             case line of
               None \<Rightarrow> RPanic
             | Some line \<Rightarrow> and_then (parse_set_line tx x line command) (\<lambda>command. parse_set_loop tx x command s)))"
  by pat_completeness auto
termination
  by (relation "measure (\<lambda>(_, _, _, s). length (pk_items s))") (auto dest!: peek_then_next)

declare parse_peers.simps [simp del] parse_set_loop.simps [simp del]

definition parse_set_command :: "text_ext \<Rightarrow> 'h hs_externals \<Rightarrow> peekable \<Rightarrow> (parse_error, wg_set_command) rust_result" where
  "parse_set_command tx x s =
     parse_set_loop tx x \<lparr>wsc_private_key = None, wsc_fwmark = None, wsc_listen_port = None,
       wsc_replace_peers = False, wsc_peers = []\<rparr> s"

definition parse_command :: "text_ext \<Rightarrow> 'h hs_externals \<Rightarrow> item list \<Rightarrow> (parse_error, wg_ipc_command option) rust_result" where
  "parse_command tx x stream =
     and_then (try_next (peekable_new stream)) (\<lambda>(first_line, s).
       case first_line of
         None \<Rightarrow> ROk None
       | Some first_line \<Rightarrow>
           if first_line = ''get=1'' then
             and_then (try_next s) (\<lambda>(empty_line, s).
               case empty_line of
                 None \<Rightarrow> RErr UnexpectedEnd
               | Some empty_line \<Rightarrow> if empty_line \<noteq> [] then RErr (ExpectedEmptyLine empty_line) else ROk (Some IpcGet))
           else if first_line = ''set=1'' then
             and_then (parse_set_command tx x s) (\<lambda>c. ROk (Some (IpcSet c)))
           else RErr (UnexpectedCommand first_line))"

section \<open>Responses\<close>

definition new_peer_state_out :: "bytes \<Rightarrow> peer_state_out" where
  "new_peer_state_out public_key =
     \<lparr>po_public_key = public_key, po_preshared_key = None, po_endpoint = None, po_last_handshake_time = None,
      po_rx_bytes = 0, po_tx_bytes = 0, po_persistent_keepalive_interval = 0, po_allowed_ips = {}\<rparr>"

text \<open>\<open>SystemTime + Duration\<close>, in nanoseconds since the epoch: the seconds are an \<open>i64\<close>.\<close>

definition system_time_add :: "nat \<Rightarrow> nat \<Rightarrow> ('e, nat) rust_result" where
  "system_time_add t d = (if (t + d) div 10 ^ 9 < 2 ^ 63 then ROk (t + d) else RPanic)"

definition parse_peer_state_line :: "text_ext \<Rightarrow> string \<Rightarrow> string \<Rightarrow> peer_state_out \<Rightarrow>
    (parse_error, peer_state_out option) rust_result" where
  "parse_peer_state_line tx public_key_line line peer =
     (case splitn2 CHR ''='' line of
        (k, None) \<Rightarrow> RErr (InvalidLine public_key_line)
      | (k, Some v) \<Rightarrow>
          if k = ''last_handshake_time_sec'' then
            and_then (parse_num v :: (parse_error, u64) rust_result) (\<lambda>sec.
            and_then (system_time_add 0 (unat sec * 10 ^ 9)) (\<lambda>t.
              ROk (Some (peer\<lparr>po_last_handshake_time := Some t\<rparr>))))
          else if k = ''last_handshake_time_nsec'' then
            and_then (parse_num v :: (parse_error, u64) rust_result) (\<lambda>nsec.
              case po_last_handshake_time peer of
                None \<Rightarrow> RErr NsecWithoutSec
              | Some t \<Rightarrow> and_then (system_time_add t (unat nsec)) (\<lambda>t.
                  ROk (Some (peer\<lparr>po_last_handshake_time := Some t\<rparr>))))
          else if k = ''rx_bytes'' then and_then (parse_num v) (\<lambda>n. ROk (Some (peer\<lparr>po_rx_bytes := n\<rparr>)))
          else if k = ''tx_bytes'' then and_then (parse_num v) (\<lambda>n. ROk (Some (peer\<lparr>po_tx_bytes := n\<rparr>)))
          else if k = ''preshared_key'' then
            and_then (parse_key32 tx v) (\<lambda>b. ROk (Some (peer\<lparr>po_preshared_key := Some b\<rparr>)))
          else if k = ''endpoint'' then
            and_then (ok_or (InvalidValue v) (tx_addr_parse tx v)) (\<lambda>a. ROk (Some (peer\<lparr>po_endpoint := Some a\<rparr>)))
          else if k = ''persistent_keepalive_interval'' then
            and_then (parse_num v) (\<lambda>n. ROk (Some (peer\<lparr>po_persistent_keepalive_interval := n\<rparr>)))
          else if k = ''allowed_ip'' then
            and_then (parse_allowed_ip tx v) (\<lambda>a. ROk (Some (peer\<lparr>po_allowed_ips := insert a (po_allowed_ips peer)\<rparr>)))
          else ROk None)"

function parse_peer_state_loop :: "text_ext \<Rightarrow> string \<Rightarrow> peer_state_out \<Rightarrow> peekable \<Rightarrow>
    (parse_error, peer_state_out \<times> peekable) rust_result" where
  "parse_peer_state_loop tx public_key_line peer s =
     and_then (try_peek s) (\<lambda>(line, s).
       case line of
         None \<Rightarrow> RErr UnexpectedEnd
       | Some line \<Rightarrow>
           if line = [] \<or> starts_with line ''public_key'' then ROk (peer, s)
           else and_then (parse_peer_state_line tx public_key_line line peer) (\<lambda>r.
             case r of
               None \<Rightarrow> ROk (peer, s)
             | Some peer \<Rightarrow>
                 and_then (unwrap (try_next s)) (\<lambda>(_, s). parse_peer_state_loop tx public_key_line peer s)))"
  by pat_completeness auto
termination
  by (relation "measure (\<lambda>(_, _, _, s). length (pk_items s))") (auto dest!: peek_then_next)

declare parse_peer_state_loop.simps [simp del]

definition parse_peer_state_out :: "text_ext \<Rightarrow> peekable \<Rightarrow> (parse_error, peer_state_out \<times> peekable) rust_result" where
  "parse_peer_state_out tx s =
     and_then (parse_public_key tx s) (\<lambda>(public_key_line, public_key, s).
       parse_peer_state_loop tx public_key_line (new_peer_state_out public_key) s)"

lemma parse_peer_state_loop_shorter:
  "parse_peer_state_loop tx l peer s = ROk (p, s') \<Longrightarrow> length (pk_items s') \<le> length (pk_items s)"
proof (induction tx l peer s arbitrary: p s' rule: parse_peer_state_loop.induct)
  case (1 tx l peer s)
  from 1(2) obtain line s1 where peek: "try_peek s = ROk (Some line, s1)"
    by (subst (asm) parse_peer_state_loop.simps) (auto simp: and_then_ROk_iff split: option.splits)
  obtain s2 where s2: "try_next s1 = ROk (Some line, s2)" "length (pk_items s2) < length (pk_items s)"
    using peek_then_next [OF peek] by blast
  have s1: "pk_items s1 = pk_items s" using try_peek_ROk [OF peek] by simp
  show ?case using 1(2) 1(1) [OF peek refl refl] s2 s1 unfolding parse_peer_state_loop.simps [of tx l peer s] peek
    by (fastforce simp: and_then_ROk_iff split: if_splits option.splits)
qed

lemma parse_peer_state_out_shorter:
  "parse_peer_state_out tx s = ROk (p, s') \<Longrightarrow> length (pk_items s') < length (pk_items s)"
  unfolding parse_peer_state_out_def and_then_ROk_iff
  by (auto dest!: parse_public_key_shorter parse_peer_state_loop_shorter)

function parse_peer_states :: "text_ext \<Rightarrow> wg_state_out \<Rightarrow> peekable \<Rightarrow> (parse_error, wg_state_out) rust_result" where
  "parse_peer_states tx state s =
     and_then (parse_peer_state_out tx s) (\<lambda>(peer, s).
       let state = state\<lparr>wo_peers := wo_peers state @ [peer]\<rparr> in
       and_then (try_peek s) (\<lambda>(line, s).
         case line of
           None \<Rightarrow> RErr UnexpectedEnd
         | Some line \<Rightarrow> if \<not> starts_with line ''public_key'' then ROk state else parse_peer_states tx state s))"
  by pat_completeness auto
termination
  by (relation "measure (\<lambda>(_, _, s). length (pk_items s))") (auto dest!: parse_peer_state_out_shorter try_peek_ROk)

text \<open>One line before the peers; \<open>None\<close> is the end of the response, whose version and error number are not read.\<close>

definition parse_state_line :: "text_ext \<Rightarrow> 'h hs_externals \<Rightarrow> string \<Rightarrow> wg_state_out \<Rightarrow>
    (parse_error, wg_state_out option) rust_result" where
  "parse_state_line tx x line state =
     (case splitn2 CHR ''='' line of
        (key, None) \<Rightarrow> RErr (InvalidLine line)
      | (key, Some v) \<Rightarrow>
          if key = ''private_key'' then
            and_then (parse_key32 tx v) (\<lambda>b.
              case key_from_slice x b of None \<Rightarrow> RPanic | Some k \<Rightarrow> ROk (Some (state\<lparr>wo_private_key := k\<rparr>)))
          else if key = ''fwmark'' then and_then (parse_num v) (\<lambda>n. ROk (Some (state\<lparr>wo_fwmark := n\<rparr>)))
          else if key = ''listen_port'' then and_then (parse_num v) (\<lambda>n. ROk (Some (state\<lparr>wo_listen_port := n\<rparr>)))
          else if key = ''errno'' then ROk None
          else if key = ''protocol_version'' then ROk None
          else RErr (UnexpectedKey key))"

function parse_state_loop :: "text_ext \<Rightarrow> 'h hs_externals \<Rightarrow> wg_state_out \<Rightarrow> peekable \<Rightarrow>
    (parse_error, wg_state_out) rust_result" where
  "parse_state_loop tx x state s =
     and_then (try_peek s) (\<lambda>(line, s).
       case line of
         None \<Rightarrow> RErr UnexpectedEnd
       | Some line \<Rightarrow>
           if line = [] then and_then (unwrap (try_next s)) (\<lambda>_. ROk state)
           else if starts_with line ''public_key'' then parse_peer_states tx state s
           else and_then (unwrap (try_next s)) (\<lambda>(line, s).
             case line of
               None \<Rightarrow> RPanic
             | Some line \<Rightarrow> and_then (parse_state_line tx x line state) (\<lambda>r.
                 case r of None \<Rightarrow> ROk state | Some state \<Rightarrow> parse_state_loop tx x state s)))"
  by pat_completeness auto
termination
  by (relation "measure (\<lambda>(_, _, _, s). length (pk_items s))") (auto dest!: peek_then_next)

declare parse_peer_states.simps [simp del] parse_state_loop.simps [simp del]

text \<open>\<open>X25519Key::new\<close> is the key of 32 zero bytes; its \<open>from_slice\<close> cannot fail.\<close>

definition key_new :: "'h hs_externals \<Rightarrow> x25519_key" where
  "key_new x = the (key_from_slice x (replicate 32 0))"

definition parse_wg_state_out :: "text_ext \<Rightarrow> 'h hs_externals \<Rightarrow> peekable \<Rightarrow> (parse_error, wg_state_out) rust_result" where
  "parse_wg_state_out tx x s =
     parse_state_loop tx x \<lparr>wo_private_key = key_new x, wo_peers = [], wo_listen_port = 0, wo_fwmark = 0\<rparr> s"

definition parse_get_response :: "text_ext \<Rightarrow> 'h hs_externals \<Rightarrow> item list \<Rightarrow>
    (parse_error, int + wg_state_out) rust_result" where
  "parse_get_response tx x stream =
     and_then (try_peek (peekable_new stream)) (\<lambda>(first_line, s).
       case first_line of
         None \<Rightarrow> RErr EmptyResponse
       | Some first_line \<Rightarrow>
           if starts_with first_line ''errno='' then
             (case splitn2 CHR ''='' first_line of
                (_, None) \<Rightarrow> RErr (InvalidLine first_line)
              | (_, Some v) \<Rightarrow> and_then (ok_or (InvalidValue v) (parse_i32 v)) (\<lambda>errno. ROk (Inl errno)))
           else and_then (parse_wg_state_out tx x s) (\<lambda>state. ROk (Inr state)))"

section \<open>Byte streams\<close>

text \<open>
  \<open>FramedRead\<close> with \<open>LinesCodec::new_with_max_length\<close> turns the input into the items of its stream.
\<close>

datatype codec_error = MaxLineLengthExceeded | CodecIo io_error

type_synonym lines_codec = "nat \<Rightarrow> string \<Rightarrow> (codec_error + string) list"

definition map_codec_error :: "codec_error + string \<Rightarrow> item" where
  "map_codec_error r =
     (case r of
        Inr l \<Rightarrow> Inr l
      | Inl MaxLineLengthExceeded \<Rightarrow> Inl ''max line length exceeded''
      | Inl (CodecIo e) \<Rightarrow> Inl e)"

definition parse_command_io :: "text_ext \<Rightarrow> 'h hs_externals \<Rightarrow> lines_codec \<Rightarrow> string \<Rightarrow>
    (parse_error, wg_ipc_command option) rust_result" where
  "parse_command_io tx x codec stream = parse_command tx x (map map_codec_error (codec 128 stream))"

definition parse_get_response_io :: "text_ext \<Rightarrow> 'h hs_externals \<Rightarrow> lines_codec \<Rightarrow> string \<Rightarrow>
    (parse_error, int + wg_state_out) rust_result" where
  "parse_get_response_io tx x codec stream =
     parse_get_response tx x (map map_codec_error (codec 128 stream))"

end
