(* ===== verification/Wg_Routes.thy ===== *)
theory Wg_Routes
  imports Wg_State
begin

text \<open>
  The routes of an interface as one map. The loops of \<open>set_peer\<close> and \<open>remove_peer\<close> are described by
  what they do to the map \<open>routes\<close> from allowed IPs to peers; the invariant \<open>routes_inv\<close> says that
  the map and the allowed IPs of the peers agree, and it rules out every panic and the deadlock of
  \<open>set_peer\<close>.
\<close>

section \<open>The tables as one map\<close>

definition canonical :: "ip_addr \<times> nat \<Rightarrow> bool" where
  "canonical k \<longleftrightarrow> (case k of (a, l) \<Rightarrow> l \<le> ip_width a \<and> ip_masked a l = a)"

definition table_route :: "'h wg_state \<Rightarrow> ip_addr \<times> nat \<Rightarrow> nat option" where
  "table_route w k =
     (case k of
        (IpV4 a, l) \<Rightarrow> table_entries (ws_rt4 w) (pre l a)
      | (IpV6 a, l) \<Rightarrow> table_entries (ws_rt6 w) (pre l a))"

definition routes :: "'h wg_state \<Rightarrow> ip_addr \<times> nat \<Rightarrow> nat option" where
  "routes w k = (if canonical k then table_route w k else None)"

definition tables_wf :: "'h wg_state \<Rightarrow> bool" where
  "tables_wf w \<longleftrightarrow> table_wf (ws_rt4 w) \<and> table_wf (ws_rt6 w)"

text \<open>A state that differs from another at most in its tables.\<close>

definition same_but_tables :: "'h wg_state \<Rightarrow> 'h wg_state \<Rightarrow> bool" where
  "same_but_tables w w' \<longleftrightarrow> w' = w\<lparr>ws_rt4 := ws_rt4 w', ws_rt6 := ws_rt6 w'\<rparr>"

lemma same_but_tables_refl [simp]: "same_but_tables w w"
  by (simp add: same_but_tables_def)

lemma same_but_tables_trans [trans]:
  assumes "same_but_tables u v" "same_but_tables v w"
  shows "same_but_tables u w"
proof -
  have "w = v\<lparr>ws_rt4 := ws_rt4 w, ws_rt6 := ws_rt6 w\<rparr>" using assms(2) by (simp add: same_but_tables_def)
  also have "\<dots> = (u\<lparr>ws_rt4 := ws_rt4 v, ws_rt6 := ws_rt6 v\<rparr>)\<lparr>ws_rt4 := ws_rt4 w, ws_rt6 := ws_rt6 w\<rparr>"
    using assms(1) unfolding same_but_tables_def by metis
  finally show ?thesis by (simp add: same_but_tables_def)
qed

lemma same_but_tables_sel:
  assumes "same_but_tables w w'"
  shows "ws_info w' = ws_info w" "ws_pubkey_map w' = ws_pubkey_map w" "ws_id_map w' = ws_id_map w"
    "ws_peers w' = ws_peers w" "ws_next w' = ws_next w" "ws_socket w' = ws_socket w" "ws_sender w' = ws_sender w"
    "ws_mtu w' = ws_mtu w" "ws_load_monitor w' = ws_load_monitor w" "ws_cookie_secret w' = ws_cookie_secret w"
proof -
  obtain t4 t6 where w': "w' = w\<lparr>ws_rt4 := t4, ws_rt6 := t6\<rparr>" using assms unfolding same_but_tables_def by blast
  show "ws_info w' = ws_info w" "ws_pubkey_map w' = ws_pubkey_map w" "ws_id_map w' = ws_id_map w"
    "ws_peers w' = ws_peers w" "ws_next w' = ws_next w" "ws_socket w' = ws_socket w" "ws_sender w' = ws_sender w"
    "ws_mtu w' = ws_mtu w" "ws_load_monitor w' = ws_load_monitor w" "ws_cookie_secret w' = ws_cookie_secret w"
    by (simp_all add: w')
qed

lemma canonical_masked: "l \<le> ip_width a \<Longrightarrow> canonical (ip_masked a l, l)"
  by (cases a) (simp_all add: canonical_def address_masked_def masked_masked)

lemma pre_canonical_inject:
  fixes a b :: "'a::len word"
  assumes "address_masked a l = a" "address_masked b m = b" "l \<le> LENGTH('a)" "pre l a = pre m b"
  shows "a = b \<and> l = m"
proof -
  have "l = m" using assms(4) by (metis length_pre)
  then show ?thesis
    using assms masked_eq_iff [of l a b] by (simp add: address_masked_def)
qed

lemma routes_update4:
  assumes "canonical (IpV4 b, m)" "table_entries t = (table_entries (ws_rt4 w))(pre m b := v)"
  shows "routes (w\<lparr>ws_rt4 := t\<rparr>) = (routes w)((IpV4 b, m) := v)"
proof
  fix k
  have b: "address_masked b m = b" "m \<le> LENGTH(32)" using assms(1) by (simp_all add: canonical_def)
  have "pre l c = pre m b \<longleftrightarrow> c = b \<and> l = m" if "canonical (IpV4 c, l)" for c l
    using that b pre_canonical_inject [of c l b m] by (auto simp: canonical_def)
  then show "routes (w\<lparr>ws_rt4 := t\<rparr>) k = ((routes w)((IpV4 b, m) := v)) k"
    using assms(1) by (cases k; cases "fst k") (auto simp: routes_def table_route_def assms(2))
qed

lemma routes_update6:
  assumes "canonical (IpV6 b, m)" "table_entries t = (table_entries (ws_rt6 w))(pre m b := v)"
  shows "routes (w\<lparr>ws_rt6 := t\<rparr>) = (routes w)((IpV6 b, m) := v)"
proof
  fix k
  have b: "address_masked b m = b" "m \<le> LENGTH(128)" using assms(1) by (simp_all add: canonical_def)
  have "pre l c = pre m b \<longleftrightarrow> c = b \<and> l = m" if "canonical (IpV6 c, l)" for c l
    using that b pre_canonical_inject [of c l b m] by (auto simp: canonical_def)
  then show "routes (w\<lparr>ws_rt6 := t\<rparr>) k = ((routes w)((IpV6 b, m) := v)) k"
    using assms(1) by (cases k; cases "fst k") (auto simp: routes_def table_route_def assms(2))
qed

lemma rt_insert_ok:
  assumes "tables_wf w" "canonical (a, m)"
  shows "\<exists>w'. rt_insert a m r w = Some (routes w (a, m), w') \<and> tables_wf w' \<and> same_but_tables w w' \<and>
    routes w' = (routes w)((a, m) \<mapsto> r)"
proof (cases a)
  case (IpV4 b)
  then obtain t where t: "table_insert (ws_rt4 w) b m r = Some (table_entries (ws_rt4 w) (pre m b), t)" "table_wf t"
    "table_entries t = (table_entries (ws_rt4 w))(pre m b \<mapsto> r)"
    using table_insert_correct [of "ws_rt4 w" m b r] assms by (auto simp: tables_wf_def canonical_def)
  then show ?thesis
    using assms IpV4 routes_update4 [OF _ t(3)]
    by (auto simp: rt_insert_def tables_wf_def same_but_tables_def routes_def [of w] table_route_def)
next
  case (IpV6 b)
  then obtain t where t: "table_insert (ws_rt6 w) b m r = Some (table_entries (ws_rt6 w) (pre m b), t)" "table_wf t"
    "table_entries t = (table_entries (ws_rt6 w))(pre m b \<mapsto> r)"
    using table_insert_correct [of "ws_rt6 w" m b r] assms by (auto simp: tables_wf_def canonical_def)
  then show ?thesis
    using assms IpV6 routes_update6 [OF _ t(3)]
    by (auto simp: rt_insert_def tables_wf_def same_but_tables_def routes_def [of w] table_route_def)
qed

lemma rt_remove_ok:
  assumes "tables_wf w" "canonical (a, m)"
  shows "\<exists>w'. rt_remove a m w = Some w' \<and> tables_wf w' \<and> same_but_tables w w' \<and> routes w' = (routes w)((a, m) := None)"
proof (cases a)
  case (IpV4 b)
  then obtain t where t: "table_remove (ws_rt4 w) b m = Some (table_entries (ws_rt4 w) (pre m b), t)" "table_wf t"
    "table_entries t = (table_entries (ws_rt4 w))(pre m b := None)"
    using table_remove_correct [of "ws_rt4 w" m b] assms by (auto simp: tables_wf_def canonical_def)
  then show ?thesis
    using assms IpV4 routes_update4 [OF _ t(3)] by (auto simp: rt_remove_def tables_wf_def same_but_tables_def)
next
  case (IpV6 b)
  then obtain t where t: "table_remove (ws_rt6 w) b m = Some (table_entries (ws_rt6 w) (pre m b), t)" "table_wf t"
    "table_entries t = (table_entries (ws_rt6 w))(pre m b := None)"
    using table_remove_correct [of "ws_rt6 w" m b] assms by (auto simp: tables_wf_def canonical_def)
  then show ?thesis
    using assms IpV6 routes_update6 [OF _ t(3)] by (auto simp: rt_remove_def tables_wf_def same_but_tables_def)
qed

section \<open>The loops\<close>

lemma remove_routes_ok:
  assumes "tables_wf w" "list_all canonical ks"
  shows "\<exists>w'. remove_routes ks w = Some w' \<and> tables_wf w' \<and> same_but_tables w w' \<and>
    routes w' = (\<lambda>k. if k \<in> set ks then None else routes w k)"
  using assms
proof (induction ks arbitrary: w)
  case (Cons k ks)
  obtain a m where k: "k = (a, m)" by (cases k)
  obtain w1 where 1: "rt_remove a m w = Some w1" "tables_wf w1" "same_but_tables w w1"
    "routes w1 = (routes w)((a, m) := None)"
    using rt_remove_ok [of w a m] Cons.prems by (auto simp: k)
  obtain w2 where 2: "remove_routes ks w1 = Some w2" "tables_wf w2" "same_but_tables w1 w2"
    "routes w2 = (\<lambda>k. if k \<in> set ks then None else routes w1 k)"
    using Cons.IH [OF 1(2)] Cons.prems by auto
  show ?case using 1 2 same_but_tables_trans [OF 1(3) 2(3)] by (auto simp: k fun_eq_iff)
qed auto

definition old_routes :: "'h wg_state \<Rightarrow> (ip_addr \<times> nat) list \<Rightarrow> (nat \<times> ip_addr \<times> nat) list" where
  "old_routes w ks = concat (map (\<lambda>k. case routes w k of Some r \<Rightarrow> [(r, k)] | None \<Rightarrow> []) ks)"

lemma add_routes_ok:
  assumes "tables_wf w" "list_all canonical ks" "distinct ks"
  shows "\<exists>w'. add_routes r ks others w = Some (others @ old_routes w ks, w') \<and> tables_wf w' \<and> same_but_tables w w' \<and>
    routes w' = (\<lambda>k. if k \<in> set ks then Some r else routes w k)"
  using assms
proof (induction ks arbitrary: w others)
  case (Cons k ks)
  obtain a m where k: "k = (a, m)" by (cases k)
  obtain w1 where 1: "rt_insert a m r w = Some (routes w (a, m), w1)" "tables_wf w1" "same_but_tables w w1"
    "routes w1 = (routes w)((a, m) \<mapsto> r)"
    using rt_insert_ok [of w a m r] Cons.prems by (auto simp: k)
  let ?others = "others @ (case routes w (a, m) of Some o' \<Rightarrow> [(o', a, m)] | None \<Rightarrow> [])"
  obtain w2 where 2: "add_routes r ks ?others w1 = Some (?others @ old_routes w1 ks, w2)" "tables_wf w2"
    "same_but_tables w1 w2" "routes w2 = (\<lambda>k. if k \<in> set ks then Some r else routes w1 k)"
    using Cons.IH [OF 1(2), of ?others] Cons.prems by auto
  have "old_routes w1 ks = old_routes w ks"
    unfolding old_routes_def using Cons.prems(3)
    by (intro arg_cong [where f = concat] map_cong) (auto simp: 1(4) k)
  then have "others @ old_routes w (k # ks) = ?others @ old_routes w1 ks"
    by (simp add: old_routes_def k split: option.split)
  then show ?case using 1 2 same_but_tables_trans [OF 1(3) 2(3)] by (auto simp: k fun_eq_iff)
qed (auto simp: old_routes_def)

lemma set_allowed_ips_simps [simp]:
  "set_allowed_ips A (set_allowed_ips B p) = set_allowed_ips A p"
  "pi_allowed_ips (ps_info (set_allowed_ips A p)) = A"
  "set_allowed_ips (pi_allowed_ips (ps_info p)) p = p"
  "ps_guards (set_allowed_ips A p) = ps_guards p"
  "pi_public_key (ps_info (set_allowed_ips A p)) = pi_public_key (ps_info p)"
  by (simp_all add: set_allowed_ips_def ps_guards_def)

lemma update_peer_sel [simp]:
  "ws_rt4 (update_peer r f w) = ws_rt4 w" "ws_rt6 (update_peer r f w) = ws_rt6 w"
  "ws_pubkey_map (update_peer r f w) = ws_pubkey_map w" "ws_id_map (update_peer r f w) = ws_id_map w"
  "ws_next (update_peer r f w) = ws_next w" "ws_info (update_peer r f w) = ws_info w"
  "ws_peers (update_peer r f w) = (ws_peers w)(r := f (ws_peers w r))"
  by (simp_all add: update_peer_def)

lemma update_peer_twice [simp]: "update_peer r f (update_peer r g w) = update_peer r (\<lambda>p. f (g p)) w"
  by (simp add: update_peer_def)

lemma drop_guards_sel [simp]:
  "ws_rt4 (drop_guards ids w) = ws_rt4 w" "ws_rt6 (drop_guards ids w) = ws_rt6 w"
  "ws_pubkey_map (drop_guards ids w) = ws_pubkey_map w" "ws_peers (drop_guards ids w) = ws_peers w"
  "ws_next (drop_guards ids w) = ws_next w" "ws_info (drop_guards ids w) = ws_info w"
  "ws_id_map (drop_guards ids w) = ws_id_map w |` (- set ids)"
  by (simp_all add: drop_guards_def)

lemma routes_cong: "ws_rt4 w' = ws_rt4 w \<Longrightarrow> ws_rt6 w' = ws_rt6 w \<Longrightarrow> routes w' = routes w"
  by (auto simp: routes_def table_route_def fun_eq_iff split: prod.split ip_addr.split)

lemma tables_wf_cong: "ws_rt4 w' = ws_rt4 w \<Longrightarrow> ws_rt6 w' = ws_rt6 w \<Longrightarrow> tables_wf w' = tables_wf w"
  by (simp add: tables_wf_def)

lemma routes_sel [simp]:
  "routes (update_peer r f w) = routes w" "routes (drop_guards ids w) = routes w"
  "tables_wf (update_peer r f w) = tables_wf w" "tables_wf (drop_guards ids w) = tables_wf w"
  by (rule routes_cong tables_wf_cong; simp)+

lemma same_but_tables_update:
  "same_but_tables w w' \<Longrightarrow> same_but_tables (update_peer r f w) (update_peer r f w')"
  unfolding same_but_tables_def
proof -
  assume w': "w' = w\<lparr>ws_rt4 := ws_rt4 w', ws_rt6 := ws_rt6 w'\<rparr>"
  show "update_peer r f w' = (update_peer r f w)\<lparr>ws_rt4 := ws_rt4 (update_peer r f w'), ws_rt6 := ws_rt6 (update_peer r f w')\<rparr>"
    by (subst w') (simp add: update_peer_def)
qed

lemma append_routes_ok:
  assumes "tables_wf w" "list_all canonical ks" "distinct ks"
  shows "\<exists>w'. append_routes r ks others w =
      Some (others @ old_routes w (filter (\<lambda>k. k \<notin> peer_allowed_ips w r) ks), w') \<and> tables_wf w' \<and>
    same_but_tables (update_peer r (set_allowed_ips (peer_allowed_ips w r \<union> set ks)) w) w' \<and>
    routes w' = (\<lambda>k. if k \<in> set ks - peer_allowed_ips w r then Some r else routes w k)"
  using assms
proof (induction ks arbitrary: w others)
  case Nil
  have "update_peer r (set_allowed_ips (peer_allowed_ips w r)) w = w"
    by (simp add: update_peer_def peer_allowed_ips_def)
  then show ?case using Nil by (simp add: old_routes_def)
next
  case (Cons k ks)
  obtain a m where k: "k = (a, m)" by (cases k)
  show ?case
  proof (cases "k \<in> peer_allowed_ips w r")
    case True
    then have "insert k (peer_allowed_ips w r \<union> set ks) = peer_allowed_ips w r \<union> set ks"
      "set (k # ks) - peer_allowed_ips w r = set ks - peer_allowed_ips w r" by auto
    then show ?thesis using Cons.IH [of w others] Cons.prems True by (simp add: k)
  next
    case False
    obtain w1 where 1: "rt_insert a m r w = Some (routes w (a, m), w1)" "tables_wf w1" "same_but_tables w w1"
      "routes w1 = (routes w)((a, m) \<mapsto> r)"
      using rt_insert_ok [of w a m r] Cons.prems by (auto simp: k)
    let ?f = "\<lambda>p. set_allowed_ips (insert (a, m) (pi_allowed_ips (ps_info p))) p"
    let ?w1 = "update_peer r ?f w1"
    let ?others = "others @ (case routes w (a, m) of Some o' \<Rightarrow> [(o', a, m)] | None \<Rightarrow> [])"
    have allowed: "peer_allowed_ips ?w1 r = insert k (peer_allowed_ips w r)"
      by (simp add: peer_allowed_ips_def same_but_tables_sel [OF 1(3)] k)
    obtain w2 where 2: "append_routes r ks ?others ?w1 =
        Some (?others @ old_routes ?w1 (filter (\<lambda>k'. k' \<notin> insert k (peer_allowed_ips w r)) ks), w2)" "tables_wf w2"
      "same_but_tables (update_peer r (set_allowed_ips (insert k (peer_allowed_ips w r) \<union> set ks)) ?w1) w2"
      "routes w2 = (\<lambda>k'. if k' \<in> set ks - insert k (peer_allowed_ips w r) then Some r else routes ?w1 k')"
      using Cons.IH [of ?w1 ?others] Cons.prems 1(2) unfolding allowed by auto
    have filter: "filter (\<lambda>k'. k' \<notin> insert k (peer_allowed_ips w r)) ks = filter (\<lambda>k'. k' \<notin> peer_allowed_ips w r) ks"
      using Cons.prems(3) by (intro filter_cong) auto
    have "old_routes ?w1 (filter (\<lambda>k'. k' \<notin> peer_allowed_ips w r) ks) = old_routes w (filter (\<lambda>k'. k' \<notin> peer_allowed_ips w r) ks)"
      unfolding old_routes_def using Cons.prems(3)
      by (intro arg_cong [where f = concat] map_cong) (auto simp: 1(4) k)
    then have others: "others @ old_routes w (filter (\<lambda>k'. k' \<notin> peer_allowed_ips w r) (k # ks)) =
        ?others @ old_routes ?w1 (filter (\<lambda>k'. k' \<notin> insert k (peer_allowed_ips w r)) ks)"
      using False unfolding filter by (simp add: old_routes_def k split: option.split)
    have "same_but_tables (update_peer r (set_allowed_ips (peer_allowed_ips w r \<union> set (k # ks))) w)
        (update_peer r (set_allowed_ips (insert k (peer_allowed_ips w r) \<union> set ks)) ?w1)"
      using same_but_tables_update [OF 1(3)] by simp
    note same = same_but_tables_trans [OF this 2(3)]
    have step: "append_routes r (k # ks) others w = append_routes r ks ?others ?w1"
      using False 1(1) by (simp add: k)
    have final: "routes w2 = (\<lambda>k'. if k' \<in> set (k # ks) - peer_allowed_ips w r then Some r else routes w k')"
      using False by (auto simp: 2(4) 1(4) k fun_eq_iff)
    show ?thesis
      unfolding others
      by (intro exI [of _ w2] conjI) (rule trans [OF step 2(1)], rule 2(2), rule same, rule final)
  qed
qed

lemma remove_from_others_ok:
  assumes "distinct others" "\<And>p k. (p, k) \<in> set others \<Longrightarrow> p \<noteq> r \<and> k \<in> peer_allowed_ips w p"
  shows "remove_from_others r others w = Some (w\<lparr>ws_peers := \<lambda>p.
    set_allowed_ips (peer_allowed_ips w p - {k. (p, k) \<in> set others}) (ws_peers w p)\<rparr>)"
  using assms
proof (induction others arbitrary: w)
  case Nil
  then show ?case by (simp add: peer_allowed_ips_def)
next
  case (Cons x others)
  obtain p a m where x: "x = (p, a, m)" by (cases x)
  let ?w = "update_peer p (\<lambda>q. set_allowed_ips (pi_allowed_ips (ps_info q) - {(a, m)}) q) w"
  have allowed: "peer_allowed_ips ?w q = (if q = p then peer_allowed_ips w q - {(a, m)} else peer_allowed_ips w q)" for q
    by (simp add: peer_allowed_ips_def)
  have "remove_from_others r others ?w = Some (?w\<lparr>ws_peers := \<lambda>q.
    set_allowed_ips (peer_allowed_ips ?w q - {k. (q, k) \<in> set others}) (ws_peers ?w q)\<rparr>)"
  proof (rule Cons.IH)
    fix q k assume "(q, k) \<in> set others"
    then show "q \<noteq> r \<and> k \<in> peer_allowed_ips ?w q"
      using Cons.prems(1) Cons.prems(2) [of q k] by (auto simp: allowed x)
  qed (use Cons.prems(1) in simp)
  moreover have "(\<lambda>q. set_allowed_ips (peer_allowed_ips ?w q - {k. (q, k) \<in> set others}) (ws_peers ?w q)) =
      (\<lambda>q. set_allowed_ips (peer_allowed_ips w q - {k. (q, k) \<in> set (x # others)}) (ws_peers w q))"
    by (auto simp: fun_eq_iff allowed x intro!: arg_cong2 [where f = set_allowed_ips])
  moreover have "p \<noteq> r" "(a, m) \<in> peer_allowed_ips w p" using Cons.prems(2) [of p "(a, m)"] by (simp_all add: x)
  ultimately show ?case by (simp add: x update_peer_def)
qed

section \<open>The invariant of the routes\<close>

definition live :: "'h wg_state \<Rightarrow> nat set" where
  "live w = snd ` set (ws_pubkey_map w)"

definition routes_inv :: "'h wg_state \<Rightarrow> bool" where
  "routes_inv w \<longleftrightarrow> tables_wf w \<and>
     (\<forall>k r. routes w k = Some r \<longleftrightarrow> r \<in> live w \<and> k \<in> peer_allowed_ips w r) \<and>
     (\<forall>r \<in> live w. finite (peer_allowed_ips w r))"

lemma routes_canonical: "routes w k = Some r \<Longrightarrow> canonical k"
  by (simp add: routes_def split: if_splits)

lemma routes_invD:
  assumes "routes_inv w"
  shows "tables_wf w" "routes w k = Some r \<longleftrightarrow> r \<in> live w \<and> k \<in> peer_allowed_ips w r"
    "r \<in> live w \<Longrightarrow> finite (peer_allowed_ips w r)" "r \<in> live w \<Longrightarrow> k \<in> peer_allowed_ips w r \<Longrightarrow> canonical k"
  using assms routes_canonical unfolding routes_inv_def by blast+

lemma old_routes_set: "(p, k) \<in> set (old_routes w ks) \<longleftrightarrow> k \<in> set ks \<and> routes w k = Some p"
  by (auto simp: old_routes_def split: option.splits)

lemma old_routes_distinct: "distinct ks \<Longrightarrow> distinct (old_routes w ks)"
proof (induction ks)
  case (Cons k ks)
  have "(p, k) \<notin> set (old_routes w ks)" for p using Cons.prems by (simp add: old_routes_set)
  then show ?case using Cons by (simp add: old_routes_def split: option.split)
qed (simp add: old_routes_def)

text \<open>What \<open>set_peer\<close> does to the allowed IPs of all peers.\<close>

definition masked_ips :: "set_peer_command \<Rightarrow> (ip_addr \<times> nat) set" where
  "masked_ips command = (\<lambda>(a, l). (ip_masked a l, l)) ` sp_allowed_ips command"

definition command_ok :: "set_peer_command \<Rightarrow> bool" where
  "command_ok command \<longleftrightarrow> finite (sp_allowed_ips command) \<and> (\<forall>(a, l) \<in> sp_allowed_ips command. l \<le> ip_width a)"

definition allowed_after :: "set_peer_command \<Rightarrow> nat \<Rightarrow> 'h wg_state \<Rightarrow> nat \<Rightarrow> (ip_addr \<times> nat) set" where
  "allowed_after command r w p =
     (if p = r
      then (if sp_replace_allowed_ips command then {} else peer_allowed_ips w r) \<union> masked_ips command
      else peer_allowed_ips w p - masked_ips command)"

lemma masked_ips_ok: "command_ok command \<Longrightarrow> finite (masked_ips command) \<and> (\<forall>k \<in> masked_ips command. canonical k)"
  by (auto simp: command_ok_def masked_ips_def canonical_masked)

lemma set_peer_psk_sel:
  assumes "set_peer_psk command p = (d, p')"
  shows "pi_allowed_ips (ps_info p') = pi_allowed_ips (ps_info p)"
    and "pi_public_key (ps_info p') = pi_public_key (ps_info p)"
    and "d = (if pi_psk (ps_info p) \<noteq> sp_preshared_key command then ps_guards p else [])"
    and "ps_guards p' = (if pi_psk (ps_info p) \<noteq> sp_preshared_key command then [] else ps_guards p)"
    and "length (ps_queue p') \<le> length (ps_queue p)" "length (ps_transports p') \<le> length (ps_transports p)"
    and "pi_psk (ps_info p') = sp_preshared_key command"
  using assms by (auto simp: set_peer_psk_def ps_clear_all_def ps_guards_def split: if_splits)

lemma set_peer_endpoint_sel [simp]:
  "pi_allowed_ips (ps_info (set_peer_endpoint command p)) = pi_allowed_ips (ps_info p)"
  "pi_public_key (ps_info (set_peer_endpoint command p)) = pi_public_key (ps_info p)"
  "pi_psk (ps_info (set_peer_endpoint command p)) = pi_psk (ps_info p)"
  "ps_guards (set_peer_endpoint command p) = ps_guards p"
  "ps_queue (set_peer_endpoint command p) = ps_queue p" "ps_transports (set_peer_endpoint command p) = ps_transports p"
  by (auto simp: set_peer_endpoint_def ps_guards_def Let_def split: option.split)

lemma set_peer_keepalive_sel [simp]:
  "pi_allowed_ips (ps_info (set_peer_keepalive now command p)) = pi_allowed_ips (ps_info p)"
  "pi_public_key (ps_info (set_peer_keepalive now command p)) = pi_public_key (ps_info p)"
  "pi_psk (ps_info (set_peer_keepalive now command p)) = pi_psk (ps_info p)"
  "pi_endpoint (ps_info (set_peer_keepalive now command p)) = pi_endpoint (ps_info p)"
  "pi_roaming (ps_info (set_peer_keepalive now command p)) = pi_roaming (ps_info p)"
  "ps_guards (set_peer_keepalive now command p) = ps_guards p"
  "ps_queue (set_peer_keepalive now command p) = ps_queue p"
  "ps_transports (set_peer_keepalive now command p) = ps_transports p"
  by (auto simp: set_peer_keepalive_def ps_guards_def Let_def split: option.split)

lemma set_peer_info_sel:
  assumes "set_peer_info now command p = (d, p')"
  shows "pi_allowed_ips (ps_info p') = pi_allowed_ips (ps_info p)"
    and "pi_public_key (ps_info p') = pi_public_key (ps_info p)"
    and "d = (if pi_psk (ps_info p) \<noteq> sp_preshared_key command then ps_guards p else [])"
    and "ps_guards p' = (if pi_psk (ps_info p) \<noteq> sp_preshared_key command then [] else ps_guards p)"
    and "length (ps_queue p') \<le> length (ps_queue p)" "length (ps_transports p') \<le> length (ps_transports p)"
    and "pi_psk (ps_info p') = sp_preshared_key command"
proof -
  obtain q where q: "set_peer_psk command p = (d, q)" "p' = set_peer_keepalive now command (set_peer_endpoint command q)"
    using assms by (auto simp: set_peer_info_def Let_def split: prod.splits)
  note sel = set_peer_psk_sel [OF q(1)]
  show "pi_allowed_ips (ps_info p') = pi_allowed_ips (ps_info p)"
    "pi_public_key (ps_info p') = pi_public_key (ps_info p)"
    "d = (if pi_psk (ps_info p) \<noteq> sp_preshared_key command then ps_guards p else [])"
    "ps_guards p' = (if pi_psk (ps_info p) \<noteq> sp_preshared_key command then [] else ps_guards p)"
    "length (ps_queue p') \<le> length (ps_queue p)" "length (ps_transports p') \<le> length (ps_transports p)"
    "pi_psk (ps_info p') = sp_preshared_key command"
    using sel by (simp_all add: q(2))
qed

lemma masked_ips_eq [simp]: "(\<lambda>(a, l). (ip_masked a l, l)) ` sp_allowed_ips command = masked_ips command"
  by (simp add: masked_ips_def)

lemma others_allowed:
  assumes inv: "routes_inv w" and r: "r \<in> live w" and p: "p \<in> live w" "p \<noteq> r"
    and others: "\<And>p k. (p, k) \<in> set others \<longleftrightarrow> k \<in> A - peer_allowed_ips w r \<and> routes w k = Some p"
  shows "peer_allowed_ips w p - {k. (p, k) \<in> set others} = peer_allowed_ips w p - A"
proof -
  have "k \<notin> peer_allowed_ips w r" if "k \<in> peer_allowed_ips w p" for k
    using routes_invD(2) [OF inv, of k r] routes_invD(2) [OF inv, of k p] r p that by auto
  then show ?thesis using routes_invD(2) [OF inv, of _ p] p by (auto simp: others)
qed

text \<open>The last loop of \<open>set_peer\<close>, from a state where the routes are already changed.\<close>

lemma set_peer_finish:
  assumes inv: "routes_inv w" and r: "r \<in> live w"
    and peers: "ws_peers v = (ws_peers w)(r := set_allowed_ips B p1)"
    and others: "\<And>p k. (p, k) \<in> set others \<longleftrightarrow> k \<in> A - peer_allowed_ips w r \<and> routes w k = Some p"
    and distinct: "distinct others"
  shows "\<exists>ps. remove_from_others r others v = Some (v\<lparr>ws_peers := ps\<rparr>) \<and>
    ps r = set_allowed_ips B p1 \<and>
    (\<forall>p \<in> live w. p \<noteq> r \<longrightarrow> ps p = set_allowed_ips (peer_allowed_ips w p - A) (ws_peers w p))"
proof (intro exI conjI)
  let ?ps = "\<lambda>p. set_allowed_ips (peer_allowed_ips v p - {k. (p, k) \<in> set others}) (ws_peers v p)"
  have allowed: "peer_allowed_ips v p = (if p = r then B else peer_allowed_ips w p)" for p
    by (simp add: peer_allowed_ips_def peers)
  have foreign: "p \<noteq> r \<and> k \<in> peer_allowed_ips w p" if "(p, k) \<in> set others" for p k
    using that routes_invD(2) [OF inv, of k p] by (auto simp: others)
  show "remove_from_others r others v = Some (v\<lparr>ws_peers := ?ps\<rparr>)"
    by (rule remove_from_others_ok [OF distinct]) (use foreign in \<open>auto simp: allowed\<close>)
  have "{k. (r, k) \<in> set others} = {}" using foreign by blast
  show "?ps r = set_allowed_ips B p1" unfolding \<open>{k. (r, k) \<in> set others} = {}\<close> by (simp add: allowed peers)
  show "\<forall>p \<in> live w. p \<noteq> r \<longrightarrow> ?ps p = set_allowed_ips (peer_allowed_ips w p - A) (ws_peers w p)"
    using others_allowed [OF inv r _ _ others] by (simp add: allowed peers)
qed

lemma set_peer_ok:
  assumes inv: "routes_inv w" and cmd: "command_ok command"
    and r: "find_peer_by_pubkey w (sp_public_key command) = Some r"
  obtains w' d p1 where
    "set_peer now command w = ROk w'" "set_peer_info now command (ws_peers w r) = (d, p1)"
    "tables_wf w'" "ws_pubkey_map w' = ws_pubkey_map w" "ws_next w' = ws_next w" "ws_info w' = ws_info w"
    "ws_id_map w' = ws_id_map w |` (- set d)"
    "ws_peers w' r = set_allowed_ips (allowed_after command r w r) p1"
    "\<forall>p \<in> live w - {r}. ws_peers w' p = set_allowed_ips (allowed_after command r w p) (ws_peers w p)"
    "routes w' = (\<lambda>k. if k \<in> masked_ips command then Some r
       else if sp_replace_allowed_ips command \<and> k \<in> peer_allowed_ips w r then None else routes w k)"
proof -
  let ?A = "masked_ips command"
  let ?old = "peer_allowed_ips w r"
  obtain d p1 where p1: "set_peer_info now command (ws_peers w r) = (d, p1)"
    by (cases "set_peer_info now command (ws_peers w r)")
  define w1 where "w1 = drop_guards d (update_peer r (\<lambda>_. p1) w)"
  have live: "r \<in> live w"
    using r map_of_SomeD by (force simp: find_peer_by_pubkey_def live_def)
  have fin: "finite ?A" "finite ?old" "list_all canonical (sorted_list_of_set ?A)"
    "list_all canonical (sorted_list_of_set (?old - ?A))" "list_all canonical (sorted_list_of_set (?A - ?old))"
    using masked_ips_ok [OF cmd] routes_invD(3,4) [OF inv live] by (auto simp: list_all_iff)
  have A_old: "routes w k = Some r" if "k \<in> ?old" for k using that live routes_invD(2) [OF inv] by blast
  have w1: "tables_wf w1" "routes w1 = routes w" "peer_allowed_ips w1 r = ?old" "ws_peers w1 = (ws_peers w)(r := p1)"
    using routes_invD(1) [OF inv] set_peer_info_sel(1) [OF p1] by (simp_all add: w1_def peer_allowed_ips_def)
  have len: "\<forall>(a, l) \<in> sp_allowed_ips command. l \<le> ip_width a" using cmd by (simp add: command_ok_def)
  have start: "set_peer now command w = (case
      (if sp_replace_allowed_ips command then
        (case remove_routes (sorted_list_of_set (?old - ?A)) w1 of
           None \<Rightarrow> None
         | Some w \<Rightarrow> (case add_routes r (sorted_list_of_set (?A - peer_allowed_ips w r)) [] w of
              None \<Rightarrow> None | Some (others, w) \<Rightarrow> Some (others, update_peer r (set_allowed_ips ?A) w)))
      else append_routes r (sorted_list_of_set ?A) [] w1) of
        None \<Rightarrow> RPanic
      | Some (others, w) \<Rightarrow> (case remove_from_others r others w of None \<Rightarrow> RPanic | Some w \<Rightarrow> ROk w))"
    using r len w1(3) unfolding set_peer_def by (simp add: p1 w1_def [symmetric] Let_def)
  show thesis
  proof (cases "sp_replace_allowed_ips command")
    case True
    obtain w2 where w2: "remove_routes (sorted_list_of_set (?old - ?A)) w1 = Some w2" "tables_wf w2"
      "same_but_tables w1 w2" "routes w2 = (\<lambda>k. if k \<in> ?old - ?A then None else routes w k)"
      using remove_routes_ok [OF w1(1) fin(4), unfolded w1(2)] fin(1,2) by auto
    have old2: "peer_allowed_ips w2 r = ?old"
      using w1(3) by (simp add: peer_allowed_ips_def same_but_tables_sel [OF w2(3)])
    obtain w3 where w3: "add_routes r (sorted_list_of_set (?A - ?old)) [] w2 =
        Some (old_routes w2 (sorted_list_of_set (?A - ?old)), w3)" "tables_wf w3" "same_but_tables w2 w3"
      "routes w3 = (\<lambda>k. if k \<in> ?A - ?old then Some r else routes w2 k)"
      using add_routes_ok [OF w2(2) fin(5), of r "[]"] fin(1) by auto
    let ?v = "update_peer r (set_allowed_ips ?A) w3"
    note same = same_but_tables_sel [OF same_but_tables_trans [OF w2(3) w3(3)]]
    have peers: "ws_peers ?v = (ws_peers w)(r := set_allowed_ips ?A p1)" by (simp add: same w1(4))
    have others: "(p, k) \<in> set (old_routes w2 (sorted_list_of_set (?A - ?old))) \<longleftrightarrow> k \<in> ?A - ?old \<and> routes w k = Some p"
      for p k using fin(1) by (auto simp: old_routes_set w2(4))
    obtain ps where ps: "remove_from_others r (old_routes w2 (sorted_list_of_set (?A - ?old))) ?v =
        Some (?v\<lparr>ws_peers := ps\<rparr>)" "ps r = set_allowed_ips ?A p1"
      "\<forall>p \<in> live w. p \<noteq> r \<longrightarrow> ps p = set_allowed_ips (peer_allowed_ips w p - ?A) (ws_peers w p)"
      using set_peer_finish [OF inv live peers others old_routes_distinct [OF distinct_sorted_list_of_set]] by blast
    show thesis
    proof (rule that [OF _ p1])
      show "set_peer now command w = ROk (?v\<lparr>ws_peers := ps\<rparr>)"
        unfolding start by (simp add: True w2(1) old2 w3(1) ps(1))
      show "routes (?v\<lparr>ws_peers := ps\<rparr>) = (\<lambda>k. if k \<in> ?A then Some r
          else if sp_replace_allowed_ips command \<and> k \<in> ?old then None else routes w k)"
        using routes_cong [of "?v\<lparr>ws_peers := ps\<rparr>" w3] A_old by (auto simp: w3(4) w2(4) True fun_eq_iff)
      show "tables_wf (?v\<lparr>ws_peers := ps\<rparr>)" using w3(2) tables_wf_cong [of "?v\<lparr>ws_peers := ps\<rparr>" w3] by simp
    qed (use ps in \<open>simp_all add: same w1_def True allowed_after_def\<close>)
  next
    case False
    let ?others = "old_routes w1 (filter (\<lambda>k. k \<notin> ?old) (sorted_list_of_set ?A))"
    let ?u = "update_peer r (set_allowed_ips (?old \<union> ?A)) w1"
    obtain v where v: "append_routes r (sorted_list_of_set ?A) [] w1 = Some (?others, v)" "tables_wf v"
      "same_but_tables ?u v" "routes v = (\<lambda>k. if k \<in> ?A - ?old then Some r else routes w k)"
      using append_routes_ok [OF w1(1) fin(3) distinct_sorted_list_of_set, of r "[]", unfolded w1(2,3)] fin(1)
      by auto
    note same = same_but_tables_sel [OF v(3)]
    have peers: "ws_peers v = (ws_peers w)(r := set_allowed_ips (?old \<union> ?A) p1)" by (simp add: same w1(4))
    have others: "(p, k) \<in> set ?others \<longleftrightarrow> k \<in> ?A - ?old \<and> routes w k = Some p" for p k
      using fin(1) by (auto simp: old_routes_set w1(2))
    have "distinct ?others" by (intro old_routes_distinct distinct_filter) simp
    then obtain ps where ps: "remove_from_others r ?others v = Some (v\<lparr>ws_peers := ps\<rparr>)"
      "ps r = set_allowed_ips (?old \<union> ?A) p1"
      "\<forall>p \<in> live w. p \<noteq> r \<longrightarrow> ps p = set_allowed_ips (peer_allowed_ips w p - ?A) (ws_peers w p)"
      using set_peer_finish [OF inv live peers others] by blast
    show thesis
    proof (rule that [OF _ p1])
      show "set_peer now command w = ROk (v\<lparr>ws_peers := ps\<rparr>)"
        unfolding start by (simp add: False v(1) ps(1))
      show "routes (v\<lparr>ws_peers := ps\<rparr>) = (\<lambda>k. if k \<in> ?A then Some r
          else if sp_replace_allowed_ips command \<and> k \<in> ?old then None else routes w k)"
        using routes_cong [of "v\<lparr>ws_peers := ps\<rparr>" v] A_old by (auto simp: v(4) False fun_eq_iff)
      show "tables_wf (v\<lparr>ws_peers := ps\<rparr>)" using v(2) tables_wf_cong [of "v\<lparr>ws_peers := ps\<rparr>" v] by simp
    qed (use ps in \<open>simp_all add: same w1_def False allowed_after_def\<close>)
  qed
qed

end
