(* ===== verification/Wg_Invariant.thy ===== *)
theory Wg_Invariant
  imports Wg_Routes
begin

text \<open>
  The invariant of an interface and what its configuration operations do. \<open>wg_inv\<close> says that the
  routing tables and the allowed IPs agree, that keys and references identify peers, that the
  \<open>id_map\<close> holds exactly the identifiers of the guards of live peers, and that queues and sessions are
  within their bounds. Every operation keeps it.
\<close>

section \<open>The invariant\<close>

definition keys_inv :: "'h wg_state \<Rightarrow> bool" where
  "keys_inv w \<longleftrightarrow> distinct (map fst (ws_pubkey_map w)) \<and> distinct (map snd (ws_pubkey_map w)) \<and>
     (\<forall>(pk, r) \<in> set (ws_pubkey_map w). r < ws_next w \<and> pi_public_key (ps_info (ws_peers w r)) = pk)"

definition ids_inv :: "'h wg_state \<Rightarrow> bool" where
  "ids_inv w \<longleftrightarrow> (\<forall>i r. ws_id_map w i = Some r \<longleftrightarrow> r \<in> live w \<and> i \<in> set (ps_guards (ws_peers w r)))"

definition peer_bounds :: "'h peer_state \<Rightarrow> bool" where
  "peer_bounds p \<longleftrightarrow> length (ps_queue p) \<le> QUEUE_SIZE \<and> length (ps_transports p) \<le> MAX_TRANSPORTS \<and>
     distinct (ps_guards p)"

definition peers_inv :: "'h wg_state \<Rightarrow> bool" where
  "peers_inv w \<longleftrightarrow> (\<forall>r \<in> live w. peer_bounds (ws_peers w r))"

definition wg_inv :: "'h wg_state \<Rightarrow> bool" where
  "wg_inv w \<longleftrightarrow> routes_inv w \<and> keys_inv w \<and> ids_inv w \<and> peers_inv w"

lemma wg_invD:
  assumes "wg_inv w"
  shows "routes_inv w" "keys_inv w" "ids_inv w" "peers_inv w"
  using assms by (simp_all add: wg_inv_def)

lemma pubkey_live: "map_of (ws_pubkey_map w) pk = Some r \<Longrightarrow> r \<in> live w"
  using map_of_SomeD by (force simp: live_def)

lemma find_by_pubkey_live: "find_peer_by_pubkey w pk = Some r \<Longrightarrow> r \<in> live w"
  by (simp add: find_peer_by_pubkey_def pubkey_live)

lemma find_by_id_live: "ids_inv w \<Longrightarrow> find_peer_by_id w i = Some r \<Longrightarrow> r \<in> live w \<and> i \<in> set (ps_guards (ws_peers w r))"
  by (simp add: find_peer_by_id_def ids_inv_def)

lemma keys_invD:
  assumes "keys_inv w" "map_of (ws_pubkey_map w) pk = Some r"
  shows "r < ws_next w" "pi_public_key (ps_info (ws_peers w r)) = pk"
  using assms map_of_SomeD [OF assms(2)] by (auto simp: keys_inv_def)

lemma keys_inv_live: "keys_inv w \<Longrightarrow> r \<in> live w \<Longrightarrow> r < ws_next w"
  by (auto simp: keys_inv_def live_def)

lemma pubkey_inject:
  assumes "keys_inv w" "(pk, r) \<in> set (ws_pubkey_map w)" "(pk', r) \<in> set (ws_pubkey_map w)"
  shows "pk = pk'"
proof -
  have "pi_public_key (ps_info (ws_peers w r)) = pk" using assms(1,2) by (auto simp: keys_inv_def)
  moreover have "pi_public_key (ps_info (ws_peers w r)) = pk'" using assms(1,3) by (auto simp: keys_inv_def)
  ultimately show ?thesis by simp
qed

lemma update_append: "k \<notin> fst ` set xs \<Longrightarrow> AList.update k v xs = xs @ [(k, v)]"
  by (induction xs) auto

section \<open>Changing one peer\<close>

text \<open>Nothing of the invariant rests on dead peers or on the other fields.\<close>

lemma wg_inv_cong:
  assumes inv: "wg_inv w" and peers: "\<And>q. q \<in> live w \<Longrightarrow> ws_peers w' q = ws_peers w q"
    and w': "ws_pubkey_map w' = ws_pubkey_map w" "ws_next w' = ws_next w"
      "ws_rt4 w' = ws_rt4 w" "ws_rt6 w' = ws_rt6 w" "ws_id_map w' = ws_id_map w"
  shows "wg_inv w'"
proof -
  have live: "live w' = live w" by (simp add: live_def w')
  have allowed: "q \<in> live w \<and> k \<in> peer_allowed_ips w' q \<longleftrightarrow> q \<in> live w \<and> k \<in> peer_allowed_ips w q" for k q
    using peers by (auto simp: peer_allowed_ips_def)
  have "\<forall>q \<in> live w. peer_allowed_ips w' q = peer_allowed_ips w q"
    using peers by (simp add: peer_allowed_ips_def)
  then have "routes_inv w'"
    using wg_invD(1) [OF inv] routes_cong [of w' w] tables_wf_cong [of w' w] w'
    unfolding routes_inv_def live allowed by simp
  moreover have "q \<in> live w" if "(pk, q) \<in> set (ws_pubkey_map w)" for pk q using that by (force simp: live_def)
  then have "keys_inv w'"
    using wg_invD(2) [OF inv] peers by (fastforce simp: keys_inv_def w')
  moreover have "q \<in> live w \<and> i \<in> set (ps_guards (ws_peers w' q)) \<longleftrightarrow> q \<in> live w \<and> i \<in> set (ps_guards (ws_peers w q))"
    for i q using peers by auto
  then have "ids_inv w'"
    using wg_invD(3) [OF inv] unfolding ids_inv_def live w' by simp
  moreover have "peers_inv w'"
    using wg_invD(4) [OF inv] peers by (simp add: peers_inv_def live)
  ultimately show ?thesis by (simp add: wg_inv_def)
qed

text \<open>
  The state after an operation on the peer \<open>r\<close> that keeps its key and allowed IPs: its guards change
  from those of the old to those of the new peer, and the \<open>id_map\<close> with them.
\<close>

lemma wg_inv_change_peer:
  assumes inv: "wg_inv w" and r: "r \<in> live w" and bounds: "peer_bounds p"
    and same: "pi_allowed_ips (ps_info p) = peer_allowed_ips w r"
      "pi_public_key (ps_info p) = pi_public_key (ps_info (ws_peers w r))"
    and w': "ws_peers w' = (ws_peers w)(r := p)" "ws_pubkey_map w' = ws_pubkey_map w" "ws_next w' = ws_next w"
      "ws_rt4 w' = ws_rt4 w" "ws_rt6 w' = ws_rt6 w"
    and ids: "\<And>i. ws_id_map w' i = (if i \<in> set (ps_guards p) then Some r
        else if i \<in> set (ps_guards (ws_peers w r)) then None else ws_id_map w i)"
    and fresh: "\<And>i. i \<in> set (ps_guards p) \<Longrightarrow> i \<in> set (ps_guards (ws_peers w r)) \<or> ws_id_map w i = None"
  shows "wg_inv w'"
proof -
  have live: "live w' = live w" by (simp add: live_def w')
  have allowed: "peer_allowed_ips w' q = peer_allowed_ips w q" for q
    using same(1) by (simp add: peer_allowed_ips_def w')
  have "routes_inv w'"
    using wg_invD(1) [OF inv] routes_cong [of w' w] tables_wf_cong [of w' w] w'
    by (simp add: routes_inv_def live allowed)
  moreover have "keys_inv w'"
    using wg_invD(2) [OF inv] same(2) by (auto simp: keys_inv_def w')
  moreover have "ids_inv w'"
    unfolding ids_inv_def
  proof (intro allI)
    fix i q
    have old: "ws_id_map w i = Some q \<longleftrightarrow> q \<in> live w \<and> i \<in> set (ps_guards (ws_peers w q))" for q
      using wg_invD(3) [OF inv] by (simp add: ids_inv_def)
    show "ws_id_map w' i = Some q \<longleftrightarrow> q \<in> live w' \<and> i \<in> set (ps_guards (ws_peers w' q))"
      using old [of q] old [of r] fresh [of i] r by (auto simp: ids live w')
  qed
  moreover have "peers_inv w'"
    using wg_invD(4) [OF inv] bounds by (simp add: peers_inv_def live w')
  ultimately show ?thesis by (simp add: wg_inv_def)
qed

text \<open>The common case: no guard changes.\<close>

definition same_peer :: "'h peer_state \<Rightarrow> 'h peer_state \<Rightarrow> bool" where
  "same_peer p p' \<longleftrightarrow> pi_allowed_ips (ps_info p') = pi_allowed_ips (ps_info p) \<and>
     pi_public_key (ps_info p') = pi_public_key (ps_info p) \<and> ps_guards p' = ps_guards p \<and>
     (peer_bounds p \<longrightarrow> peer_bounds p')"

lemma wg_inv_update_peer:
  assumes inv: "wg_inv w" and same: "r \<in> live w \<Longrightarrow> same_peer (ws_peers w r) (f (ws_peers w r))"
  shows "wg_inv (update_peer r f w)"
proof (cases "r \<in> live w")
  case True
  have "peer_bounds (ws_peers w r)" using wg_invD(4) [OF inv] True by (simp add: peers_inv_def)
  moreover have "ws_id_map w i = Some r" if "i \<in> set (ps_guards (ws_peers w r))" for i
    using wg_invD(3) [OF inv] True that by (simp add: ids_inv_def)
  ultimately show ?thesis
    using same [OF True]
    by (intro wg_inv_change_peer [OF inv True, of "f (ws_peers w r)"]) (auto simp: same_peer_def peer_allowed_ips_def)
next
  case False
  then show ?thesis by (intro wg_inv_cong [OF inv]) auto
qed

section \<open>The configuration operations keep the invariant\<close>

lemma clear_bounds: "ps_clear_all p = (d, p') \<Longrightarrow> d = ps_guards p \<and> ps_guards p' = [] \<and> peer_bounds p' \<and>
    pi_allowed_ips (ps_info p') = pi_allowed_ips (ps_info p) \<and> pi_public_key (ps_info p') = pi_public_key (ps_info p)"
  by (auto simp: ps_clear_all_def peer_bounds_def ps_guards_def)

lemma clear_peer_inv:
  assumes inv: "wg_inv w" and r: "r \<in> live w" and clear: "ps_clear_all (ws_peers w r) = (d, p)"
  shows "wg_inv (drop_guards d (update_peer r (\<lambda>_. p) w))"
  using clear_bounds [OF clear]
  by (intro wg_inv_change_peer [OF inv r, of p]) (auto simp: peer_allowed_ips_def restrict_map_def)

lemma clear_peers_inv: "wg_inv w \<Longrightarrow> set rs \<subseteq> live w \<Longrightarrow> wg_inv (clear_peers rs w)"
proof (induction rs arbitrary: w)
  case (Cons r rs)
  obtain d p where c: "ps_clear_all (ws_peers w r) = (d, p)" by (cases "ps_clear_all (ws_peers w r)")
  have "live (drop_guards d (update_peer r (\<lambda>_. p) w)) = live w" by (simp add: live_def)
  then show ?case using Cons clear_peer_inv [OF _ _ c] by (simp add: c)
qed simp

lemma set_key_inv: "wg_inv w \<Longrightarrow> wg_inv (set_key key w)"
proof -
  assume "wg_inv w"
  then have "wg_inv (clear_peers (map snd (ws_pubkey_map w)) w)" by (intro clear_peers_inv) (auto simp: live_def)
  then show ?thesis unfolding set_key_def Let_def by (rule wg_inv_cong) simp_all
qed

lemma add_peer_inv:
  assumes inv: "wg_inv w" and w': "wg_add_peer pk now w = ROk w'"
  shows "wg_inv w'"
proof -
  let ?r = "ws_next w"
  have new: "pk \<notin> fst ` set (ws_pubkey_map w)"
    and w'_def: "w' = w\<lparr>ws_peers := (ws_peers w)(?r := ps_new pk now), ws_next := Suc ?r,
      ws_pubkey_map := AList.update pk ?r (ws_pubkey_map w)\<rparr>"
    using w' by (auto simp: wg_add_peer_def Let_def map_of_eq_None_iff split: if_splits)
  have "?r \<notin> live w" using keys_inv_live [OF wg_invD(2) [OF inv], of ?r] by auto
  note old = wg_invD [OF inv]
  have map: "ws_pubkey_map w' = ws_pubkey_map w @ [(pk, ?r)]" using new by (simp add: w'_def update_append)
  have live: "live w' = insert ?r (live w)" by (simp add: live_def map)
  have peers: "ws_peers w' q = (if q = ?r then ps_new pk now else ws_peers w q)" for q by (simp add: w'_def)
  have allowed: "peer_allowed_ips w' q = (if q = ?r then {} else peer_allowed_ips w q)" for q
    by (simp add: peer_allowed_ips_def peers)
  have "routes w' = routes w" "tables_wf w' = tables_wf w"
    using routes_cong [of w' w] tables_wf_cong [of w' w] by (simp_all add: w'_def)
  then have "routes_inv w'"
    using old(1) \<open>?r \<notin> live w\<close> by (auto simp: routes_inv_def live allowed)
  moreover have "keys_inv w'"
    using old(2) new \<open>?r \<notin> live w\<close> unfolding keys_inv_def map peers
    by (fastforce simp: live_def w'_def)
  moreover have new_peer: "ps_guards (ps_new pk now) = []" "peer_bounds (ps_new pk now)"
    by (simp_all add: ps_guards_def peer_bounds_def)
  have "ws_id_map w' = ws_id_map w" by (simp add: w'_def)
  then have "ids_inv w'"
    using old(3) \<open>?r \<notin> live w\<close> by (auto simp: ids_inv_def live peers new_peer)
  moreover have "peers_inv w'"
    using old(4) by (auto simp: peers_inv_def live peers new_peer)
  ultimately show ?thesis by (simp add: wg_inv_def)
qed

text \<open>The parts of the invariant other than the routes, when guards of one peer are dropped.\<close>

lemma others_inv_drop:
  assumes "keys_inv w" "ids_inv w" "peers_inv w" and r: "r \<in> live w"
    and d: "d = [] \<and> ps_guards p = ps_guards (ws_peers w r) \<or> d = ps_guards (ws_peers w r) \<and> ps_guards p = []"
    and p: "pi_public_key (ps_info p) = pi_public_key (ps_info (ws_peers w r))" "peer_bounds p"
    and w': "ws_pubkey_map w' = ws_pubkey_map w" "ws_next w' = ws_next w" "ws_id_map w' = ws_id_map w |` (- set d)"
      "ws_peers w' r = set_allowed_ips A p"
      "\<And>q. q \<in> live w \<Longrightarrow> q \<noteq> r \<Longrightarrow> \<exists>B. ws_peers w' q = set_allowed_ips B (ws_peers w q)"
  shows "keys_inv w' \<and> ids_inv w' \<and> peers_inv w'"
proof -
  have live: "live w' = live w" by (simp add: live_def w')
  have sel: "pi_public_key (ps_info (ws_peers w' q)) = pi_public_key (ps_info (ws_peers w q))"
      "ps_guards (ws_peers w' q) = (if q = r then ps_guards p else ps_guards (ws_peers w q))"
      "peer_bounds (ws_peers w' q)" if q: "q \<in> live w" for q
  proof -
    have bounds: "peer_bounds (set_allowed_ips B v) = peer_bounds v" for B and v :: "'a peer_state"
      by (simp add: peer_bounds_def set_allowed_ips_def ps_guards_def)
    have "peer_bounds (ws_peers w q)" using assms(3) q by (simp add: peers_inv_def)
    then show "pi_public_key (ps_info (ws_peers w' q)) = pi_public_key (ps_info (ws_peers w q))"
      "ps_guards (ws_peers w' q) = (if q = r then ps_guards p else ps_guards (ws_peers w q))"
      "peer_bounds (ws_peers w' q)"
      using p w'(4) w'(5) [of q] q by (cases "q = r"; auto simp: bounds)+
  qed
  have "q \<in> live w" if "(pk, q) \<in> set (ws_pubkey_map w)" for pk q using that by (force simp: live_def)
  then have "keys_inv w'" using assms(1) sel(1) by (fastforce simp: keys_inv_def w')
  moreover have "ids_inv w'"
    unfolding ids_inv_def
  proof (intro allI)
    fix i q
    have old: "ws_id_map w i = Some q \<longleftrightarrow> q \<in> live w \<and> i \<in> set (ps_guards (ws_peers w q))" for q
      using assms(2) by (simp add: ids_inv_def)
    have "q \<in> live w \<and> i \<in> set (ps_guards (ws_peers w' q)) \<longleftrightarrow>
        q \<in> live w \<and> i \<in> set (if q = r then ps_guards p else ps_guards (ws_peers w q))" using sel(2) by auto
    then show "ws_id_map w' i = Some q \<longleftrightarrow> q \<in> live w' \<and> i \<in> set (ps_guards (ws_peers w' q))"
      using d old [of q] old [of r] r unfolding live by (auto simp: w' restrict_map_def)
  qed
  moreover have "peers_inv w'" using sel(3) by (simp add: peers_inv_def live)
  ultimately show ?thesis by blast
qed

lemma set_peer_inv:
  assumes inv: "wg_inv w" and cmd: "command_ok command" and w': "set_peer now command w = ROk w'"
  shows "wg_inv w'"
proof -
  note old = wg_invD [OF inv]
  obtain r where r: "find_peer_by_pubkey w (sp_public_key command) = Some r"
    using w' by (cases "find_peer_by_pubkey w (sp_public_key command)") (simp_all add: set_peer_def)
  then have live: "r \<in> live w" by (rule find_by_pubkey_live)
  let ?A = "masked_ips command"
  obtain v d p1 where v: "set_peer now command w = ROk v"
    and p1: "set_peer_info now command (ws_peers w r) = (d, p1)"
    and v_sel: "tables_wf v" "ws_pubkey_map v = ws_pubkey_map w" "ws_next v = ws_next w" "ws_info v = ws_info w"
    "ws_id_map v = ws_id_map w |` (- set d)"
    "ws_peers v r = set_allowed_ips (allowed_after command r w r) p1"
    "\<forall>p \<in> live w - {r}. ws_peers v p = set_allowed_ips (allowed_after command r w p) (ws_peers w p)"
    "routes v = (\<lambda>k. if k \<in> ?A then Some r
       else if sp_replace_allowed_ips command \<and> k \<in> peer_allowed_ips w r then None else routes w k)"
    by (rule set_peer_ok [OF old(1) cmd r, of now])
  have "v = w'" using v w' by simp
  note w'_sel = v_sel(1-3,5-8) [unfolded \<open>v = w'\<close>]
  have live': "live w' = live w" by (simp add: live_def w'_sel)
  have allowed: "peer_allowed_ips w' p = allowed_after command r w p" if "p \<in> live w" for p
    using that w'_sel(5,6) by (cases "p = r") (simp_all add: peer_allowed_ips_def)
  have "routes_inv w'"
    unfolding routes_inv_def
  proof (intro conjI allI ballI)
    fix k q
    have disjoint: "k \<notin> peer_allowed_ips w q" if "k \<in> peer_allowed_ips w r" "q \<in> live w" "q \<noteq> r"
      using that routes_invD(2) [OF old(1), of k r] routes_invD(2) [OF old(1), of k q] live by auto
    note route = routes_invD(2) [OF old(1), of k q]
    have after: "q \<in> live w \<and> k \<in> peer_allowed_ips w' q \<longleftrightarrow> q \<in> live w \<and> k \<in> allowed_after command r w q"
      using allowed by auto
    show "routes w' k = Some q \<longleftrightarrow> q \<in> live w' \<and> k \<in> peer_allowed_ips w' q"
      unfolding live' after
    proof (cases "k \<in> ?A")
      case True
      then show "routes w' k = Some q \<longleftrightarrow> q \<in> live w \<and> k \<in> allowed_after command r w q"
        using live by (auto simp: w'_sel(7) allowed_after_def)
    next
      case False
      show "routes w' k = Some q \<longleftrightarrow> q \<in> live w \<and> k \<in> allowed_after command r w q"
      proof (cases "q = r")
        case True
        then show ?thesis using False route live by (simp add: w'_sel(7) allowed_after_def)
      next
        case neq: False
        then show ?thesis using False route disjoint by (auto simp: w'_sel(7) allowed_after_def)
      qed
    qed
  next
    fix q assume "q \<in> live w'"
    then show "finite (peer_allowed_ips w' q)"
      using allowed routes_invD(3) [OF old(1)] masked_ips_ok [OF cmd] live by (auto simp: live' allowed_after_def)
  qed (rule w'_sel(1))
  moreover have "peer_bounds p1"
    using set_peer_info_sel(4-6) [OF p1] old(4) live by (auto simp: peers_inv_def peer_bounds_def)
  then have "keys_inv w' \<and> ids_inv w' \<and> peers_inv w'"
    using set_peer_info_sel [OF p1] w'_sel(6)
    by (intro others_inv_drop [OF old(2-4) live _ _ _ w'_sel(2-5)]) auto
  ultimately show ?thesis by (simp add: wg_inv_def)
qed

section \<open>Removing peers\<close>

lemma set_delete: "set (AList.delete k xs) = {x \<in> set xs. fst x \<noteq> k}"
  by (auto simp: AList.delete_eq)

lemma live_delete:
  assumes "keys_inv w" "map_of (ws_pubkey_map w) pk = Some r"
    "ws_pubkey_map w' = AList.delete pk (ws_pubkey_map w)"
  shows "live w' = live w - {r}"
proof -
  have r: "(pk, r) \<in> set (ws_pubkey_map w)" using assms(2) by (rule map_of_SomeD)
  have "x \<noteq> r" if "(k, x) \<in> set (ws_pubkey_map w)" "k \<noteq> pk" for k x
    using that pubkey_inject [OF assms(1), of k r pk] r by auto
  moreover have "k \<noteq> pk" if "(k, x) \<in> set (ws_pubkey_map w)" "x \<noteq> r" for k x
  proof
    assume "k = pk"
    then have "map_of (ws_pubkey_map w) pk = Some x"
      using that(1) assms(1) by (simp add: keys_inv_def)
    with assms(2) that(2) show False by simp
  qed
  ultimately show ?thesis
    unfolding live_def assms(3) set_delete by force
qed

lemma remove_peer_ok:
  assumes inv: "wg_inv w" and pk: "map_of (ws_pubkey_map w) pk = Some r"
  obtains w' where "remove_peer pk w = ROk (True, w')" "wg_inv w'" "live w' = live w - {r}"
    "ws_pubkey_map w' = AList.delete pk (ws_pubkey_map w)" "\<forall>q. q \<noteq> r \<longrightarrow> ws_peers w' q = ws_peers w q"
    "routes w' = (\<lambda>k. if routes w k = Some r then None else routes w k)"
    "ws_id_map w' = (\<lambda>i. if ws_id_map w i = Some r then None else ws_id_map w i)"
    "ws_info w' = ws_info w" "ws_next w' = ws_next w"
proof -
  note old = wg_invD [OF inv]
  have r: "r \<in> live w" using pk by (rule pubkey_live)
  obtain d p where c: "ps_clear_all (ws_peers w r) = (d, p)" by (cases "ps_clear_all (ws_peers w r)")
  note clear = clear_bounds [OF c]
  define w1 where "w1 = drop_guards d (update_peer r (\<lambda>_. p) (w\<lparr>ws_pubkey_map := AList.delete pk (ws_pubkey_map w)\<rparr>))"
  have allowed1: "peer_allowed_ips w1 r = peer_allowed_ips w r" using clear by (simp add: w1_def peer_allowed_ips_def)
  have tables1: "tables_wf w1" "routes w1 = routes w"
    using routes_invD(1) [OF old(1)] tables_wf_cong [of w1 w] routes_cong [of w1 w] by (simp_all add: w1_def)
  have ips: "finite (peer_allowed_ips w r)" "list_all canonical (sorted_list_of_set (peer_allowed_ips w r))"
    using routes_invD(3,4) [OF old(1) r] by (auto simp: list_all_iff)
  obtain w' where w': "remove_routes (sorted_list_of_set (peer_allowed_ips w r)) w1 = Some w'" "tables_wf w'"
    "same_but_tables w1 w'" "routes w' = (\<lambda>k. if k \<in> peer_allowed_ips w r then None else routes w k)"
    using remove_routes_ok [OF tables1(1) ips(2), unfolded tables1(2)] ips(1) by auto
  note same = same_but_tables_sel [OF w'(3)]
  have run: "remove_peer pk w = ROk (True, w')"
    using pk w'(1) allowed1 by (simp add: remove_peer_def c w1_def [symmetric])
  have map: "ws_pubkey_map w' = AList.delete pk (ws_pubkey_map w)" by (simp add: same w1_def)
  have live: "live w' = live w - {r}" by (rule live_delete [OF old(2) pk map])
  have peers: "\<forall>q. q \<noteq> r \<longrightarrow> ws_peers w' q = ws_peers w q" by (simp add: same w1_def)
  have routes: "routes w' = (\<lambda>k. if routes w k = Some r then None else routes w k)"
    using routes_invD(2) [OF old(1), of _ r] r by (auto simp: w'(4) fun_eq_iff)
  have old_ids: "ws_id_map w i = Some q \<longleftrightarrow> q \<in> live w \<and> i \<in> set (ps_guards (ws_peers w q))" for i q
    using old(3) by (simp add: ids_inv_def)
  have ids: "ws_id_map w' = (\<lambda>i. if ws_id_map w i = Some r then None else ws_id_map w i)"
  proof
    fix i
    have "ws_id_map w' i = (if i \<in> set (ps_guards (ws_peers w r)) then None else ws_id_map w i)"
      using clear by (simp add: same w1_def restrict_map_def)
    then show "ws_id_map w' i = (if ws_id_map w i = Some r then None else ws_id_map w i)"
      using old_ids [of i r] r by simp
  qed
  have allowed: "q \<in> live w \<and> q \<noteq> r \<and> k \<in> peer_allowed_ips w' q \<longleftrightarrow> q \<in> live w \<and> q \<noteq> r \<and> k \<in> peer_allowed_ips w q" for q k
    using peers by (auto simp: peer_allowed_ips_def)
  have "routes_inv w'"
    unfolding routes_inv_def
  proof (intro conjI allI ballI)
    fix k q
    show "routes w' k = Some q \<longleftrightarrow> q \<in> live w' \<and> k \<in> peer_allowed_ips w' q"
      using allowed [of q k] routes_invD(2) [OF old(1), of k q] routes_invD(2) [OF old(1), of k r]
      by (cases "q = r") (auto simp: routes live)
  next
    fix q assume "q \<in> live w'"
    then show "finite (peer_allowed_ips w' q)"
      using routes_invD(3) [OF old(1), of q] peers by (simp add: live peer_allowed_ips_def)
  qed (rule w'(2))
  moreover have "keys_inv w'"
  proof -
    have "distinct (map fst (ws_pubkey_map w'))" "distinct (map snd (ws_pubkey_map w'))"
      using old(2) by (simp_all add: keys_inv_def map AList.delete_eq distinct_map_filter)
    moreover have "q < ws_next w' \<and> pi_public_key (ps_info (ws_peers w' q)) = k"
      if kq: "(k, q) \<in> set (ws_pubkey_map w')" for k q
    proof -
      have "q \<in> live w'" using kq by (force simp: live_def)
      then have "q \<noteq> r" using live by simp
      moreover have "(k, q) \<in> set (ws_pubkey_map w)" using kq by (simp add: map set_delete)
      ultimately have "(k, q) \<in> set (ws_pubkey_map w)" "q \<noteq> r" by simp_all
      then show ?thesis using old(2) peers by (auto simp: keys_inv_def same w1_def)
    qed
    ultimately show ?thesis unfolding keys_inv_def by blast
  qed
  moreover have "ids_inv w'"
    unfolding ids_inv_def
  proof (intro allI)
    fix i q
    show "ws_id_map w' i = Some q \<longleftrightarrow> q \<in> live w' \<and> i \<in> set (ps_guards (ws_peers w' q))"
      using old_ids [of i q] peers by (cases "q = r") (auto simp: ids live)
  qed
  moreover have "peers_inv w'"
    using old(4) peers by (simp add: peers_inv_def live)
  ultimately have "wg_inv w'" by (simp add: wg_inv_def)
  then show thesis
    using run live map peers routes ids by (intro that [of w']) (simp_all add: same w1_def)
qed

lemma remove_peer_inv: "wg_inv w \<Longrightarrow> remove_peer pk w = ROk (b, w') \<Longrightarrow> wg_inv w'"
proof (cases "map_of (ws_pubkey_map w) pk")
  case (Some r)
  assume "wg_inv w" "remove_peer pk w = ROk (b, w')"
  then show ?thesis using remove_peer_ok [OF _ Some] by (metis Pair_inject rust_result.inject(1))
qed (simp add: remove_peer_def)

lemma remove_peer_total: "wg_inv w \<Longrightarrow> \<exists>b w'. remove_peer pk w = ROk (b, w')"
proof (cases "map_of (ws_pubkey_map w) pk")
  case (Some r)
  assume "wg_inv w"
  then show ?thesis using remove_peer_ok [OF _ Some] by metis
qed (auto simp: remove_peer_def intro: exI [of _ False])

lemma remove_peers_ok:
  "wg_inv w \<Longrightarrow> \<exists>w'. remove_peers pks w = ROk w' \<and> wg_inv w' \<and>
     set (ws_pubkey_map w') = {x \<in> set (ws_pubkey_map w). fst x \<notin> set pks}"
proof (induction pks arbitrary: w)
  case (Cons pk pks)
  have "\<exists>b w1. remove_peer pk w = ROk (b, w1) \<and> wg_inv w1 \<and>
      set (ws_pubkey_map w1) = {x \<in> set (ws_pubkey_map w). fst x \<noteq> pk}"
  proof (cases "map_of (ws_pubkey_map w) pk")
    case None
    then have "fst x \<noteq> pk" if "x \<in> set (ws_pubkey_map w)" for x using that by (force simp: map_of_eq_None_iff)
    then have "set (ws_pubkey_map w) = {x \<in> set (ws_pubkey_map w). fst x \<noteq> pk}" by blast
    then show ?thesis using None Cons.prems by (auto simp: remove_peer_def intro!: exI [of _ False])
  next
    case (Some r)
    obtain w1 where "remove_peer pk w = ROk (True, w1)" "wg_inv w1" "ws_pubkey_map w1 = AList.delete pk (ws_pubkey_map w)"
      using remove_peer_ok [OF Cons.prems Some] by metis
    then show ?thesis by (auto simp: set_delete)
  qed
  then obtain b w1 where 1: "remove_peer pk w = ROk (b, w1)" "wg_inv w1"
    "set (ws_pubkey_map w1) = {x \<in> set (ws_pubkey_map w). fst x \<noteq> pk}" by blast
  obtain w2 where "remove_peers pks w1 = ROk w2" "wg_inv w2"
    "set (ws_pubkey_map w2) = {x \<in> set (ws_pubkey_map w1). fst x \<notin> set pks}"
    using Cons.IH [OF 1(2)] by blast
  then show ?case using 1 by auto
qed auto

lemma remove_all_peers_ok: "wg_inv w \<Longrightarrow> \<exists>w'. remove_all_peers w = ROk w' \<and> wg_inv w' \<and> ws_pubkey_map w' = []"
proof -
  assume "wg_inv w"
  then obtain w' where w': "remove_peers (map fst (ws_pubkey_map w)) w = ROk w'" "wg_inv w'"
    "set (ws_pubkey_map w') = {x \<in> set (ws_pubkey_map w). fst x \<notin> set (map fst (ws_pubkey_map w))}"
    using remove_peers_ok [of w "map fst (ws_pubkey_map w)"] by blast
  have "set (ws_pubkey_map w') = {}" unfolding w'(3) by auto
  then show ?thesis using w'(1,2) by (simp add: remove_all_peers_def)
qed

end
