(* ===== verification/Wg_Packets.thy ===== *)
theory Wg_Packets
  imports Wg_Invariant
begin

text \<open>
  The packet handlers of \<open>src/src/wireguard/state.rs\<close> and the handshake, keepalive and timer tasks
  of \<open>src/src/wireguard/peer_state.rs\<close>. A handler is a function from the state to what it sends or
  writes and the new state; \<open>None\<close> is a panic. What a handler draws or reads from outside (time,
  random bytes, the environment variable of the interoperability test) is the record \<open>ctx\<close>. The two
  handlers that release the lock of the peer and take it again are split at that point into two
  definitions, so that another operation can be placed between them. Sending never changes the
  state: the code ignores the result of \<open>send_to\<close> and of writing to the tunnel.
\<close>

section \<open>Outputs and context\<close>

datatype wg_output = SendUdp bytes socket_addr_v6 | WriteTun bytes

record 'h ctx =
  cx_ext :: "'h hs_externals"
  cx_now :: instant
  cx_tai_now :: tai64n
  cx_interop_test :: bool
  cx_id :: wg_id
  cx_ephemeral :: bytes
  cx_nonce :: bytes
  cx_delay_ms :: nat

type_synonym 'h handled = "(wg_output list \<times> 'h wg_state) option"

definition BUFSIZE :: nat where "BUFSIZE = 65536"

section \<open>Starting handshakes\<close>

text \<open>
  \<open>do_handshake\<close> installs the scope; the loop it spawns runs at once and then after every sleep,
  \<open>handshake_loop\<close>, until the scope is dropped.
\<close>

definition do_handshake :: "instant \<Rightarrow> nat \<Rightarrow> 'h wg_state \<Rightarrow> 'h wg_state" where
  "do_handshake now r w =
     (let peer = ws_peers w r in
      if ps_resend_scope peer \<noteq> None then w
      else if ps_get_endpoint peer = None then w
      else update_peer r (\<lambda>peer. peer\<lparr>
             ps_resend_scope := Some now,
             ps_stop_handshake := adjust_and_activate_if_not_activated now REKEY_ATTEMPT_TIME (ps_stop_handshake peer),
             ps_clear := adjust_and_activate_if_not_activated now (3 * REJECT_AFTER_TIME) (ps_clear peer)\<rparr>) w)"

definition millis :: "nat \<Rightarrow> nat" where
  "millis ms = ms * 1000000"

text \<open>The guard of the previous handshake is dropped when the new one is stored.\<close>

definition handshake_send :: "'h ctx \<Rightarrow> nat \<Rightarrow> 'h wg_state \<Rightarrow> 'h handled" where
  "handshake_send cx r w =
     (let x = cx_ext cx; peer = ws_peers w r in
      case pi_endpoint (ps_info peer) of
        None \<Rightarrow> Some ([], w)
      | Some endpoint \<Rightarrow>
          let i = cx_id cx;
              w = w\<lparr>ws_id_map := (ws_id_map w)(i \<mapsto> r)\<rparr>
          in case initiate x (ws_info w) (ps_info peer) i (cx_ephemeral cx) (cx_tai_now cx) of
               RPanic \<Rightarrow> None
             | RErr _ \<Rightarrow> Some ([], drop_guards [i] w)
             | ROk (init_msg, hs) \<Rightarrow>
                 (case cookie_sign x init_msg (ps_get_cookie (cx_now cx) peer) of
                    None \<Rightarrow> None
                  | Some init_msg \<Rightarrow>
                      (case get_mac1 init_msg of
                         None \<Rightarrow> None
                       | Some mac1 \<Rightarrow>
                           let old = (case ps_handshake peer of None \<Rightarrow> [] | Some h \<Rightarrow> [hk_self_id h]);
                               peer = peer\<lparr>ps_last_mac1 := Some mac1,
                                 ps_handshake := Some \<lparr>hk_self_id = i, hk_hs = hs\<rparr>\<rparr>;
                               peer = ps_count_send (length init_msg) peer
                           in Some ([SendUdp init_msg endpoint], drop_guards old (update_peer r (\<lambda>_. peer) w)))))"

definition handshake_loop :: "'h ctx \<Rightarrow> nat \<Rightarrow> 'h wg_state \<Rightarrow> 'h handled" where
  "handshake_loop cx r w =
     (case ps_resend_scope (ws_peers w r) of
        None \<Rightarrow> Some ([], w)
      | Some deadline \<Rightarrow>
          if cx_now cx < deadline then Some ([], w)
          else case handshake_send cx r w of
                 None \<Rightarrow> None
               | Some (out, w) \<Rightarrow>
                   Some (out, update_peer r (\<lambda>peer. peer\<lparr>ps_resend_scope := Some (cx_now cx + millis (cx_delay_ms cx))\<rparr>) w))"

section \<open>Keepalives and timers\<close>

definition set_transport :: "nat \<Rightarrow> transport \<Rightarrow> 'h peer_state \<Rightarrow> 'h peer_state" where
  "set_transport i t p = p\<lparr>ps_transports := (ps_transports p)[i := t]\<rparr>"

text \<open>The result also has whether a handshake should be started.\<close>

definition do_keepalive1 :: "'h ctx \<Rightarrow> nat \<Rightarrow> 'h wg_state \<Rightarrow> (bool \<times> wg_output list \<times> 'h wg_state) option" where
  "do_keepalive1 cx r w =
     (let peer = ws_peers w r in
      case ps_get_endpoint peer of
        None \<Rightarrow> Some (False, [], w)
      | Some endpoint \<Rightarrow>
          (case ps_find_transport_to_send peer of
             None \<Rightarrow> Some (ps_really_should_handshake (cx_now cx) peer, [], w)
           | Some i \<Rightarrow>
               (case tp_encrypt (x_aead (cx_ext cx)) (ps_transports peer ! i) [] 32 of
                  None \<Rightarrow> None
                | Some ((result, should_handshake), t) \<Rightarrow>
                    let peer = set_transport i t peer;
                        should_handshake = (should_handshake \<and> ps_really_should_handshake (cx_now cx) peer)
                    in case result of
                         None \<Rightarrow> Some (should_handshake, [], update_peer r (\<lambda>_. peer) w)
                       | Some out \<Rightarrow>
                           let peer = ps_on_send_keepalive (cx_now cx) (ps_count_send 32 peer)
                           in Some (should_handshake, [SendUdp out endpoint], update_peer r (\<lambda>_. peer) w))))"

definition action_rekey_no_recv :: "'h ctx \<Rightarrow> nat \<Rightarrow> 'h wg_state \<Rightarrow> 'h handled" where
  "action_rekey_no_recv cx r w = Some ([], do_handshake (cx_now cx) r w)"

definition action_keepalive :: "'h ctx \<Rightarrow> nat \<Rightarrow> 'h wg_state \<Rightarrow> 'h handled" where
  "action_keepalive cx r w =
     (case do_keepalive1 cx r w of
        None \<Rightarrow> None
      | Some (should_handshake, out, w) \<Rightarrow>
          Some (out, if should_handshake then do_handshake (cx_now cx) r w else w))"

definition action_persistent_keepalive :: "'h ctx \<Rightarrow> nat \<Rightarrow> 'h wg_state \<Rightarrow> 'h handled" where
  "action_persistent_keepalive cx r w =
     (case do_keepalive1 cx r w of
        None \<Rightarrow> None
      | Some (should_handshake, out, w) \<Rightarrow>
          let w = (if should_handshake then do_handshake (cx_now cx) r w else w)
          in Some (out, update_peer r (ps_adjust_persistent (cx_now cx)) w))"

definition action_stop_handshake :: "nat \<Rightarrow> 'h wg_state \<Rightarrow> 'h handled" where
  "action_stop_handshake r w =
     (let old = (case ps_handshake (ws_peers w r) of None \<Rightarrow> [] | Some h \<Rightarrow> [hk_self_id h])
      in Some ([], drop_guards old (update_peer r (\<lambda>p. p\<lparr>ps_resend_scope := None, ps_handshake := None\<rparr>) w)))"

definition action_clear :: "nat \<Rightarrow> 'h wg_state \<Rightarrow> 'h handled" where
  "action_clear r w =
     (let (dropped, peer) = ps_clear_all (ws_peers w r)
      in Some ([], drop_guards dropped (update_peer r (\<lambda>_. peer) w)))"

text \<open>One poll of each of the five timers of a peer; the action runs when the timer fires.\<close>

datatype peer_timer = TRekeyNoRecv | TKeepalive | TPersistentKeepalive | TStopHandshake | TClear

definition run_timer :: "'h ctx \<Rightarrow> peer_timer \<Rightarrow> nat \<Rightarrow> 'h wg_state \<Rightarrow> 'h handled" where
  "run_timer cx k r w =
     (let peer = ws_peers w r; now = cx_now cx in
      case k of
        TRekeyNoRecv \<Rightarrow>
          let (res, t) = timer_poll now False (ps_rekey_no_recv peer);
              w = update_peer r (\<lambda>p. p\<lparr>ps_rekey_no_recv := t\<rparr>) w
          in if res = ReadyOk then action_rekey_no_recv cx r w else Some ([], w)
      | TKeepalive \<Rightarrow>
          let (res, t) = timer_poll now False (ps_keepalive peer);
              w = update_peer r (\<lambda>p. p\<lparr>ps_keepalive := t\<rparr>) w
          in if res = ReadyOk then action_keepalive cx r w else Some ([], w)
      | TPersistentKeepalive \<Rightarrow>
          let (res, t) = timer_poll now False (ps_persistent_keepalive peer);
              w = update_peer r (\<lambda>p. p\<lparr>ps_persistent_keepalive := t\<rparr>) w
          in if res = ReadyOk then action_persistent_keepalive cx r w else Some ([], w)
      | TStopHandshake \<Rightarrow>
          let (res, t) = timer_poll now False (ps_stop_handshake peer);
              w = update_peer r (\<lambda>p. p\<lparr>ps_stop_handshake := t\<rparr>) w
          in if res = ReadyOk then action_stop_handshake r w else Some ([], w)
      | TClear \<Rightarrow>
          let (res, t) = timer_poll now False (ps_clear peer);
              w = update_peer r (\<lambda>p. p\<lparr>ps_clear := t\<rparr>) w
          in if res = ReadyOk then action_clear r w else Some ([], w))"

section \<open>Handshake messages\<close>

definition check_handshake_load :: "'h ctx \<Rightarrow> 'h wg_state \<Rightarrow> bool \<times> 'h wg_state" where
  "check_handshake_load cx w =
     (if cx_interop_test cx then (True, w)
      else let (load, m) = lm_check (ws_load_monitor w) (cx_now cx) in (load, w\<lparr>ws_load_monitor := m\<rparr>))"

text \<open>\<open>Ipv6Addr::octets\<close>.\<close>

definition octets :: "u128 \<Rightarrow> bytes" where
  "octets ip = be_bytes 16 ip"

text \<open>
  Under load: the cookie reply to a message whose \<open>mac2\<close> does not verify, \<open>Some None\<close> if it does.
\<close>

definition mac2_reply :: "'h ctx \<Rightarrow> 'h wg_state \<Rightarrow> bytes \<Rightarrow> socket_addr_v6 \<Rightarrow> bytes option option" where
  "mac2_reply cx w p addr =
     (let x = cx_ext cx; cookie = calc_cookie x (ws_cookie_secret w) (octets (sa6_ip addr)) in
      if \<not> cookie_verify x p cookie then
        (case (id_from_slice (slice 4 8 p), get_mac1 p) of
           (Some peer_id, Some mac1) \<Rightarrow>
             map_option Some (cookie_reply x (wg_pubkey (ws_info w)) cookie peer_id mac1 (cx_nonce cx))
         | _ \<Rightarrow> None)
      else Some None)"

definition newer :: "tai64n \<Rightarrow> tai64n option \<Rightarrow> bool" where
  "newer t prev = (case prev of None \<Rightarrow> True | Some u \<Rightarrow> u < t)"

text \<open>The guarded \<open>set_endpoint\<close> of both handshake handlers.\<close>

definition learn_endpoint :: "socket_addr_v6 \<Rightarrow> 'h peer_state \<Rightarrow> 'h peer_state option" where
  "learn_endpoint addr peer = (if pi_roaming (ps_info peer) then ps_set_endpoint addr peer else Some peer)"

text \<open>What \<open>udp_process_handshake_init\<close> does under the lock of the peer.\<close>

definition init_peer :: "'h ctx \<Rightarrow> nat \<Rightarrow> 'h init_process_result \<Rightarrow> bytes \<Rightarrow> socket_addr_v6 \<Rightarrow> 'h wg_state \<Rightarrow> 'h handled" where
  "init_peer cx r result p addr w =
     (let x = cx_ext cx; now = cx_now cx;
          peer = ps_count_recv (length p) (ws_peers w r)
      in if \<not> newer (ir_timestamp result) (ps_last_handshake peer) then Some ([], update_peer r (\<lambda>_. peer) w)
         else
           let peer = peer\<lparr>ps_last_handshake := Some (ir_timestamp result)\<rparr>;
               self_id = cx_id cx;
               result = result\<lparr>ir_handshake_state :=
                 ns_push_psk (x_noise x) (ir_handshake_state result) (psk_or_zero (pi_psk (ps_info peer)))\<rparr>
           in case responde x result self_id (cx_ephemeral cx) of
                RPanic \<Rightarrow> None
              | RErr _ \<Rightarrow> Some ([], update_peer r (\<lambda>_. peer) w)
              | ROk (response, result) \<Rightarrow>
                  (case (get_mac1 response, cookie_sign x response (ps_get_cookie now peer),
                         ns_get_ciphers (x_noise x) (ir_handshake_state result)) of
                     (Some mac1, Some response, Some ciphers) \<Rightarrow>
                       let peer = peer\<lparr>ps_last_mac1 := Some mac1\<rparr>;
                           peer = ps_count_send (length response) peer;
                           t = tp_new_from_hs self_id (ir_peer_id result)
                                 (ns_is_initiator (x_noise x) (ir_handshake_state result)) ciphers now
                       in (case learn_endpoint addr peer of
                             None \<Rightarrow> None
                           | Some peer \<Rightarrow>
                               let (dropped, peer) = ps_push_transport now t peer;
                                   old = (case ps_handshake peer of None \<Rightarrow> [] | Some h \<Rightarrow> [hk_self_id h]);
                                   peer = peer\<lparr>ps_handshake := None, ps_resend_scope := None\<rparr>;
                                   w = drop_guards (dropped @ old) (update_peer r (\<lambda>_. peer) w)
                               in Some ([SendUdp response addr], w\<lparr>ws_id_map := (ws_id_map w)(self_id \<mapsto> r)\<rparr>))
                   | _ \<Rightarrow> None))"

definition udp_process_handshake_init :: "'h ctx \<Rightarrow> bytes \<Rightarrow> socket_addr_v6 \<Rightarrow> 'h wg_state \<Rightarrow> 'h handled" where
  "udp_process_handshake_init cx p addr w =
     (let x = cx_ext cx in
      if length p \<noteq> HANDSHAKE_INIT_LEN then Some ([], w)
      else case verify_mac1 x (ws_info w) p of
             None \<Rightarrow> None
           | Some False \<Rightarrow> Some ([], w)
           | Some True \<Rightarrow>
               let (load, w) = check_handshake_load cx w in
               case (if load then mac2_reply cx w p addr else Some None) of
                 None \<Rightarrow> None
               | Some (Some reply) \<Rightarrow> Some ([SendUdp reply addr], w)
               | Some None \<Rightarrow>
                   (case process_initiation x (ws_info w) p of
                      RPanic \<Rightarrow> None
                    | RErr _ \<Rightarrow> Some ([], w)
                    | ROk result \<Rightarrow>
                        (case ns_get_rs (x_noise x) (ir_handshake_state result) of
                           None \<Rightarrow> None
                         | Some r_pubkey \<Rightarrow>
                             (case find_peer_by_pubkey w r_pubkey of
                                None \<Rightarrow> Some ([], w)
                              | Some r \<Rightarrow> init_peer cx r result p addr w))))"

text \<open>
  \<open>udp_process_handshake_resp\<close> up to the point where it releases the peer: the index of the
  responder and the completed handshake. The packet is counted, whatever comes of it.
\<close>

datatype 'h resp_outcome = RespPanic | RespDone "wg_output list" "'h wg_state" | RespCommit nat wg_id wg_id 'h "'h wg_state"

definition handshake_resp_begin :: "'h ctx \<Rightarrow> bytes \<Rightarrow> socket_addr_v6 \<Rightarrow> 'h wg_state \<Rightarrow> 'h resp_outcome" where
  "handshake_resp_begin cx p addr w =
     (let x = cx_ext cx in
      if length p \<noteq> HANDSHAKE_RESP_LEN then RespDone [] w
      else case verify_mac1 x (ws_info w) p of
             None \<Rightarrow> RespPanic
           | Some False \<Rightarrow> RespDone [] w
           | Some True \<Rightarrow>
               let (load, w) = check_handshake_load cx w in
               case (if load then mac2_reply cx w p addr else Some None) of
                 None \<Rightarrow> RespPanic
               | Some (Some reply) \<Rightarrow> RespDone [SendUdp reply addr] w
               | Some None \<Rightarrow>
                   (case id_from_slice (slice 8 12 p) of
                      None \<Rightarrow> RespPanic
                    | Some self_id \<Rightarrow>
                        (case find_peer_by_id w self_id of
                           None \<Rightarrow> RespDone [] w
                         | Some r \<Rightarrow>
                             let peer = ws_peers w r;
                                 w = update_peer r (ps_count_recv (length p)) w
                             in case ps_handshake peer of
                                  None \<Rightarrow> RespDone [] w
                                | Some handshake \<Rightarrow>
                                    if hk_self_id handshake \<noteq> self_id then RespDone [] w
                                    else case process_response x (hk_hs handshake) p of
                                           RPanic \<Rightarrow> RespPanic
                                         | RErr _ \<Rightarrow> RespDone [] w
                                         | ROk (peer_id, hs) \<Rightarrow> RespCommit r self_id peer_id hs w)))"

text \<open>The queued packets, encrypted one after the other in the receive buffer.\<close>

fun send_queued :: "aead \<Rightarrow> socket_addr_v6 \<Rightarrow> transport \<Rightarrow> bytes list \<Rightarrow> (wg_output list \<times> transport) option" where
  "send_queued ae addr t [] = Some ([], t)"
| "send_queued ae addr t (p # ps) =
     (if length p + 32 > BUFSIZE then None
      else case tp_encrypt ae t p (length p + 32) of
             Some ((Some encrypted, _), t) \<Rightarrow>
               map_option (\<lambda>(out, t). (SendUdp encrypted addr # out, t)) (send_queued ae addr t ps)
           | _ \<Rightarrow> None)"

text \<open>The rest of it: from \<open>id_map.insert\<close> on, with the peer locked again.\<close>

definition handshake_resp_commit :: "'h ctx \<Rightarrow> nat \<Rightarrow> wg_id \<Rightarrow> wg_id \<Rightarrow> 'h \<Rightarrow> socket_addr_v6 \<Rightarrow> 'h wg_state \<Rightarrow> 'h handled" where
  "handshake_resp_commit cx r self_id peer_id hs addr w =
     (let x = cx_ext cx; now = cx_now cx;
          w = w\<lparr>ws_id_map := (ws_id_map w)(self_id \<mapsto> r)\<rparr>;
          peer = (ws_peers w r)\<lparr>ps_resend_scope := None\<rparr>
      in case (ps_handshake peer, ns_get_ciphers (x_noise x) hs) of
           (Some handshake, Some ciphers) \<Rightarrow>
             let handle = hk_self_id handshake;
                 peer = peer\<lparr>ps_handshake := None\<rparr>;
                 t = tp_new_from_hs handle peer_id (ns_is_initiator (x_noise x) hs) ciphers now;
                 (dropped, peer) = ps_push_transport now t peer;
                 w = drop_guards dropped w
             in (case learn_endpoint addr peer of
                   None \<Rightarrow> None
                 | Some peer \<Rightarrow>
                     let (queued_packets, peer) = ps_dequeue_all peer in
                     if queued_packets = [] then
                       Some ([], update_peer r (\<lambda>_. peer\<lparr>ps_keepalive := adjust_and_activate_secs now 1 (ps_keepalive peer)\<rparr>) w)
                     else
                       let peer = fold (\<lambda>p. ps_count_send (length p + 32)) queued_packets peer;
                           peer = ps_on_send_transport now peer
                       in case send_queued (x_aead x) addr t queued_packets of
                            None \<Rightarrow> None
                          | Some (out, t) \<Rightarrow> Some (out, update_peer r (\<lambda>_. set_transport 0 t peer) w))
         | _ \<Rightarrow> None)"

definition udp_process_handshake_resp :: "'h ctx \<Rightarrow> bytes \<Rightarrow> socket_addr_v6 \<Rightarrow> 'h wg_state \<Rightarrow> 'h handled" where
  "udp_process_handshake_resp cx p addr w =
     (case handshake_resp_begin cx p addr w of
        RespPanic \<Rightarrow> None
      | RespDone out w \<Rightarrow> Some (out, w)
      | RespCommit r self_id peer_id hs w \<Rightarrow> handshake_resp_commit cx r self_id peer_id hs addr w)"

definition udp_process_cookie_reply :: "'h ctx \<Rightarrow> bytes \<Rightarrow> 'h wg_state \<Rightarrow> 'h handled" where
  "udp_process_cookie_reply cx p w =
     (case id_from_slice (slice 4 8 p) of
        None \<Rightarrow> None
      | Some self_id \<Rightarrow>
          (case find_peer_by_id w self_id of
             None \<Rightarrow> Some ([], w)
           | Some r \<Rightarrow>
               let peer = ps_count_recv (length p) (ws_peers w r) in
               case ps_last_mac1 peer of
                 None \<Rightarrow> Some ([], update_peer r (\<lambda>_. peer) w)
               | Some mac1 \<Rightarrow>
                   (case process_cookie_reply (cx_ext cx) (pi_public_key (ps_info peer)) mac1 p of
                      RPanic \<Rightarrow> None
                    | RErr _ \<Rightarrow> Some ([], update_peer r (\<lambda>_. peer) w)
                    | ROk cookie \<Rightarrow> Some ([], update_peer r (\<lambda>_. peer\<lparr>ps_cookie := Some (cookie, cx_now cx)\<rparr>) w))))"

section \<open>Data packets\<close>

text \<open>
  \<open>udp_process_transport\<close> up to the point where it releases the peer: what to write to the tunnel,
  and whether to set the endpoint and to start a handshake.
\<close>

datatype 'h transport_outcome =
    TransportPanic
  | TransportDone "'h wg_state"
  | TransportGo nat "bytes option" bool bool "'h wg_state"

text \<open>Reverse path filtering: the packet to write if its source belongs to the peer.\<close>

definition packet_to_write :: "'h wg_state \<Rightarrow> nat \<Rightarrow> bytes \<Rightarrow> bytes option" where
  "packet_to_write w r decrypted =
     (case parse_ip_packet decrypted of
        None \<Rightarrow> None
      | Some (len, src, _) \<Rightarrow>
          if find_peer_by_ip w src \<noteq> Some r then None
          else if unat len \<le> length decrypted then Some (take (unat len) decrypted)
          else None)"

definition transport_begin :: "'h ctx \<Rightarrow> bytes \<Rightarrow> socket_addr_v6 \<Rightarrow> 'h wg_state \<Rightarrow> 'h transport_outcome" where
  "transport_begin cx p addr w =
     (if length p < 32 then TransportDone w
      else case id_from_slice (slice 4 8 p) of
             None \<Rightarrow> TransportPanic
           | Some self_id \<Rightarrow>
               (case find_peer_by_id w self_id of
                  None \<Rightarrow> TransportDone w
                | Some r \<Rightarrow>
                    let peer = ps_count_recv (length p) (ws_peers w r) in
                    case ps_find_transport_by_id self_id peer of
                      None \<Rightarrow> TransportDone (update_peer r (\<lambda>_. peer) w)
                    | Some i \<Rightarrow>
                        (case tp_decrypt (x_aead (cx_ext cx)) (ps_transports peer ! i) p (length p - 32) of
                           None \<Rightarrow> TransportPanic
                         | Some (None, t) \<Rightarrow> TransportDone (update_peer r (\<lambda>_. set_transport i t peer) w)
                         | Some (Some (h, decrypted), t) \<Rightarrow>
                             let peer = set_transport i t peer;
                                 should_handshake = (h \<and> ps_really_should_handshake (cx_now cx) peer);
                                 peer = ps_on_recv (cx_now cx) (decrypted = []) peer;
                                 should_set_endpoint =
                                   (pi_endpoint (ps_info peer) \<noteq> Some addr \<and> pi_roaming (ps_info peer));
                                 w = update_peer r (\<lambda>_. peer) w
                             in TransportGo r (packet_to_write w r decrypted) should_set_endpoint should_handshake w)))"

definition transport_commit :: "'h ctx \<Rightarrow> nat \<Rightarrow> bytes option \<Rightarrow> bool \<Rightarrow> bool \<Rightarrow> socket_addr_v6 \<Rightarrow> 'h wg_state \<Rightarrow> 'h handled" where
  "transport_commit cx r write should_set_endpoint should_handshake addr w =
     (case (if should_set_endpoint
            then map_option (\<lambda>peer. update_peer r (\<lambda>_. peer) w) (ps_set_endpoint addr (ws_peers w r))
            else Some w) of
        None \<Rightarrow> None
      | Some w \<Rightarrow>
          Some (case write of Some pkt \<Rightarrow> [WriteTun pkt] | None \<Rightarrow> [],
                if should_handshake then do_handshake (cx_now cx) r w else w))"

definition udp_process_transport :: "'h ctx \<Rightarrow> bytes \<Rightarrow> socket_addr_v6 \<Rightarrow> 'h wg_state \<Rightarrow> 'h handled" where
  "udp_process_transport cx p addr w =
     (case transport_begin cx p addr w of
        TransportPanic \<Rightarrow> None
      | TransportDone w \<Rightarrow> Some ([], w)
      | TransportGo r write set_endpoint handshake w \<Rightarrow> transport_commit cx r write set_endpoint handshake addr w)"

text \<open>One datagram of the receiving loop.\<close>

definition udp_processing :: "'h ctx \<Rightarrow> bytes \<Rightarrow> socket_addr_v6 \<Rightarrow> 'h wg_state \<Rightarrow> 'h handled" where
  "udp_processing cx p addr w =
     (if length p < 12 then Some ([], w)
      else
        let ty = p ! 0 in
        if ty = 1 then udp_process_handshake_init cx p addr w
        else if ty = 2 then udp_process_handshake_resp cx p addr w
        else if ty = 3 then udp_process_cookie_reply cx p w
        else if ty = 4 then udp_process_transport cx p addr w
        else Some ([], w))"

text \<open>
  One packet of the sending loop: \<open>pkt\<close> is what was read from the tunnel. Padding past the end of
  the buffer would be the panic of a slice.
\<close>

definition tun_packet_processing :: "'h ctx \<Rightarrow> bytes \<Rightarrow> 'h wg_state \<Rightarrow> 'h handled" where
  "tun_packet_processing cx pkt w =
     (let len = length pkt;
          padded_len = unat (pad_len (of_nat len) (ucast (ws_mtu w)))
      in if BUFSIZE < padded_len then None
         else
           let pkt = pkt @ replicate (padded_len - len) 0 in
           case parse_ip_packet pkt of
             None \<Rightarrow> Some ([], w)
           | Some (_, _, dst) \<Rightarrow>
               (case find_peer_by_ip w dst of
                  None \<Rightarrow> Some ([], w)
                | Some r \<Rightarrow>
                    let peer = ws_peers w r in
                    case ps_get_endpoint peer of
                      None \<Rightarrow> Some ([], w)
                    | Some endpoint \<Rightarrow>
                        (case ps_find_transport_to_send peer of
                           Some i \<Rightarrow>
                             (case tp_encrypt (x_aead (cx_ext cx)) (ps_transports peer ! i) pkt (length pkt + 32) of
                                None \<Rightarrow> None
                              | Some ((result, should_handshake), t) \<Rightarrow>
                                  let peer = set_transport i t peer;
                                      (out, peer) = (case result of
                                         Some encrypted \<Rightarrow>
                                           ([SendUdp encrypted endpoint],
                                            ps_on_send_transport (cx_now cx) (ps_count_send (length encrypted) peer))
                                       | None \<Rightarrow> ([], peer));
                                      should_handshake = (should_handshake \<and> ps_really_should_handshake (cx_now cx) peer);
                                      w = update_peer r (\<lambda>_. peer) w
                                  in Some (out, if should_handshake then do_handshake (cx_now cx) r w else w))
                         | None \<Rightarrow>
                             let peer = ps_enqueue_packet (cx_now cx) pkt peer;
                                 should_handshake = ps_really_should_handshake (cx_now cx) peer;
                                 w = update_peer r (\<lambda>_. peer) w
                             in Some ([], if should_handshake then do_handshake (cx_now cx) r w else w))))"

end
