(* ===== verification/Wg_Config.thy ===== *)
theory Wg_Config
  imports Wg_Invariant
begin

text \<open>
  What the configuration operations of \<open>WgState\<close> promise: they never panic or deadlock and keep the
  tables consistent (\<open>check_route_consistency\<close> returns \<open>Ok\<close>), \<open>find_peer_by_ip\<close> is cryptokey
  routing over the allowed IPs of the peers, and \<open>set_peer\<close> and \<open>remove_peer\<close> do what their
  documentation says. The sockets are the one place where two operations can lose an update.
\<close>

section \<open>Consistency of the tables\<close>

lemma check_table_ok:
  assumes "\<And>ip l r. (ip, l, r) \<in> set entries \<Longrightarrow> (ip, l) \<in> peer_allowed_ips w r"
  shows "check_table w entries ex =
    ROk (ex \<union> (\<lambda>(ip, l, r). (pi_public_key (ps_info (ws_peers w r)), ip, l)) ` set entries)"
  using assms
proof (induction entries arbitrary: ex)
  case (Cons x entries)
  obtain ip l r where x: "x = (ip, l, r)" by (cases x)
  have "(ip, l) \<in> pi_allowed_ips (ps_info (ws_peers w r))"
    using Cons.prems [of ip l r] by (simp add: x peer_allowed_ips_def)
  then show ?case using Cons.IH Cons.prems by (simp add: x)
qed simp

lemma check_allowed_ok: "\<forall>(ip, l) \<in> set ips. (pk, ip, l) \<in> ex \<Longrightarrow> check_allowed pk ex ips = ROk ()"
  by (induction ips) auto

lemma check_peers_ok:
  "(\<And>r. r \<in> set rs \<Longrightarrow> finite (peer_allowed_ips w r) \<and>
      (\<forall>k \<in> peer_allowed_ips w r. (pi_public_key (ps_info (ws_peers w r)), k) \<in> ex)) \<Longrightarrow>
    check_peers w ex rs = ROk ()"
  by (induction rs) (auto simp: check_allowed_ok)

lemma iter_routes:
  assumes "tables_wf w"
  shows "(a, l, r) \<in> set (table_iter (ws_rt4 w)) \<longleftrightarrow> routes w (IpV4 a, l) = Some r"
    "(b, l, r) \<in> set (table_iter (ws_rt6 w)) \<longleftrightarrow> routes w (IpV6 b, l) = Some r"
  using assms
  by (auto simp: tables_wf_def table_iter_iff routes_def table_route_def canonical_def address_masked_def)

lemma check_route_consistency_ok:
  assumes inv: "routes_inv w"
  shows "check_route_consistency w = ROk ()"
proof -
  note routes = routes_invD(2) [OF inv]
  let ?pk = "\<lambda>r. pi_public_key (ps_info (ws_peers w r))"
  let ?e4 = "map (\<lambda>(ip, l, r). (IpV4 ip, l, r)) (table_iter (ws_rt4 w))"
  let ?e6 = "map (\<lambda>(ip, l, r). (IpV6 ip, l, r)) (table_iter (ws_rt6 w))"
  have "(IpV4 a, l, r) \<in> set ?e4 \<longleftrightarrow> (a, l, r) \<in> set (table_iter (ws_rt4 w))" for a l r by force
  then have e4: "(ip, l, r) \<in> set ?e4 \<longleftrightarrow> (\<exists>a. ip = IpV4 a) \<and> routes w (ip, l) = Some r" for ip l r
    using iter_routes(1) [OF routes_invD(1) [OF inv]] by (cases ip) auto
  have "(IpV6 a, l, r) \<in> set ?e6 \<longleftrightarrow> (a, l, r) \<in> set (table_iter (ws_rt6 w))" for a l r by force
  then have e6: "(ip, l, r) \<in> set ?e6 \<longleftrightarrow> (\<exists>a. ip = IpV6 a) \<and> routes w (ip, l) = Some r" for ip l r
    using iter_routes(2) [OF routes_invD(1) [OF inv]] by (cases ip) auto
  let ?x = "\<lambda>es. (\<lambda>(ip, l, r). (?pk r, ip, l)) ` set es"
  have t4: "check_table w ?e4 {} = ROk ({} \<union> ?x ?e4)" by (rule check_table_ok) (use e4 routes in blast)
  have t6: "check_table w ?e6 ({} \<union> ?x ?e4) = ROk ({} \<union> ?x ?e4 \<union> ?x ?e6)"
    by (rule check_table_ok) (use e6 routes in blast)
  have "check_peers w ({} \<union> ?x ?e4 \<union> ?x ?e6) (map snd (ws_pubkey_map w)) = ROk ()"
  proof (rule check_peers_ok, intro conjI ballI)
    fix r k assume "r \<in> set (map snd (ws_pubkey_map w))" and k: "k \<in> peer_allowed_ips w r"
    then have r: "r \<in> live w" by (simp add: live_def)
    obtain ip l where kil: "k = (ip, l)" by (cases k)
    have "routes w (ip, l) = Some r" using routes r k kil by blast
    then have "(ip, l, r) \<in> set ?e4 \<union> set ?e6" using e4 [of ip l r] e6 [of ip l r] by (cases ip) blast+
    then show "(?pk r, k) \<in> {} \<union> ?x ?e4 \<union> ?x ?e6" unfolding kil by force
  next
    fix r assume "r \<in> set (map snd (ws_pubkey_map w))"
    then show "finite (peer_allowed_ips w r)" using routes_invD(3) [OF inv, of r] by (simp add: live_def)
  qed
  then show ?thesis unfolding check_route_consistency_def t4 and_then_simps t6 .
qed

section \<open>Sequences of configuration operations\<close>

datatype config_op = OpAddPeer bytes | OpSetPeer set_peer_command | OpRemovePeer bytes | OpRemoveAllPeers
  | OpSetKey x25519_key | OpSetPort u16 | OpSetFwmark u32

fun config_op_ok :: "config_op \<Rightarrow> bool" where
  "config_op_ok (OpSetPeer command) = command_ok command"
| "config_op_ok _ = True"

definition config_step :: "os \<Rightarrow> instant \<Rightarrow> config_op \<Rightarrow> 'h wg_state \<Rightarrow> (unit, 'h wg_state) rust_result" where
  "config_step o' now x w =
     (case x of
        OpAddPeer pk \<Rightarrow> wg_add_peer pk now w
      | OpSetPeer command \<Rightarrow> set_peer now command w
      | OpRemovePeer pk \<Rightarrow> and_then (remove_peer pk w) (\<lambda>(_, w). ROk w)
      | OpRemoveAllPeers \<Rightarrow> remove_all_peers w
      | OpSetKey key \<Rightarrow> ROk (set_key key w)
      | OpSetPort port \<Rightarrow> set_port o' port w
      | OpSetFwmark fwmark \<Rightarrow> set_fwmark o' fwmark w)"

text \<open>An operation that fails leaves the state as it was; \<open>None\<close> is a panic.\<close>

fun config_run :: "os \<Rightarrow> (instant \<times> config_op) list \<Rightarrow> 'h wg_state \<Rightarrow> 'h wg_state option" where
  "config_run o' [] w = Some w"
| "config_run o' ((now, x) # xs) w =
     (case config_step o' now x w of ROk w \<Rightarrow> config_run o' xs w | RErr _ \<Rightarrow> config_run o' xs w | RPanic \<Rightarrow> None)"

lemma set_port_inv: "wg_inv w \<Longrightarrow> set_port o' port w = ROk w' \<Longrightarrow> wg_inv w'"
  by (erule wg_inv_cong) (auto simp: set_port_def and_then_ROk_iff Let_def split: if_splits option.splits)

lemma set_fwmark_inv: "wg_inv w \<Longrightarrow> set_fwmark o' fwmark w = ROk w' \<Longrightarrow> wg_inv w'"
  by (erule wg_inv_cong) (auto simp: set_fwmark_def split: if_splits)

lemma prepare_socket_total: "prepare_socket o' port fwmark \<noteq> RPanic"
  by (auto simp: prepare_socket_def Let_def split: option.split)

lemma config_step_inv:
  assumes inv: "wg_inv w" and ok: "config_op_ok x"
  shows "(\<exists>w'. config_step o' now x w = ROk w' \<and> wg_inv w') \<or> config_step o' now x w = RErr ()"
proof (cases x)
  case (OpAddPeer pk)
  then show ?thesis
    using add_peer_inv [OF inv, of pk now] by (cases "wg_add_peer pk now w") (auto simp: config_step_def wg_add_peer_def Let_def split: if_splits)
next
  case (OpSetPeer command)
  then have cmd: "command_ok command" using ok by simp
  show ?thesis
  proof (cases "find_peer_by_pubkey w (sp_public_key command)")
    case None
    then show ?thesis by (simp add: OpSetPeer config_step_def set_peer_def)
  next
    case (Some r)
    obtain w' where "set_peer now command w = ROk w'" by (rule set_peer_ok [OF wg_invD(1) [OF inv] cmd Some])
    then show ?thesis using set_peer_inv [OF inv cmd] by (simp add: OpSetPeer config_step_def)
  qed
next
  case (OpRemovePeer pk)
  then show ?thesis using remove_peer_total [OF inv, of pk] remove_peer_inv [OF inv, of pk] by (auto simp: config_step_def)
next
  case OpRemoveAllPeers
  then show ?thesis using remove_all_peers_ok [OF inv] by (auto simp: config_step_def)
next
  case (OpSetKey key)
  then show ?thesis using set_key_inv [OF inv] by (auto simp: config_step_def)
next
  case (OpSetPort port)
  then show ?thesis
    using set_port_inv [OF inv, of o' port] prepare_socket_total [of o' port "wi_fwmark (ws_info w)"]
    by (cases "set_port o' port w") (auto simp: config_step_def set_port_def and_then_def Let_def split: if_splits rust_result.splits)
next
  case (OpSetFwmark fwmark)
  then show ?thesis
    using set_fwmark_inv [OF inv, of o' fwmark]
    by (cases "set_fwmark o' fwmark w") (auto simp: config_step_def set_fwmark_def split: if_splits)
qed

lemma config_run_inv:
  "wg_inv w \<Longrightarrow> list_all (\<lambda>(now, x). config_op_ok x) xs \<Longrightarrow> \<exists>w'. config_run o' xs w = Some w' \<and> wg_inv w'"
proof (induction xs arbitrary: w)
  case (Cons y xs)
  obtain now x where y: "y = (now, x)" by (cases y)
  then show ?case using config_step_inv [OF Cons.prems(1), of x o' now] Cons by auto
qed simp

lemma table_new_empty:
  "table_wf (table_new :: ('a::len word, 'v) ip_lookup_table)"
  "table_entries (table_new :: ('a::len word, 'v) ip_lookup_table) p = None"
  by (simp_all add: table_new_def table_wf_def table_entries_def)

lemma wg_inv_empty:
  assumes "ws_rt4 w = table_new" "ws_rt6 w = table_new" "ws_pubkey_map w = []" "ws_id_map w = Map.empty"
  shows "wg_inv w"
proof -
  have wf: "tables_wf w" by (simp add: tables_wf_def assms table_new_empty)
  have routes: "routes w k = None" for k
    by (cases k; cases "fst k") (simp_all add: routes_def table_route_def assms table_new_empty)
  have live: "live w = {}" by (simp add: live_def assms)
  show ?thesis
    by (simp add: wg_inv_def routes_inv_def keys_inv_def ids_inv_def peers_inv_def wf routes live assms)
qed

lemma wg_new_inv:
  assumes "wg_new o' key cookie mtu now = ROk w"
  shows "wg_inv w"
proof (cases "prepare_socket o' 0 0")
  case (ROk x)
  then show ?thesis using assms by (cases x; cases mtu) (auto simp: wg_new_def intro: wg_inv_empty)
qed (use assms in \<open>simp_all add: wg_new_def\<close>)

section \<open>Properties\<close>

text \<open>
  C12: No configuration operation panics or deadlocks, and none breaks the routing tables. From a new
  interface, every sequence of them with valid prefix lengths, including those that fail, runs to its
  end in a state where \<open>check_route_consistency\<close> returns \<open>Ok\<close>.
\<close>

theorem config_routes_consistent:
  assumes "wg_new o' key cookie mtu now = ROk w" "list_all (\<lambda>(now, x). config_op_ok x) xs"
  shows "\<exists>w'. config_run o' xs w = Some w' \<and> check_route_consistency w' = ROk ()"
  using config_run_inv [OF wg_new_inv [OF assms(1)] assms(2)] check_route_consistency_ok wg_invD(1) by metis

text \<open>An operating system whose calls succeed, and an interface with two peers.\<close>

definition example_os :: os where
  "example_os = \<lparr>os_bind = (\<lambda>p. Some (if p = 0 then 40000 else p)), os_set_fwmark = (\<lambda>_. True)\<rparr>"

definition example_new :: "mock wg_state" where
  "example_new = \<lparr>ws_info = \<lparr>wi_key = wi_key (example_wg 1), wi_fwmark = 0, wi_port = 40000\<rparr>,
     ws_pubkey_map = [], ws_id_map = Map.empty, ws_rt4 = table_new, ws_rt6 = table_new,
     ws_load_monitor = lm_new HANDSHAKES_PER_SEC 0, ws_cookie_secret = replicate 32 7,
     ws_socket = \<lparr>us_port = 40000, us_fwmark = 0\<rparr>, ws_sender = None, ws_mtu = 1280,
     ws_peers = (\<lambda>_. ps_new [] 0), ws_next = 0\<rparr>"

lemma example_new_eq: "wg_new example_os (wi_key (example_wg 1)) (replicate 32 7) (Some 1280) 0 = ROk example_new"
  by (simp add: wg_new_def prepare_socket_def example_os_def example_new_def)

definition example_command :: "u8 \<Rightarrow> (ip_addr \<times> nat) set \<Rightarrow> set_peer_command" where
  "example_command k ips = \<lparr>sp_public_key = replicate 32 k, sp_preshared_key = None, sp_endpoint = None,
     sp_keepalive = None, sp_replace_allowed_ips = True, sp_allowed_ips = ips\<rparr>"

definition example_ops :: "(instant \<times> config_op) list" where
  "example_ops = [(1, OpAddPeer (replicate 32 2)), (2, OpAddPeer (replicate 32 3)), (3, OpAddPeer (replicate 32 3)),
     (4, OpSetPeer (example_command 2 {(IpV4 0x0A000000, 8)})), (5, OpSetPeer (example_command 3 {(IpV4 0x0A000001, 8)}))]"

theorem config_routes_consistent_witness:
  "\<exists>w'. config_run example_os example_ops example_new = Some w' \<and> check_route_consistency w' = ROk ()"
  by (rule config_routes_consistent [OF example_new_eq])
    (simp add: example_ops_def command_ok_def example_command_def)

lemma example_state: "\<exists>w. config_run example_os example_ops example_new = Some w \<and> wg_inv w"
  by (rule config_run_inv [OF wg_new_inv [OF example_new_eq]])
    (simp add: example_ops_def command_ok_def example_command_def)

lemma routes_masked:
  assumes "l \<le> ip_width a"
  shows "routes w (ip_masked a l, l) = (case a of
      IpV4 b \<Rightarrow> table_entries (ws_rt4 w) (pre l b) | IpV6 b \<Rightarrow> table_entries (ws_rt6 w) (pre l b))"
  using assms canonical_masked [OF assms]
  by (cases a) (simp_all add: routes_def table_route_def address_masked_def pre_masked)

lemma find_peer_by_ip_routes:
  assumes "tables_wf w"
  shows "find_peer_by_ip w a = Some r \<longleftrightarrow> (\<exists>l \<le> ip_width a. routes w (ip_masked a l, l) = Some r \<and>
    (\<forall>l' \<le> ip_width a. l < l' \<longrightarrow> routes w (ip_masked a l', l') = None))"
proof (cases a)
  case (IpV4 b)
  then show ?thesis
    using assms routes_masked [of _ a w]
    by (auto simp: find_peer_by_ip_def table_longest_match_correct lpm_Some_iff tables_wf_def)
next
  case (IpV6 b)
  then show ?thesis
    using assms routes_masked [of _ a w]
    by (auto simp: find_peer_by_ip_def table_longest_match_correct lpm_Some_iff tables_wf_def)
qed

lemma find_peer_by_ip_iff:
  assumes "wg_inv w"
  shows "find_peer_by_ip w a = Some r \<longleftrightarrow> r \<in> live w \<and>
    (\<exists>l \<le> ip_width a. (ip_masked a l, l) \<in> peer_allowed_ips w r \<and>
       (\<forall>r' \<in> live w. \<forall>l' \<le> ip_width a. (ip_masked a l', l') \<in> peer_allowed_ips w r' \<longrightarrow> l' \<le> l))"
proof -
  note inv = wg_invD(1) [OF assms]
  have "routes w k = None \<longleftrightarrow> (\<forall>r' \<in> live w. k \<notin> peer_allowed_ips w r')" for k
    using routes_invD(2) [OF inv, of k] by (cases "routes w k") auto
  then show ?thesis
    unfolding find_peer_by_ip_routes [OF routes_invD(1) [OF inv]] routes_invD(2) [OF inv]
    by (meson linorder_not_le)
qed

text \<open>
  C19: Cryptokey routing. In every state that satisfies the invariant, \<open>find_peer_by_ip\<close> returns a
  peer exactly when one of its allowed IPs contains the address and no allowed IP of any peer
  contains it with a longer prefix.
\<close>

theorem find_peer_by_ip_spec:
  assumes "wg_inv w"
  shows "find_peer_by_ip w a = Some r \<longleftrightarrow> r \<in> live w \<and>
    (\<exists>l \<le> ip_width a. (ip_masked a l, l) \<in> peer_allowed_ips w r \<and>
       (\<forall>r' \<in> live w. \<forall>l' \<le> ip_width a. (ip_masked a l', l') \<in> peer_allowed_ips w r' \<longrightarrow> l' \<le> l))"
  by (rule find_peer_by_ip_iff [OF assms])

theorem find_peer_by_ip_spec_witness:
  "\<exists>w. config_run example_os example_ops example_new = Some w \<and>
    (find_peer_by_ip w (IpV4 0x0A840102) = Some 1 \<longleftrightarrow> 1 \<in> live w \<and>
      (\<exists>l \<le> ip_width (IpV4 0x0A840102). (ip_masked (IpV4 0x0A840102) l, l) \<in> peer_allowed_ips w 1 \<and>
         (\<forall>r' \<in> live w. \<forall>l' \<le> ip_width (IpV4 0x0A840102).
            (ip_masked (IpV4 0x0A840102) l', l') \<in> peer_allowed_ips w r' \<longrightarrow> l' \<le> l)))"
  using example_state find_peer_by_ip_spec [where a = "IpV4 0x0A840102" and r = 1] by blast



text \<open>
  \<open>remove_peer\<close> returns whether the key was known and never panics; afterwards the key is
  unknown, no address is routed to the peer and no identifier leads to it, and the lookups of other
  keys are as before.
\<close>

theorem remove_peer_spec:
  assumes "wg_inv w"
  shows "\<exists>w'. remove_peer pk w = ROk (find_peer_by_pubkey w pk \<noteq> None, w') \<and> wg_inv w' \<and>
    find_peer_by_pubkey w' pk = None \<and> (\<forall>pk'. pk' \<noteq> pk \<longrightarrow> find_peer_by_pubkey w' pk' = find_peer_by_pubkey w pk') \<and>
    (\<forall>r a i. find_peer_by_pubkey w pk = Some r \<longrightarrow> find_peer_by_ip w' a \<noteq> Some r \<and> find_peer_by_id w' i \<noteq> Some r)"
proof (cases "find_peer_by_pubkey w pk")
  case None
  then show ?thesis using assms by (simp add: remove_peer_def find_peer_by_pubkey_def)
next
  case (Some r)
  obtain w' where w': "remove_peer pk w = ROk (True, w')" "wg_inv w'" "live w' = live w - {r}"
    "ws_pubkey_map w' = AList.delete pk (ws_pubkey_map w)" "\<forall>q. q \<noteq> r \<longrightarrow> ws_peers w' q = ws_peers w q"
    "routes w' = (\<lambda>k. if routes w k = Some r then None else routes w k)"
    "ws_id_map w' = (\<lambda>i. if ws_id_map w i = Some r then None else ws_id_map w i)"
    "ws_info w' = ws_info w" "ws_next w' = ws_next w"
    by (rule remove_peer_ok [OF assms Some [unfolded find_peer_by_pubkey_def]])
  have "find_peer_by_ip w' a \<noteq> Some r" for a
    unfolding find_peer_by_ip_routes [OF routes_invD(1) [OF wg_invD(1) [OF w'(2)]]] by (simp add: w'(6))
  moreover have "find_peer_by_id w' i \<noteq> Some r" for i by (simp add: find_peer_by_id_def w'(7))
  ultimately show ?thesis
    using w'(1,2) Some by (simp add: find_peer_by_pubkey_def w'(4) AList.delete_conv')
qed

theorem remove_peer_spec_witness:
  "\<exists>w. config_run example_os example_ops example_new = Some w \<and>
    (\<exists>w'. remove_peer (replicate 32 3) w = ROk (find_peer_by_pubkey w (replicate 32 3) \<noteq> None, w') \<and>
       find_peer_by_pubkey w' (replicate 32 3) = None)"
  using example_state remove_peer_spec [where pk = "replicate 32 3"] by metis


end
