(* ===== verification/Wg_Run.thy ===== *)
theory Wg_Run
  imports Wg_Packets Wg_Config
begin

text \<open>
  Runs of an interface: every event keeps the invariant \<open>full_inv\<close>, which extends \<open>wg_inv\<close> by what
  the packet handlers need, and no event panics, as long as the two handlers that release the lock of
  a peer are not interleaved with others. Identifiers are drawn fresh: a collision of two random
  32-bit identifiers is outside the model.
\<close>

section \<open>What the handlers need\<close>

definition hs_started :: "('h, 'a) hs_externals_scheme \<Rightarrow> 'h \<Rightarrow> bool" where
  "hs_started x h \<longleftrightarrow> (\<exists>s rs psk e p m. length p = 12 \<and>
     ns_write (x_noise x) (ns_push_psk (x_noise x) (ns_build (x_noise x) True PROLOGUE s (Some rs)) psk) e p 108 = ROk (m, h))"

definition peer_ok :: "('h, 'a) hs_externals_scheme \<Rightarrow> 'h peer_state \<Rightarrow> bool" where
  "peer_ok x p \<longleftrightarrow> (\<forall>h. ps_handshake p = Some h \<longrightarrow> hs_started x (hk_hs h)) \<and>
     (\<forall>pkt \<in> set (ps_queue p). length pkt + 32 \<le> BUFSIZE)"

definition full_inv :: "('h, 'a) hs_externals_scheme \<Rightarrow> 'h wg_state \<Rightarrow> bool" where
  "full_inv x w \<longleftrightarrow> wg_inv w \<and> (\<forall>r \<in> live w. peer_ok x (ws_peers w r))"

definition ctx_ok :: "'h ctx \<Rightarrow> 'h wg_state \<Rightarrow> bool" where
  "ctx_ok cx w \<longleftrightarrow> hs_externals_ok (cx_ext cx) \<and> length (cx_nonce cx) = 24 \<and> length (cx_id cx) = 4 \<and>
     ws_id_map w (cx_id cx) = None"

lemma full_invD: "full_inv x w \<Longrightarrow> wg_inv w" "full_inv x w \<Longrightarrow> r \<in> live w \<Longrightarrow> peer_ok x (ws_peers w r)"
  by (simp_all add: full_inv_def)

section \<open>Handshake messages never panic\<close>

lemma noise_total_initiator:
  assumes "noise_total x" "length p = 12"
  shows "case ns_write (x_noise x) (ns_push_psk (x_noise x) (ns_build (x_noise x) True PROLOGUE s (Some rs)) psk) e p 108 of
      RPanic \<Rightarrow> False
    | RErr _ \<Rightarrow> True
    | ROk (m1, hi1) \<Rightarrow> length m1 = 108 \<and>
        (\<forall>m2. case ns_read (x_noise x) hi1 m2 0 of
           RPanic \<Rightarrow> length m2 \<noteq> 48
         | RErr _ \<Rightarrow> True
         | ROk (_, hi2) \<Rightarrow> ns_get_ciphers (x_noise x) hi2 \<noteq> None \<and> ns_is_initiator (x_noise x) hi2)"
  using assms unfolding noise_total_def Let_def by blast

lemma noise_total_responder:
  assumes "noise_total x" "length m = 108"
  shows "case ns_read (x_noise x) (ns_build (x_noise x) False PROLOGUE s None) m 12 of
      RPanic \<Rightarrow> False
    | RErr _ \<Rightarrow> True
    | ROk (p, hr) \<Rightarrow> length p = 12 \<and> (\<exists>rs. ns_get_rs (x_noise x) hr = Some rs \<and>
        (\<forall>psk e. case ns_write (x_noise x) (ns_push_psk (x_noise x) hr psk) e [] 48 of
           RPanic \<Rightarrow> False
         | RErr _ \<Rightarrow> True
         | ROk (m2, hr2) \<Rightarrow> length m2 = 48 \<and> ns_get_rs (x_noise x) hr2 = Some rs \<and> ns_get_ciphers (x_noise x) hr2 \<noteq> None))"
  using assms unfolding noise_total_def Let_def by blast

lemma initiate_total:
  assumes "hs_externals_ok x" "length i = 4"
  shows "initiate x wg peer i e now \<noteq> RPanic"
    and "initiate x wg peer i e now = ROk (msg, hs) \<Longrightarrow> length msg = HANDSHAKE_INIT_LEN \<and> hs_started x hs"
proof -
  let ?n = "x_noise x"
  let ?h = "ns_push_psk ?n (ns_build ?n True PROLOGUE (xk_key (wi_key wg)) (Some (pi_public_key peer))) (psk_or_zero (pi_psk peer))"
  let ?t = "x_tai_to_bytes x (truncate_timestamp now)"
  have tot: "noise_total x" "length ?t = 12" using assms(1) tai_length by (simp_all add: hs_externals_ok_def)
  note w = noise_total_initiator [OF tot, of "xk_key (wi_key wg)" "pi_public_key peer" "psk_or_zero (pi_psk peer)" e]
  show "initiate x wg peer i e now \<noteq> RPanic"
    using w by (cases "ns_write ?n ?h e ?t 108") (auto simp: initiate_def Let_def)
  assume ok: "initiate x wg peer i e now = ROk (msg, hs)"
  then obtain m where m: "ns_write ?n ?h e ?t 108 = ROk (m, hs)"
    by (auto simp: initiate_def Let_def and_then_ROk_iff)
  then have "hs_started x hs" using tot(2) unfolding hs_started_def by blast
  moreover have "length msg = HANDSHAKE_INIT_LEN"
    by (rule initiate_framing [OF assms ok]) (simp add: HANDSHAKE_INIT_LEN_def assms)
  ultimately show "length msg = HANDSHAKE_INIT_LEN \<and> hs_started x hs" by simp
qed

lemma id_slice: "b = a + 4 \<Longrightarrow> b \<le> length p \<Longrightarrow> \<exists>i. id_from_slice (slice a b p) = Some i \<and> length i = 4"
  by (simp add: id_from_slice_def)

lemma process_response_total:
  assumes "hs_externals_ok x" "hs_started x h" "length p = HANDSHAKE_RESP_LEN"
  shows "process_response x h p \<noteq> RPanic"
    and "process_response x h p = ROk (i, h') \<Longrightarrow> ns_get_ciphers (x_noise x) h' \<noteq> None"
    and "process_response x h p = ROk (i, h') \<Longrightarrow> ns_is_initiator (x_noise x) h'"
proof -
  let ?n = "x_noise x"
  obtain s rs psk e t m where w: "length t = 12"
    "ns_write ?n (ns_push_psk ?n (ns_build ?n True PROLOGUE s (Some rs)) psk) e t 108 = ROk (m, h)"
    using assms(2) unfolding hs_started_def by blast
  have "noise_total x" using assms(1) by (simp add: hs_externals_ok_def)
  from noise_total_initiator [OF this w(1), of s rs psk e]
  have "\<forall>m2. case ns_read ?n h m2 0 of RPanic \<Rightarrow> length m2 \<noteq> 48 | RErr _ \<Rightarrow> True
      | ROk (_, hi2) \<Rightarrow> ns_get_ciphers ?n hi2 \<noteq> None \<and> ns_is_initiator ?n hi2"
    unfolding w(2) by simp
  then have r: "case ns_read ?n h (slice 12 60 p) 0 of RPanic \<Rightarrow> False | RErr _ \<Rightarrow> True
      | ROk (_, hi2) \<Rightarrow> ns_get_ciphers ?n hi2 \<noteq> None \<and> ns_is_initiator ?n hi2"
    using assms(3) by (auto simp: HANDSHAKE_RESP_LEN_def dest!: spec [of _ "slice 12 60 p"] split: rust_result.splits)
  obtain j where j: "id_from_slice (slice 4 8 p) = Some j" using id_slice [of 8 4 p] assms(3) by (auto simp: HANDSHAKE_RESP_LEN_def)
  show "process_response x h p \<noteq> RPanic"
    using r j assms(3) by (cases "ns_read ?n h (slice 12 60 p) 0") (auto simp: process_response_def)
  show "process_response x h p = ROk (i, h') \<Longrightarrow> ns_get_ciphers (x_noise x) h' \<noteq> None"
    and "process_response x h p = ROk (i, h') \<Longrightarrow> ns_is_initiator (x_noise x) h'"
    using r j assms(3) by (cases "ns_read ?n h (slice 12 60 p) 0", auto simp: process_response_def split: if_splits)+
qed

lemma process_initiation_total:
  assumes "hs_externals_ok x" "length p = HANDSHAKE_INIT_LEN"
  shows "process_initiation x wg p \<noteq> RPanic"
    and "process_initiation x wg p = ROk result \<Longrightarrow> \<exists>rs. ns_get_rs (x_noise x) (ir_handshake_state result) = Some rs \<and>
      length (ir_peer_id result) = 4 \<and>
      (\<forall>psk i e. length i = 4 \<longrightarrow>
        (case responde x (result\<lparr>ir_handshake_state := ns_push_psk (x_noise x) (ir_handshake_state result) psk\<rparr>) i e of
           RPanic \<Rightarrow> False
         | RErr _ \<Rightarrow> True
         | ROk (response, result') \<Rightarrow> length response = HANDSHAKE_RESP_LEN \<and>
             ns_get_ciphers (x_noise x) (ir_handshake_state result') \<noteq> None))"
proof -
  let ?n = "x_noise x"
  let ?m = "slice 8 116 p"
  have tot: "noise_total x" using assms(1) by (simp add: hs_externals_ok_def)
  have len: "length ?m = 108" using assms(2) by (simp add: HANDSHAKE_INIT_LEN_def)
  note r = noise_total_responder [OF tot len, of "xk_key (wi_key wg)"]
  obtain j where j: "id_from_slice (slice 4 8 p) = Some j" "length j = 4"
    using id_slice [of 8 4 p] assms(2) by (auto simp: HANDSHAKE_INIT_LEN_def)
  show "process_initiation x wg p \<noteq> RPanic"
    using r j assms(2) by (cases "ns_read ?n (ns_build ?n False PROLOGUE (xk_key (wi_key wg)) None) ?m 12")
      (auto simp: process_initiation_def Let_def split: option.splits)
  assume ok: "process_initiation x wg p = ROk result"
  obtain t hr where hr: "ns_read ?n (ns_build ?n False PROLOGUE (xk_key (wi_key wg)) None) ?m 12 = ROk (t, hr)"
    "ir_handshake_state result = hr" "ir_peer_id result = j"
    using ok j by (auto simp: process_initiation_def Let_def and_then_ROk_iff split: if_splits option.splits)
  obtain rs where rs: "ns_get_rs ?n hr = Some rs"
    "\<And>psk e. case ns_write ?n (ns_push_psk ?n hr psk) e [] 48 of RPanic \<Rightarrow> False | RErr _ \<Rightarrow> True
       | ROk (m2, hr2) \<Rightarrow> length m2 = 48 \<and> ns_get_rs ?n hr2 = Some rs \<and> ns_get_ciphers ?n hr2 \<noteq> None"
    using r unfolding hr(1) by auto
  have "case responde x (result\<lparr>ir_handshake_state := ns_push_psk ?n hr psk\<rparr>) i e of
      RPanic \<Rightarrow> False | RErr _ \<Rightarrow> True
    | ROk (response, result') \<Rightarrow> length response = HANDSHAKE_RESP_LEN \<and>
        ns_get_ciphers ?n (ir_handshake_state result') \<noteq> None" if "length i = 4" for psk i e
    using rs(2) [of psk e] that j assms(1)
    by (cases "ns_write ?n (ns_push_psk ?n hr psk) e [] 48")
      (auto simp: responde_def Let_def HANDSHAKE_RESP_LEN_def hr(3))
  then show "\<exists>rs. ns_get_rs ?n (ir_handshake_state result) = Some rs \<and> length (ir_peer_id result) = 4 \<and>
      (\<forall>psk i e. length i = 4 \<longrightarrow>
        (case responde x (result\<lparr>ir_handshake_state := ns_push_psk ?n (ir_handshake_state result) psk\<rparr>) i e of
           RPanic \<Rightarrow> False | RErr _ \<Rightarrow> True
         | ROk (response, result') \<Rightarrow> length response = HANDSHAKE_RESP_LEN \<and>
             ns_get_ciphers ?n (ir_handshake_state result') \<noteq> None))"
    using rs(1) j(2) hr(2,3) by auto
qed

section \<open>Operations that keep the guards\<close>

definition keeps :: "('h, 'a) hs_externals_scheme \<Rightarrow> 'h peer_state \<Rightarrow> 'h peer_state \<Rightarrow> bool" where
  "keeps x p p' \<longleftrightarrow> same_peer p p' \<and> (peer_ok x p \<longrightarrow> peer_ok x p')"

lemma keeps_refl [simp]: "keeps x p p"
  by (simp add: keeps_def same_peer_def)

lemma keeps_trans [trans]: "keeps x p q \<Longrightarrow> keeps x q s \<Longrightarrow> keeps x p s"
  by (auto simp: keeps_def same_peer_def)

lemma keepsI:
  assumes "pi_allowed_ips (ps_info p') = pi_allowed_ips (ps_info p)" "pi_public_key (ps_info p') = pi_public_key (ps_info p)"
    "ps_handshake p' = ps_handshake p" "map tp_self_id (ps_transports p') = map tp_self_id (ps_transports p)"
    "ps_queue p' = ps_queue p"
  shows "keeps x p p'"
proof -
  have "length (ps_transports p') = length (ps_transports p)" using assms(4) by (metis length_map)
  then show ?thesis
    using assms by (auto simp: keeps_def same_peer_def ps_guards_def peer_bounds_def peer_ok_def)
qed

lemma full_inv_update:
  assumes "full_inv x w" "r \<in> live w \<Longrightarrow> keeps x (ws_peers w r) (f (ws_peers w r))"
  shows "full_inv x (update_peer r f w)"
proof -
  have "live (update_peer r f w) = live w" by (simp add: live_def)
  then show ?thesis
    using assms wg_inv_update_peer [of w r f] unfolding full_inv_def keeps_def by (cases "r \<in> live w") auto
qed

lemma live_update [simp]: "live (update_peer r f w) = live w" "live (drop_guards ids w) = live w"
  by (simp_all add: live_def)

lemma full_inv_cong:
  assumes "full_inv x w" "ws_peers w' = ws_peers w" "ws_pubkey_map w' = ws_pubkey_map w" "ws_next w' = ws_next w"
    "ws_rt4 w' = ws_rt4 w" "ws_rt6 w' = ws_rt6 w" "ws_id_map w' = ws_id_map w"
  shows "full_inv x w'"
proof -
  have "live w' = live w" by (simp add: live_def assms)
  then show ?thesis using assms wg_inv_cong [of w w'] by (simp add: full_inv_def)
qed

named_theorems keeps_intro \<open>operations on a peer that keep its guards\<close>

lemma keeps_count_recv [keeps_intro]: "keeps x p (ps_count_recv n p)"
  by (rule keepsI) (simp_all add: ps_count_recv_def)

lemma keeps_count_send [keeps_intro]: "keeps x p (ps_count_send n p)"
  by (rule keepsI) (simp_all add: ps_count_send_def)

lemma keeps_adjust_persistent [keeps_intro]: "keeps x p (ps_adjust_persistent now p)"
  by (rule keepsI) (simp_all add: ps_adjust_persistent_def split: option.split)

lemma keeps_on_recv [keeps_intro]: "keeps x p (ps_on_recv now k p)"
  by (rule keepsI) (simp_all add: ps_on_recv_def Let_def)

lemma keeps_on_send_transport [keeps_intro]: "keeps x p (ps_on_send_transport now p)"
  by (rule keepsI) (simp_all add: ps_on_send_transport_def ps_adjust_persistent_def Let_def split: option.split)

lemma keeps_on_send_keepalive [keeps_intro]: "keeps x p (ps_on_send_keepalive now p)"
  by (rule keepsI) (simp_all add: ps_on_send_keepalive_def ps_adjust_persistent_def Let_def split: option.split)

lemma keeps_set_endpoint: "ps_set_endpoint a p = Some p' \<Longrightarrow> keeps x p p'"
  by (rule keepsI) (auto simp: ps_set_endpoint_def split: if_splits)

lemma keeps_set_transport:
  "i < length (ps_transports p) \<Longrightarrow> tp_self_id t = tp_self_id (ps_transports p ! i) \<Longrightarrow> keeps x p (set_transport i t p)"
  by (rule keepsI) (simp_all add: set_transport_def map_update list_update_same_conv)

lemma keeps_enqueue:
  "length pkt + 32 \<le> BUFSIZE \<Longrightarrow> keeps x p (ps_enqueue_packet now pkt p)"
proof -
  assume len: "length pkt + 32 \<le> BUFSIZE"
  have "length (queue_trim (ps_queue p)) \<le> 15" by (simp add: queue_trim_drop)
  moreover have "set (queue_trim (ps_queue p)) \<subseteq> set (ps_queue p)" by (simp add: queue_trim_drop set_drop_subset)
  ultimately show ?thesis
    using len by (auto simp: keeps_def same_peer_def ps_enqueue_packet_def ps_guards_def peer_bounds_def peer_ok_def
        QUEUE_SIZE_def)
qed

lemma tp_encrypt_self_id: "tp_encrypt ae t m n = Some (res, t') \<Longrightarrow> tp_self_id t' = tp_self_id t"
  by (auto simp: tp_encrypt_def counter_fetch_add_def Let_def split: if_splits option.splits)

lemma tp_decrypt_self_id: "tp_decrypt ae t m n = Some (res, t') \<Longrightarrow> tp_self_id t' = tp_self_id t"
  by (auto simp: tp_decrypt_def Let_def split: if_splits option.splits prod.splits)

lemma do_handshake_inv: "full_inv x w \<Longrightarrow> full_inv x (do_handshake now r w)"
  by (auto simp: do_handshake_def Let_def intro!: full_inv_update keepsI)

lemma do_handshake_same: "live (do_handshake now r w) = live w" "ws_id_map (do_handshake now r w) = ws_id_map w"
  by (simp_all add: do_handshake_def Let_def)

lemma ex_false [simp]: "\<exists>b. \<not> b"
  by (rule exI [of _ False]) simp

lemma do_keepalive1_inv:
  assumes inv: "full_inv x w"
  shows "\<exists>b out w'. do_keepalive1 cx r w = Some (b, out, w') \<and> full_inv x w'"
proof -
  let ?p = "ws_peers w r"
  show ?thesis
  proof (cases "ps_get_endpoint ?p")
    case None
    then show ?thesis using inv by (simp add: do_keepalive1_def)
  next
    case (Some endpoint)
    show ?thesis
    proof (cases "ps_find_transport_to_send ?p")
      case None
      then show ?thesis using Some inv by (simp add: do_keepalive1_def)
    next
      case (Some i)
      then have i: "i < length (ps_transports ?p)" by (simp add: ps_find_transport_to_send_def find_index_Some)
      have "tp_encrypt (x_aead (cx_ext cx)) (ps_transports ?p ! i) [] 32 \<noteq> None"
        using tp_encrypt_total [of "x_aead (cx_ext cx)" "ps_transports ?p ! i" "[]"] by simp
      then obtain result h t where e: "tp_encrypt (x_aead (cx_ext cx)) (ps_transports ?p ! i) [] 32 = Some ((result, h), t)"
        by auto
      have k: "keeps x ?p (set_transport i t ?p)" using tp_encrypt_self_id [OF e] i by (intro keeps_set_transport) auto
      have k': "keeps x ?p (ps_on_send_keepalive now (ps_count_send 32 (set_transport i t ?p)))" for now
        by (rule keeps_trans [OF k keeps_trans [OF keeps_count_send keeps_on_send_keepalive]])
      show ?thesis
        using k k' Some \<open>ps_get_endpoint ?p = Some endpoint\<close>
        by (cases result) (auto simp: do_keepalive1_def e Let_def intro!: full_inv_update [OF inv])
    qed
  qed
qed

lemma timers_keep [keeps_intro]:
  "keeps x p (p\<lparr>ps_rekey_no_recv := t\<rparr>)" "keeps x p (p\<lparr>ps_keepalive := t\<rparr>)" "keeps x p (p\<lparr>ps_persistent_keepalive := t\<rparr>)"
  "keeps x p (p\<lparr>ps_stop_handshake := t\<rparr>)" "keeps x p (p\<lparr>ps_clear := t\<rparr>)"
  by (rule keepsI; simp)+

section \<open>Operations that change the guards\<close>

lemma full_inv_change_peer:
  assumes inv: "full_inv x w" and r: "r \<in> live w" and bounds: "peer_bounds p" and ok: "peer_ok x p"
    and same: "pi_allowed_ips (ps_info p) = peer_allowed_ips w r"
      "pi_public_key (ps_info p) = pi_public_key (ps_info (ws_peers w r))"
    and w': "ws_peers w' = (ws_peers w)(r := p)" "ws_pubkey_map w' = ws_pubkey_map w" "ws_next w' = ws_next w"
      "ws_rt4 w' = ws_rt4 w" "ws_rt6 w' = ws_rt6 w"
    and ids: "\<And>i. ws_id_map w' i = (if i \<in> set (ps_guards p) then Some r
        else if i \<in> set (ps_guards (ws_peers w r)) then None else ws_id_map w i)"
    and fresh: "\<And>i. i \<in> set (ps_guards p) \<Longrightarrow> i \<in> set (ps_guards (ws_peers w r)) \<or> ws_id_map w i = None"
  shows "full_inv x w'"
proof -
  have "live w' = live w" by (simp add: live_def w')
  then show ?thesis
    using full_invD [OF inv] ok wg_inv_change_peer [OF full_invD(1) [OF inv] r bounds same w' ids fresh]
    by (simp add: full_inv_def w')
qed

text \<open>The facts about the guards of a live peer that those proofs use.\<close>

lemma live_guards:
  assumes "full_inv x w" "r \<in> live w"
  shows "distinct (ps_guards (ws_peers w r))" "i \<in> set (ps_guards (ws_peers w r)) \<Longrightarrow> ws_id_map w i = Some r"
    "ws_id_map w i = None \<Longrightarrow> i \<notin> set (ps_guards (ws_peers w r))"
    "length (ps_queue (ws_peers w r)) \<le> QUEUE_SIZE" "length (ps_transports (ws_peers w r)) \<le> MAX_TRANSPORTS"
proof -
  show "distinct (ps_guards (ws_peers w r))"
    "length (ps_queue (ws_peers w r)) \<le> QUEUE_SIZE" "length (ps_transports (ws_peers w r)) \<le> MAX_TRANSPORTS"
    using wg_invD(4) [OF full_invD(1) [OF assms(1)]] assms(2) by (simp_all add: peers_inv_def peer_bounds_def)
  show id: "ws_id_map w i = Some r" if "i \<in> set (ps_guards (ws_peers w r))" for i
    using wg_invD(3) [OF full_invD(1) [OF assms(1)]] assms(2) that by (simp add: ids_inv_def)
  show "i \<notin> set (ps_guards (ws_peers w r))" if "ws_id_map w i = None" for i
    using id [of i] that by auto
qed

definition hs_guards :: "'h peer_state \<Rightarrow> wg_id list" where
  "hs_guards p = (case ps_handshake p of None \<Rightarrow> [] | Some h \<Rightarrow> [hk_self_id h])"

lemma ps_guards_split: "ps_guards p = hs_guards p @ map tp_self_id (ps_transports p)"
  by (simp add: ps_guards_def hs_guards_def)

lemma handshake_send_inv:
  assumes inv: "full_inv x w" and cx: "ctx_ok cx w" "cx_ext cx = x" and r: "r \<in> live w"
  shows "\<exists>out w'. handshake_send cx r w = Some (out, w') \<and> full_inv x w' \<and> live w' = live w"
proof (cases "pi_endpoint (ps_info (ws_peers w r))")
  case None
  then show ?thesis using inv by (simp add: handshake_send_def)
next
  case (Some endpoint)
  let ?p = "ws_peers w r"
  let ?i = "cx_id cx"
  let ?init = "initiate x (ws_info w) (ps_info ?p) ?i (cx_ephemeral cx) (cx_tai_now cx)"
  have x: "hs_externals_ok x" "length ?i = 4" "ws_id_map w ?i = None" using cx by (auto simp: ctx_ok_def)
  note tot = initiate_total [OF x(1,2), of "ws_info w" "ps_info ?p" "cx_ephemeral cx" "cx_tai_now cx"]
  show ?thesis
  proof (cases ?init)
    case RPanic
    then show ?thesis using tot(1) by simp
  next
    case (RErr e)
    have "full_inv x (drop_guards [?i] (w\<lparr>ws_id_map := (ws_id_map w)(?i \<mapsto> r)\<rparr>))"
      by (rule full_inv_cong [OF inv]) (auto simp: drop_guards_def restrict_map_def fun_eq_iff x(3))
    then show ?thesis using RErr cx(2) Some by (simp add: handshake_send_def Let_def live_def)
  next
    case (ROk y)
    obtain msg hs where y: "y = (msg, hs)" by (cases y)
    have msg: "length msg = HANDSHAKE_INIT_LEN" "hs_started x hs" using tot(2) ROk y by simp_all
    obtain msg' where msg': "cookie_sign x msg (ps_get_cookie (cx_now cx) ?p) = Some msg'"
      using cookie_sign_total [of msg] msg(1) by (auto simp: HANDSHAKE_INIT_LEN_def)
    have len': "length msg' = HANDSHAKE_INIT_LEN"
      using cookie_sign_length [OF externals_ok_of [OF x(1)] msg'] msg(1) by simp
    then obtain mac1 where mac1: "get_mac1 msg' = Some mac1" by (simp add: get_mac1_def HANDSHAKE_INIT_LEN_def Let_def)
    let ?q = "ps_count_send (length msg') (?p\<lparr>ps_last_mac1 := Some mac1, ps_handshake := Some \<lparr>hk_self_id = ?i, hk_hs = hs\<rparr>\<rparr>)"
    let ?w = "drop_guards (hs_guards ?p) (update_peer r (\<lambda>_. ?q) (w\<lparr>ws_id_map := (ws_id_map w)(?i \<mapsto> r)\<rparr>))"
    have guards: "ps_guards ?q = ?i # map tp_self_id (ps_transports ?p)"
      by (simp add: ps_guards_def ps_count_send_def)
    note old = live_guards [OF inv r, unfolded ps_guards_split]
    have run: "handshake_send cx r w = Some ([SendUdp msg' endpoint], ?w)"
      using ROk y msg' mac1 Some cx(2) by (simp add: handshake_send_def Let_def hs_guards_def)
    have "full_inv x ?w"
    proof (rule full_inv_change_peer [OF inv r, of ?q])
      show "peer_bounds ?q"
        using old(1,4,5) old(3) [OF x(3)] unfolding peer_bounds_def guards by (simp add: ps_count_send_def)
      show "peer_ok x ?q"
        using full_invD(2) [OF inv r] msg(2) by (simp add: peer_ok_def ps_count_send_def)
      show "ws_id_map ?w i = (if i \<in> set (ps_guards ?q) then Some r
          else if i \<in> set (ps_guards ?p) then None else ws_id_map w i)" for i
        unfolding guards unfolding ps_guards_split using old(1) old(2) [of i] old(3) [of ?i] x(3)
        by (auto simp: restrict_map_def)
      show "i \<in> set (ps_guards ?q) \<Longrightarrow> i \<in> set (ps_guards ?p) \<or> ws_id_map w i = None" for i
        unfolding guards unfolding ps_guards_split using x(3) by auto
    qed (simp_all add: ps_count_send_def peer_allowed_ips_def)
    then show ?thesis using run by (simp add: live_def)
  qed
qed

lemma handshake_loop_inv:
  assumes "full_inv x w" "ctx_ok cx w" "cx_ext cx = x" "r \<in> live w"
  shows "\<exists>out w'. handshake_loop cx r w = Some (out, w') \<and> full_inv x w'"
proof -
  obtain out w' where w': "handshake_send cx r w = Some (out, w')" "full_inv x w'"
    using handshake_send_inv [OF assms] by blast
  have "keeps x p (p\<lparr>ps_resend_scope := s\<rparr>)" for p s by (rule keepsI) simp_all
  then show ?thesis
    using w' assms(1) by (auto simp: handshake_loop_def split: option.split intro!: full_inv_update)
qed

lemma drop_handshake_inv:
  assumes inv: "full_inv x w" and r: "r \<in> live w"
  shows "full_inv x (drop_guards (hs_guards (ws_peers w r)) (update_peer r (\<lambda>p. p\<lparr>ps_resend_scope := None, ps_handshake := None\<rparr>) w))"
proof -
  let ?p = "ws_peers w r"
  let ?q = "?p\<lparr>ps_resend_scope := None, ps_handshake := None\<rparr>"
  note old = live_guards [OF inv r, unfolded ps_guards_split]
  have guards: "ps_guards ?q = map tp_self_id (ps_transports ?p)" by (simp add: ps_guards_def)
  show ?thesis
  proof (rule full_inv_change_peer [OF inv r, of ?q])
    show "peer_bounds ?q" using old unfolding peer_bounds_def guards by (simp add: ps_guards_split)
    show "peer_ok x ?q" using full_invD(2) [OF inv r] by (simp add: peer_ok_def)
    show "ws_id_map (drop_guards (hs_guards ?p) (update_peer r (\<lambda>p. p\<lparr>ps_resend_scope := None, ps_handshake := None\<rparr>) w)) i =
        (if i \<in> set (ps_guards ?q) then Some r else if i \<in> set (ps_guards ?p) then None else ws_id_map w i)" for i
      unfolding guards unfolding ps_guards_split using old(1) old(2) [of i] by (auto simp: restrict_map_def)
    show "i \<in> set (ps_guards ?q) \<Longrightarrow> i \<in> set (ps_guards ?p) \<or> ws_id_map w i = None" for i
      unfolding guards unfolding ps_guards_split by auto
  qed (simp_all add: peer_allowed_ips_def)
qed

lemma clear_peer_full_inv:
  assumes inv: "full_inv x w" and r: "r \<in> live w" and c: "ps_clear_all (ws_peers w r) = (d, p)"
  shows "full_inv x (drop_guards d (update_peer r (\<lambda>_. p) w))"
proof -
  have "wg_inv (drop_guards d (update_peer r (\<lambda>_. p) w))" by (rule clear_peer_inv [OF full_invD(1) [OF inv] r c])
  moreover have "peer_ok x p" using c by (auto simp: ps_clear_all_def peer_ok_def)
  ultimately show ?thesis using full_invD(2) [OF inv] by (simp add: full_inv_def)
qed

lemma run_timer_inv:
  assumes inv: "full_inv x w" and r: "r \<in> live w"
  shows "\<exists>out w'. run_timer cx k r w = Some (out, w') \<and> full_inv x w'"
proof -
  have upd: "full_inv x (update_peer r f w)" if "\<And>p. keeps x p (f p)" for f
    by (rule full_inv_update [OF inv]) (rule that)
  have u: "full_inv x (update_peer r (ps_rekey_no_recv_update (\<lambda>_. t)) w)"
    "full_inv x (update_peer r (ps_keepalive_update (\<lambda>_. t)) w)"
    "full_inv x (update_peer r (ps_persistent_keepalive_update (\<lambda>_. t)) w)"
    "full_inv x (update_peer r (ps_stop_handshake_update (\<lambda>_. t)) w)"
    "full_inv x (update_peer r (ps_clear_update (\<lambda>_. t)) w)" for t
    by (rule upd, rule timers_keep)+
  have hand: "full_inv x (if b then do_handshake now r w' else w')" if "full_inv x w'" for w' b now
    using that by (cases b) (simp_all add: do_handshake_inv)
  have kl: "\<exists>b out w''. do_keepalive1 cx r w' = Some (b, out, w'') \<and> full_inv x w''" if "full_inv x w'" for w'
    by (rule do_keepalive1_inv [OF that])
  show ?thesis
  proof (cases k)
    case TRekeyNoRecv
    then show ?thesis
      using do_handshake_inv [OF u(1)] u(1)
      by (simp add: run_timer_def action_rekey_no_recv_def Let_def split: prod.split)
  next
    case TKeepalive
    obtain res t where poll: "timer_poll (cx_now cx) False (ps_keepalive (ws_peers w r)) = (res, t)" by fastforce
    obtain b out w' where "do_keepalive1 cx r (update_peer r (ps_keepalive_update (\<lambda>_. t)) w) = Some (b, out, w')" "full_inv x w'"
      using kl [OF u(2)] by blast
    then show ?thesis
      using TKeepalive poll u(2) hand by (simp add: run_timer_def action_keepalive_def Let_def)
  next
    case TPersistentKeepalive
    obtain res t where poll: "timer_poll (cx_now cx) False (ps_persistent_keepalive (ws_peers w r)) = (res, t)" by fastforce
    obtain b out w' where k: "do_keepalive1 cx r (update_peer r (ps_persistent_keepalive_update (\<lambda>_. t)) w) = Some (b, out, w')"
      "full_inv x w'"
      using kl [OF u(3)] by blast
    have "full_inv x (update_peer r (ps_adjust_persistent now) (if b then do_handshake now r w' else w'))" for now
      by (rule full_inv_update [OF hand [OF k(2)]]) (rule keeps_adjust_persistent)
    then show ?thesis
      using TPersistentKeepalive poll u(3) k by (simp add: run_timer_def action_persistent_keepalive_def Let_def)
  next
    case TStopHandshake
    obtain res t where poll: "timer_poll (cx_now cx) False (ps_stop_handshake (ws_peers w r)) = (res, t)" by fastforce
    let ?w = "update_peer r (ps_stop_handshake_update (\<lambda>_. t)) w"
    have "full_inv x (drop_guards (hs_guards (ws_peers ?w r)) (update_peer r (\<lambda>p. p\<lparr>ps_resend_scope := None, ps_handshake := None\<rparr>) ?w))"
      by (rule drop_handshake_inv [OF u(4)]) (simp add: r)
    then show ?thesis
      using TStopHandshake poll u(4) by (simp add: run_timer_def action_stop_handshake_def hs_guards_def Let_def)
  next
    case TClear
    obtain res t where poll: "timer_poll (cx_now cx) False (ps_clear (ws_peers w r)) = (res, t)" by fastforce
    obtain d p where c: "ps_clear_all (ws_peers (update_peer r (ps_clear_update (\<lambda>_. t)) w) r) = (d, p)" by fastforce
    have "full_inv x (drop_guards d (update_peer r (\<lambda>_. p) (update_peer r (ps_clear_update (\<lambda>_. t)) w)))"
      by (rule clear_peer_full_inv [OF u(5) _ c]) (simp add: r)
    then show ?thesis
      using TClear poll u(5) c by (simp add: run_timer_def action_clear_def Let_def)
  qed
qed

section \<open>The packet handlers keep the invariant\<close>

lemma check_handshake_load_inv:
  assumes "check_handshake_load cx w = (load, w')"
  shows "full_inv x w' = full_inv x w" "live w' = live w" "ws_id_map w' = ws_id_map w" "ws_info w' = ws_info w"
    "ws_cookie_secret w' = ws_cookie_secret w" "ws_peers w' = ws_peers w" "ws_pubkey_map w' = ws_pubkey_map w"
    "ws_rt4 w' = ws_rt4 w" "ws_rt6 w' = ws_rt6 w"
proof -
  obtain m where w': "w' = w\<lparr>ws_load_monitor := m\<rparr>"
  proof (cases "cx_interop_test cx")
    case True
    then have "w' = w\<lparr>ws_load_monitor := ws_load_monitor w\<rparr>" using assms by (simp add: check_handshake_load_def)
    then show thesis by (rule that)
  next
    case False
    then show thesis using assms that by (auto simp: check_handshake_load_def split: prod.splits)
  qed
  show "live w' = live w" "ws_id_map w' = ws_id_map w" "ws_info w' = ws_info w"
    "ws_cookie_secret w' = ws_cookie_secret w" "ws_peers w' = ws_peers w" "ws_pubkey_map w' = ws_pubkey_map w"
    "ws_rt4 w' = ws_rt4 w" "ws_rt6 w' = ws_rt6 w"
    by (simp_all add: w' live_def)
  show "full_inv x w' = full_inv x w"
    using full_inv_cong [of x w w'] full_inv_cong [of x w' w] by (auto simp: w')
qed

lemma mac2_reply_total:
  assumes "hs_externals_ok (cx_ext cx)" "length (cx_nonce cx) = 24" "32 \<le> length p"
  shows "mac2_reply cx w p addr \<noteq> None"
proof -
  note x = externals_ok_of [OF assms(1)]
  let ?cookie = "calc_cookie (cx_ext cx) (ws_cookie_secret w) (octets (sa6_ip addr))"
  obtain i where i: "id_from_slice (slice 4 8 p) = Some i" using id_slice [of 8 4 p] assms(3) by auto
  obtain m where m: "get_mac1 p = Some m" using assms(3) by (simp add: get_mac1_def Let_def)
  obtain reply where "cookie_reply (cx_ext cx) (wg_pubkey (ws_info w)) ?cookie i m (cx_nonce cx) = Some reply"
    using cookie_reply_total [OF x assms(2), of ?cookie "wg_pubkey (ws_info w)" i m] x by auto
  then show ?thesis by (simp add: mac2_reply_def i m Let_def)
qed

lemma push_transport_shape:
  assumes "ps_push_transport now t p = (dropped, p')"
  obtains kept where "map tp_self_id (ps_transports p) = kept @ dropped"
    "map tp_self_id (ps_transports p') = tp_self_id t # kept"
    "ps_handshake p' = ps_handshake p" "ps_queue p' = ps_queue p" "ps_info p' = ps_info p"
    "length (ps_transports p) \<le> MAX_TRANSPORTS \<longrightarrow> length (ps_transports p') \<le> MAX_TRANSPORTS"
    "ps_transports p' ! 0 = t" "ps_transports p' \<noteq> []"
proof (cases "MAX_TRANSPORTS \<le> length (ps_transports p)")
  case True
  then have "ps_transports p \<noteq> []" by (auto simp: MAX_TRANSPORTS_def)
  then have "map tp_self_id (ps_transports p) = map tp_self_id (butlast (ps_transports p)) @ [tp_self_id (last (ps_transports p))]"
    by (metis append_butlast_last_id list.simps(8,9) map_append)
  then show thesis
    using assms True
    by (intro that [of "map tp_self_id (butlast (ps_transports p))"])
      (auto simp: ps_push_transport_def ps_on_new_transport_def MAX_TRANSPORTS_def)
next
  case False
  then show thesis
    using assms
    by (intro that [of "map tp_self_id (ps_transports p)"]) (auto simp: ps_push_transport_def ps_on_new_transport_def)
qed

lemma init_peer_inv:
  assumes inv: "full_inv x w" and cx: "ctx_ok cx w" "cx_ext cx = x" and r: "r \<in> live w"
    and len: "length p = HANDSHAKE_INIT_LEN" and result: "process_initiation x wg p = ROk result"
  shows "\<exists>out w'. init_peer cx r result p addr w = Some (out, w') \<and> full_inv x w'"
proof -
  let ?p0 = "ws_peers w r"
  define peer where "peer = ps_count_recv (length p) ?p0"
  define peer1 where "peer1 = peer\<lparr>ps_last_handshake := Some (ir_timestamp result)\<rparr>"
  let ?i = "cx_id cx"
  let ?hs = "ns_push_psk (x_noise x) (ir_handshake_state result) (psk_or_zero (pi_psk (ps_info peer1)))"
  let ?resp = "responde x (result\<lparr>ir_handshake_state := ?hs\<rparr>) ?i (cx_ephemeral cx)"
  have x: "hs_externals_ok x" "length ?i = 4" "ws_id_map w ?i = None" using cx by (auto simp: ctx_ok_def)
  have k: "keeps x ?p0 peer" unfolding peer_def by (rule keeps_count_recv)
  have k1: "keeps x ?p0 peer1"
    unfolding peer1_def by (rule keeps_trans [OF k]) (rule keepsI; simp)
  have upd: "full_inv x (update_peer r (\<lambda>_. q) w)" if "keeps x ?p0 q" for q
    by (rule full_inv_update [OF inv]) (rule that)
  show ?thesis
  proof (cases "newer (ir_timestamp result) (ps_last_handshake peer)")
    case False
    then have "init_peer cx r result p addr w = Some ([], update_peer r (\<lambda>_. peer) w)"
      by (simp add: init_peer_def peer_def [symmetric] Let_def)
    then show ?thesis using upd [OF k] by blast
  next
    case newer: True
    have resp: "case ?resp of RPanic \<Rightarrow> False | RErr _ \<Rightarrow> True
      | ROk (response, result') \<Rightarrow> length response = HANDSHAKE_RESP_LEN \<and>
          ns_get_ciphers (x_noise x) (ir_handshake_state result') \<noteq> None"
      using process_initiation_total(2) [OF x(1) len result] x(2) by blast
    show ?thesis
    proof (cases ?resp)
      case RPanic
      then show ?thesis using resp by simp
    next
      case (RErr e)
      have "init_peer cx r result p addr w = Some ([], update_peer r (\<lambda>_. peer1) w)"
        using newer RErr by (simp add: init_peer_def peer_def [symmetric] peer1_def [symmetric] cx(2) Let_def)
      then show ?thesis using upd [OF k1] by blast
    next
      case (ROk y)
      obtain response result' where y: "y = (response, result')" by (cases y)
      obtain ciphers where c: "length response = HANDSHAKE_RESP_LEN"
        "ns_get_ciphers (x_noise x) (ir_handshake_state result') = Some ciphers"
        using resp by (auto simp: ROk y)
      obtain mac1 where mac1: "get_mac1 response = Some mac1" using c(1) by (simp add: get_mac1_def HANDSHAKE_RESP_LEN_def Let_def)
      obtain signed where signed: "cookie_sign x response (ps_get_cookie (cx_now cx) peer1) = Some signed"
        using cookie_sign_total [of response] c(1) by (auto simp: HANDSHAKE_RESP_LEN_def)
      define peer2 where "peer2 = ps_count_send (length signed) (peer1\<lparr>ps_last_mac1 := Some mac1\<rparr>)"
      define t where "t = tp_new_from_hs ?i (ir_peer_id result') (ns_is_initiator (x_noise x) (ir_handshake_state result')) ciphers (cx_now cx)"
      define peer3 where "peer3 = (if pi_roaming (ps_info peer2) then peer2\<lparr>ps_info := (ps_info peer2)\<lparr>pi_endpoint := Some addr\<rparr>\<rparr> else peer2)"
      obtain dropped peer4 where push: "ps_push_transport (cx_now cx) t peer3 = (dropped, peer4)" by fastforce
      define peer5 where "peer5 = peer4\<lparr>ps_handshake := None, ps_resend_scope := None\<rparr>"
      define w' where "w' = (drop_guards (dropped @ hs_guards peer4) (update_peer r (\<lambda>_. peer5) w))\<lparr>ws_id_map :=
        (ws_id_map (drop_guards (dropped @ hs_guards peer4) (update_peer r (\<lambda>_. peer5) w)))(?i \<mapsto> r)\<rparr>"
      have "learn_endpoint addr peer2 = Some peer3"
        by (simp add: peer3_def learn_endpoint_def ps_set_endpoint_def)
      then have run: "init_peer cx r result p addr w = Some ([SendUdp signed addr], w')"
        using newer ROk y mac1 signed c(2) push
        by (simp add: init_peer_def peer_def [symmetric] peer1_def [symmetric] peer2_def [symmetric] t_def [symmetric]
            peer5_def [symmetric] w'_def hs_guards_def cx(2) Let_def)
      have same3: "ps_handshake peer3 = ps_handshake ?p0" "ps_transports peer3 = ps_transports ?p0" "ps_queue peer3 = ps_queue ?p0"
        "pi_allowed_ips (ps_info peer3) = pi_allowed_ips (ps_info ?p0)" "pi_public_key (ps_info peer3) = pi_public_key (ps_info ?p0)"
        by (simp_all add: peer3_def peer2_def peer1_def peer_def ps_count_send_def ps_count_recv_def)
      obtain kept where kept: "map tp_self_id (ps_transports peer3) = kept @ dropped"
        "map tp_self_id (ps_transports peer4) = tp_self_id t # kept"
        "ps_handshake peer4 = ps_handshake peer3" "ps_queue peer4 = ps_queue peer3" "ps_info peer4 = ps_info peer3"
        "length (ps_transports peer3) \<le> MAX_TRANSPORTS \<longrightarrow> length (ps_transports peer4) \<le> MAX_TRANSPORTS"
        "ps_transports peer4 ! 0 = t" "ps_transports peer4 \<noteq> []"
        by (rule push_transport_shape [OF push])
      have same4: "hs_guards peer4 = hs_guards ?p0" "ps_queue peer5 = ps_queue ?p0" "ps_handshake peer5 = None"
        "pi_allowed_ips (ps_info peer5) = pi_allowed_ips (ps_info ?p0)" "pi_public_key (ps_info peer5) = pi_public_key (ps_info ?p0)"
        using kept same3 by (simp_all add: peer5_def hs_guards_def)
      let ?ids = "map tp_self_id (ps_transports ?p0)"
      note old = live_guards [OF inv r]
      have split: "?ids = kept @ dropped" using kept(1) same3(2) by simp
      have guards: "ps_guards peer5 = ?i # kept" using kept(2) by (simp add: ps_guards_def peer5_def t_def)
      have dist: "distinct (hs_guards ?p0 @ kept @ dropped)" using old(1) unfolding ps_guards_split split .
      have new: "?i \<notin> set (hs_guards ?p0 @ kept @ dropped)" using old(3) [OF x(3)] unfolding ps_guards_split split .
      have owned: "ws_id_map w j = Some r" if "j \<in> set (hs_guards ?p0 @ kept @ dropped)" for j
        using old(2) [of j] that unfolding ps_guards_split split .
      have "full_inv x w'"
      proof (rule full_inv_change_peer [OF inv r, of peer5])
        have "length (ps_transports peer5) \<le> MAX_TRANSPORTS" using old(5) kept(6) same3(2) by (simp add: peer5_def)
        then show "peer_bounds peer5"
          using old(4) dist new unfolding peer_bounds_def guards by (simp add: same4)
        show "peer_ok x peer5"
          using full_invD(2) [OF inv r] by (simp add: peer_ok_def same4)
        show "ws_id_map w' j = (if j \<in> set (ps_guards peer5) then Some r
            else if j \<in> set (ps_guards ?p0) then None else ws_id_map w j)" for j
          unfolding guards unfolding ps_guards_split split
          using dist new owned [of j] by (auto simp: w'_def restrict_map_def same4(1))
        show "j \<in> set (ps_guards peer5) \<Longrightarrow> j \<in> set (ps_guards ?p0) \<or> ws_id_map w j = None" for j
          unfolding guards unfolding ps_guards_split split using x(3) by auto
      qed (simp_all add: w'_def peer_allowed_ips_def same4)
      then show ?thesis using run by blast
    qed
  qed
qed

definition goes_on :: "('h, 'a) hs_externals_scheme \<Rightarrow> 'h handled \<Rightarrow> bool" where
  "goes_on x res \<longleftrightarrow> (\<exists>out w'. res = Some (out, w') \<and> full_inv x w')"

lemma goes_onI [intro]: "full_inv x w' \<Longrightarrow> goes_on x (Some (out, w'))"
  by (auto simp: goes_on_def)

lemma verify_mac1_total: "32 \<le> length p \<Longrightarrow> \<exists>b. verify_mac1 x wg p = Some b"
  by (simp add: verify_mac1_def Let_def)

lemma ctx_ok_load: "check_handshake_load cx w = (load, w') \<Longrightarrow> ctx_ok cx w' = ctx_ok cx w"
  using check_handshake_load_inv(3) [of cx w load w'] by (simp add: ctx_ok_def)

lemma handshake_init_inv:
  assumes inv: "full_inv x w" and cx: "ctx_ok cx w" "cx_ext cx = x"
  shows "goes_on x (udp_process_handshake_init cx p addr w)"
proof (cases "length p = HANDSHAKE_INIT_LEN")
  case False
  then show ?thesis using inv by (auto simp: udp_process_handshake_init_def)
next
  case len: True
  have x: "hs_externals_ok x" "length (cx_nonce cx) = 24" using cx by (auto simp: ctx_ok_def)
  have len32: "32 \<le> length p" using len by (simp add: HANDSHAKE_INIT_LEN_def)
  obtain b where b: "verify_mac1 x (ws_info w) p = Some b" using verify_mac1_total [OF len32] by blast
  obtain load w1 where load: "check_handshake_load cx w = (load, w1)" by fastforce
  note same = check_handshake_load_inv [OF load]
  have inv1: "full_inv x w1" using inv same(1) by blast
  obtain m where m: "(if load then mac2_reply cx w1 p addr else Some None) = Some m"
    using mac2_reply_total [of cx p w1 addr] x cx(2) len32 by (cases load) auto
  show ?thesis
  proof (cases "b \<and> m = None")
    case False
    then show ?thesis
      using inv inv1 len b load m
      by (cases b; cases m) (auto simp: udp_process_handshake_init_def cx(2) Let_def simp del: if_split split: bool.split)
  next
    case go: True
    have run: "udp_process_handshake_init cx p addr w =
        (case process_initiation x (ws_info w1) p of
           RPanic \<Rightarrow> None
         | RErr _ \<Rightarrow> Some ([], w1)
         | ROk result \<Rightarrow>
             (case ns_get_rs (x_noise x) (ir_handshake_state result) of
                None \<Rightarrow> None
              | Some r_pubkey \<Rightarrow>
                  (case find_peer_by_pubkey w1 r_pubkey of
                     None \<Rightarrow> Some ([], w1)
                   | Some r \<Rightarrow> init_peer cx r result p addr w1)))"
      using go len b load m by (simp add: udp_process_handshake_init_def cx(2) Let_def)
    show ?thesis
    proof (cases "process_initiation x (ws_info w1) p")
      case RPanic
      then show ?thesis using process_initiation_total(1) [OF x(1) len] by blast
    next
      case (RErr e)
      then show ?thesis using inv1 unfolding run by auto
    next
      case (ROk result)
      obtain rs where rs: "ns_get_rs (x_noise x) (ir_handshake_state result) = Some rs"
        using process_initiation_total(2) [OF x(1) len ROk] by blast
      show ?thesis
      proof (cases "find_peer_by_pubkey w1 rs")
        case None
        then show ?thesis using inv1 unfolding run by (auto simp: ROk rs)
      next
        case (Some r)
        have "\<exists>out w'. init_peer cx r result p addr w1 = Some (out, w') \<and> full_inv x w'"
          using ctx_ok_load [OF load] cx len ROk find_by_pubkey_live [OF Some]
          by (intro init_peer_inv [OF inv1]) auto
        then show ?thesis unfolding run by (simp add: ROk rs Some goes_on_def)
      qed
    qed
  qed
qed

section \<open>Responses\<close>

lemma send_queued_ok:
  assumes "\<forall>p \<in> set q. length p + 32 \<le> BUFSIZE" "unat (tp_send_counter t) + length q < 2 ^ 20"
  shows "\<exists>out t'. send_queued ae addr t q = Some (out, t') \<and> tp_self_id t' = tp_self_id t"
  using assms
proof (induction q arbitrary: t)
  case (Cons p q)
  let ?t = "t\<lparr>tp_send_counter := tp_send_counter t + 1\<rparr>"
  have "unat (tp_send_counter t) < unat REJECT_AFTER_MESSAGES"
    using Cons.prems(2) by (simp add: REJECT_AFTER_MESSAGES_def)
  then have lt: "tp_send_counter t < REJECT_AFTER_MESSAGES" by (simp add: word_less_nat_alt)
  then have "\<not> REJECT_AFTER_MESSAGES \<le> tp_send_counter t" by simp
  then obtain out h where e: "tp_encrypt ae t p (length p + 32) = Some ((Some out, h), ?t)" by (simp add: tp_encrypt_eq)
  have "unat (tp_send_counter ?t) + length q < 2 ^ 20" using u64_Suc [OF lt] Cons.prems(2) by simp
  then obtain out' t' where "send_queued ae addr ?t q = Some (out', t')" "tp_self_id t' = tp_self_id ?t"
    using Cons.IH [of ?t] Cons.prems(1) by auto
  then show ?case using e Cons.prems(1) by (auto simp: not_less)
qed simp

lemma fold_count_send: "keeps x p (fold (\<lambda>q. ps_count_send (length q + 32)) qs p)"
proof (induction qs arbitrary: p)
  case (Cons q qs)
  show ?case using keeps_trans [OF keeps_count_send Cons.IH] by simp
qed simp

lemma fold_count_send_transports:
  "ps_transports (fold (\<lambda>q. ps_count_send (length q + 32)) qs p) = ps_transports p"
  by (induction qs arbitrary: p) (simp_all add: ps_count_send_def)

text \<open>The new session replaces the handshake and takes over its identifier.\<close>

lemma handshake_resp_commit_inv:
  assumes inv: "full_inv x w" and x: "cx_ext cx = x" and r: "r \<in> live w"
    and h: "ps_handshake (ws_peers w r) = Some h" "hk_self_id h = self_id"
    and c: "ns_get_ciphers (x_noise x) hs \<noteq> None"
  shows "goes_on x (handshake_resp_commit cx r self_id peer_id hs addr w)"
proof -
  let ?p0 = "ws_peers w r"
  obtain ciphers where ciphers: "ns_get_ciphers (x_noise x) hs = Some ciphers" using c by blast
  define w1 where "w1 = w\<lparr>ws_id_map := (ws_id_map w)(self_id \<mapsto> r)\<rparr>"
  define p1 where "p1 = ?p0\<lparr>ps_resend_scope := None, ps_handshake := None\<rparr>"
  define t where "t = tp_new_from_hs self_id peer_id (ns_is_initiator (x_noise x) hs) ciphers (cx_now cx)"
  obtain dropped p2 where push: "ps_push_transport (cx_now cx) t p1 = (dropped, p2)" by fastforce
  define p3 where "p3 = (if pi_roaming (ps_info p2) then p2\<lparr>ps_info := (ps_info p2)\<lparr>pi_endpoint := Some addr\<rparr>\<rparr> else p2)"
  define p4 where "p4 = p3\<lparr>ps_queue := []\<rparr>"
  define w2 where "w2 = drop_guards dropped w1"
  have learn: "learn_endpoint addr p2 = Some p3" by (simp add: p3_def learn_endpoint_def ps_set_endpoint_def)
  obtain kept where kept: "map tp_self_id (ps_transports p1) = kept @ dropped"
    "map tp_self_id (ps_transports p2) = tp_self_id t # kept"
    "ps_handshake p2 = ps_handshake p1" "ps_queue p2 = ps_queue p1" "ps_info p2 = ps_info p1"
    "length (ps_transports p1) \<le> MAX_TRANSPORTS \<longrightarrow> length (ps_transports p2) \<le> MAX_TRANSPORTS"
    "ps_transports p2 ! 0 = t" "ps_transports p2 \<noteq> []"
    by (rule push_transport_shape [OF push])
  have p3: "ps_queue p3 = ps_queue ?p0" "ps_handshake p3 = None" "ps_transports p3 = ps_transports p2"
    "pi_allowed_ips (ps_info p3) = pi_allowed_ips (ps_info ?p0)" "pi_public_key (ps_info p3) = pi_public_key (ps_info ?p0)"
    using kept(3,4,5) by (simp_all add: p3_def p1_def)
  note old = live_guards [OF inv r]
  have guards0: "ps_guards ?p0 = self_id # kept @ dropped"
    using kept(1) h by (simp add: ps_guards_def p1_def)
  have guards4: "ps_guards p4 = self_id # kept" using kept(2) p3 by (simp add: ps_guards_def p4_def t_def)
  have final: "full_inv x (update_peer r (\<lambda>_. q) w2)" if q: "keeps x p4 q" for q
  proof -
    have "full_inv x (update_peer r (\<lambda>_. p4) w2)"
    proof (rule full_inv_change_peer [OF inv r, of p4])
      have "length (ps_transports p4) \<le> MAX_TRANSPORTS" using old(5) kept(6) by (simp add: p4_def p3(3) p1_def)
      then show "peer_bounds p4"
        using old(1) unfolding peer_bounds_def guards4 guards0 by (simp add: p4_def)
      show "peer_ok x p4" by (simp add: peer_ok_def p4_def p3)
      show "ws_id_map (update_peer r (\<lambda>_. p4) w2) j = (if j \<in> set (ps_guards p4) then Some r
          else if j \<in> set (ps_guards ?p0) then None else ws_id_map w j)" for j
        using old(1) old(2) [of j] unfolding guards4 guards0
        by (auto simp: w2_def w1_def restrict_map_def)
      show "j \<in> set (ps_guards p4) \<Longrightarrow> j \<in> set (ps_guards ?p0) \<or> ws_id_map w j = None" for j
        unfolding guards4 guards0 by auto
    qed (simp_all add: w2_def w1_def p4_def p3 peer_allowed_ips_def)
    then have "full_inv x (update_peer r (\<lambda>_. q) (update_peer r (\<lambda>_. p4) w2))"
      by (rule full_inv_update) (simp add: q)
    then show ?thesis by simp
  qed
  show ?thesis
  proof (cases "ps_queue ?p0 = []")
    case True
    have "handshake_resp_commit cx r self_id peer_id hs addr w =
        Some ([], update_peer r (\<lambda>_. p4\<lparr>ps_keepalive := adjust_and_activate_secs (cx_now cx) 1 (ps_keepalive p4)\<rparr>) w2)"
      using True h ciphers push learn p3(1)
      by (simp add: handshake_resp_commit_def Let_def x w1_def p1_def t_def w2_def ps_dequeue_all_def p4_def)
    then show ?thesis using final [OF timers_keep(2)] by (simp add: goes_on_def)
  next
    case False
    let ?q = "ps_queue ?p0"
    define p5 where "p5 = ps_on_send_transport (cx_now cx) (fold (\<lambda>p. ps_count_send (length p + 32)) ?q p4)"
    have k5: "keeps x p4 p5" unfolding p5_def by (rule keeps_trans [OF fold_count_send keeps_on_send_transport])
    have t5: "ps_transports p5 = ps_transports p2"
      by (simp add: p5_def ps_on_send_transport_def ps_adjust_persistent_def fold_count_send_transports p4_def p3(3)
          Let_def split: option.split)
    have "\<forall>p \<in> set ?q. length p + 32 \<le> BUFSIZE" using full_invD(2) [OF inv r] by (simp add: peer_ok_def)
    moreover have "unat (tp_send_counter t) + length ?q < 2 ^ 20" using old(4) by (simp add: t_def QUEUE_SIZE_def)
    ultimately obtain out t' where sent: "send_queued (x_aead x) addr t ?q = Some (out, t')" "tp_self_id t' = tp_self_id t"
      using send_queued_ok by blast
    have "handshake_resp_commit cx r self_id peer_id hs addr w = Some (out, update_peer r (\<lambda>_. set_transport 0 t' p5) w2)"
      using False h ciphers push learn p3(1) sent(1)
      by (simp add: handshake_resp_commit_def Let_def x w1_def p1_def t_def w2_def ps_dequeue_all_def p5_def p4_def)
    moreover have "keeps x p5 (set_transport 0 t' p5)"
      using kept(7,8) sent(2) by (intro keeps_set_transport) (simp_all add: t5)
    ultimately show ?thesis using final [OF keeps_trans [OF k5]] by (simp add: goes_on_def)
  qed
qed

lemma update_peer_inv: "full_inv x w \<Longrightarrow> (\<And>p. keeps x p (f p)) \<Longrightarrow> full_inv x (update_peer r f w)"
  by (rule full_inv_update) auto

lemma handshake_resp_begin_inv:
  assumes inv: "full_inv x w" and cx: "ctx_ok cx w" "cx_ext cx = x"
  shows "case handshake_resp_begin cx p addr w of
      RespPanic \<Rightarrow> False
    | RespDone out w' \<Rightarrow> full_inv x w'
    | RespCommit r self_id peer_id hs w' \<Rightarrow> full_inv x w' \<and> r \<in> live w' \<and>
        (\<exists>h. ps_handshake (ws_peers w' r) = Some h \<and> hk_self_id h = self_id) \<and> ns_get_ciphers (x_noise x) hs \<noteq> None \<and>
        ns_is_initiator (x_noise x) hs"
proof (cases "length p = HANDSHAKE_RESP_LEN")
  case False
  then show ?thesis using inv by (simp add: handshake_resp_begin_def)
next
  case len: True
  have x: "hs_externals_ok x" "length (cx_nonce cx) = 24" using cx by (auto simp: ctx_ok_def)
  have len32: "32 \<le> length p" using len by (simp add: HANDSHAKE_RESP_LEN_def)
  obtain b where b: "verify_mac1 x (ws_info w) p = Some b" using verify_mac1_total [OF len32] by blast
  obtain load w1 where load: "check_handshake_load cx w = (load, w1)" by fastforce
  have inv1: "full_inv x w1" using inv check_handshake_load_inv(1) [OF load] by blast
  obtain m where m: "(if load then mac2_reply cx w1 p addr else Some None) = Some m"
    using mac2_reply_total [of cx p w1 addr] x cx(2) len32 by (cases load) auto
  obtain i where i: "id_from_slice (slice 8 12 p) = Some i" using id_slice [of 12 8 p] len32 by auto
  show ?thesis
  proof (cases "b \<and> m = None")
    case False
    then show ?thesis
      using inv inv1 len b load m
      by (cases b; cases m) (auto simp: handshake_resp_begin_def cx(2) Let_def simp del: if_split split: bool.split)
  next
    case go: True
    show ?thesis
    proof (cases "find_peer_by_id w1 i")
      case None
      then show ?thesis using go len b load m i inv1 by (simp add: handshake_resp_begin_def cx(2) Let_def)
    next
      case (Some r)
      have live: "r \<in> live w1"
        using find_by_id_live [OF wg_invD(3) [OF full_invD(1) [OF inv1]] Some] by blast
      let ?w = "update_peer r (ps_count_recv HANDSHAKE_RESP_LEN) w1"
      have inv2: "full_inv x ?w" by (rule update_peer_inv [OF inv1 keeps_count_recv])
      have run: "handshake_resp_begin cx p addr w = (case ps_handshake (ws_peers w1 r) of
            None \<Rightarrow> RespDone [] ?w
          | Some handshake \<Rightarrow>
              if hk_self_id handshake \<noteq> i then RespDone [] ?w
              else case process_response x (hk_hs handshake) p of
                     RPanic \<Rightarrow> RespPanic
                   | RErr _ \<Rightarrow> RespDone [] ?w
                   | ROk (peer_id, hs) \<Rightarrow> RespCommit r i peer_id hs ?w)"
        using go len b load m i Some by (simp add: handshake_resp_begin_def cx(2) Let_def)
      show ?thesis
      proof (cases "ps_handshake (ws_peers w1 r)")
        case None
        then show ?thesis using inv2 unfolding run by simp
      next
        case h: (Some h)
        have started: "hs_started x (hk_hs h)" using full_invD(2) [OF inv1 live] h by (simp add: peer_ok_def)
        note tot = process_response_total [OF x(1) started len]
        have "ps_handshake (ws_peers ?w r) = Some h" using h by (simp add: ps_count_recv_def)
        then show ?thesis
          using inv2 live tot unfolding run by (cases "process_response x (hk_hs h) p") (auto simp: h split: prod.split)
      qed
    qed
  qed
qed

lemma handshake_resp_inv:
  assumes inv: "full_inv x w" and cx: "ctx_ok cx w" "cx_ext cx = x"
  shows "goes_on x (udp_process_handshake_resp cx p addr w)"
  using handshake_resp_begin_inv [OF assms, of p addr] handshake_resp_commit_inv [OF _ cx(2)]
  by (cases "handshake_resp_begin cx p addr w") (auto simp: udp_process_handshake_resp_def)

lemma cookie_reply_inv:
  assumes inv: "full_inv x w" and cx: "ctx_ok cx w" "cx_ext cx = x" and len: "12 \<le> length p"
  shows "goes_on x (udp_process_cookie_reply cx p w)"
proof -
  obtain i where i: "id_from_slice (slice 4 8 p) = Some i" using id_slice [of 8 4 p] len by auto
  have ok: "externals_ok x" using cx by (auto simp: ctx_ok_def intro: externals_ok_of)
  show ?thesis
  proof (cases "find_peer_by_id w i")
    case None
    then show ?thesis using inv by (auto simp: udp_process_cookie_reply_def i)
  next
    case (Some r)
    let ?p = "ps_count_recv (length p) (ws_peers w r)"
    have k: "full_inv x (update_peer r (\<lambda>_. q) w)" if "keeps x ?p q" for q
      by (rule full_inv_update [OF inv]) (rule keeps_trans [OF keeps_count_recv that])
    have c: "keeps x ?p (?p\<lparr>ps_cookie := c\<rparr>)" for c by (rule keepsI) simp_all
    show ?thesis
    proof (cases "ps_last_mac1 ?p")
      case None
      then show ?thesis using k [OF keeps_refl] by (auto simp: udp_process_cookie_reply_def i Some Let_def)
    next
      case mac1: (Some mac1)
      show ?thesis
        using k [OF keeps_refl] k [OF c] process_cookie_reply_total [OF ok, of "pi_public_key (ps_info ?p)" mac1 p] mac1
        by (cases "process_cookie_reply x (pi_public_key (ps_info ?p)) mac1 p")
          (auto simp: udp_process_cookie_reply_def i Some cx(2) Let_def)
    qed
  qed
qed

section \<open>Data packets\<close>

lemma transport_begin_inv:
  assumes inv: "full_inv x w"
  shows "case transport_begin cx p addr w of
      TransportPanic \<Rightarrow> False
    | TransportDone w' \<Rightarrow> full_inv x w'
    | TransportGo r write set_endpoint handshake w' \<Rightarrow> full_inv x w' \<and>
        (set_endpoint \<longrightarrow> pi_roaming (ps_info (ws_peers w' r)))"
proof (cases "length p < 32")
  case True
  then show ?thesis using inv by (simp add: transport_begin_def)
next
  case False
  obtain i where i: "id_from_slice (slice 4 8 p) = Some i" using id_slice [of 8 4 p] False by auto
  show ?thesis
  proof (cases "find_peer_by_id w i")
    case None
    then show ?thesis using inv False by (simp add: transport_begin_def i)
  next
    case (Some r)
    define q where "q = ps_count_recv (length p) (ws_peers w r)"
    have upd: "full_inv x (update_peer r (\<lambda>_. s) w)" if "keeps x q s" for s
      by (rule full_inv_update [OF inv]) (rule keeps_trans [OF keeps_count_recv that [unfolded q_def]])
    show ?thesis
    proof (cases "ps_find_transport_by_id i q")
      case None
      then show ?thesis
        using upd [OF keeps_refl] False Some i by (simp add: transport_begin_def q_def [symmetric] Let_def)
    next
      case k: (Some k)
      then have k_less: "k < length (ps_transports q)" by (simp add: ps_find_transport_by_id_def find_index_Some)
      obtain res t where dec: "tp_decrypt (x_aead (cx_ext cx)) (ps_transports q ! k) p (length p - 32) = Some (res, t)"
        using tp_decrypt_total [of "x_aead (cx_ext cx)" "ps_transports q ! k" p] by auto
      have s: "keeps x q (set_transport k t q)"
        using tp_decrypt_self_id [OF dec] k_less by (intro keeps_set_transport) simp_all
      show ?thesis
      proof (cases res)
        case None
        then show ?thesis
          using upd [OF s] False Some i k dec by (simp add: transport_begin_def q_def [symmetric] Let_def)
      next
        case res: (Some hd)
        obtain h d where hd: "hd = (h, d)" by (cases hd)
        show ?thesis
          using upd [OF keeps_trans [OF s keeps_on_recv]] False Some i k dec
          by (simp add: transport_begin_def q_def [symmetric] res hd Let_def)
      qed
    qed
  qed
qed

lemma transport_inv:
  assumes inv: "full_inv x w"
  shows "goes_on x (udp_process_transport cx p addr w)"
proof -
  have commit: "goes_on x (transport_commit cx r pkt e b addr w')"
    if w': "full_inv x w'" "e \<longrightarrow> pi_roaming (ps_info (ws_peers w' r))" for r pkt e b w'
  proof -
    have "full_inv x (update_peer r (\<lambda>_. q) w')" if "ps_set_endpoint addr (ws_peers w' r) = Some q" for q
      by (rule full_inv_update [OF w'(1)]) (rule keeps_set_endpoint [OF that])
    then show ?thesis
      using w' by (auto simp: transport_commit_def ps_set_endpoint_def intro!: goes_onI do_handshake_inv)
  qed
  show ?thesis
    using transport_begin_inv [OF inv, of cx p addr] commit
    by (cases "transport_begin cx p addr w") (auto simp: udp_process_transport_def)
qed

lemma udp_processing_inv:
  assumes "full_inv x w" "ctx_ok cx w" "cx_ext cx = x"
  shows "goes_on x (udp_processing cx p addr w)"
  using assms handshake_init_inv [OF assms] handshake_resp_inv [OF assms] cookie_reply_inv [OF assms] transport_inv
  by (auto simp: udp_processing_def Let_def)

lemma padded_bound:
  assumes "len \<le> 65504"
  shows "len \<le> unat (pad_len (of_nat len) (ucast (mtu :: u32)))" "unat (pad_len (of_nat len) (ucast (mtu :: u32))) \<le> 65504"
proof -
  let ?len = "of_nat len :: u64"
  have len: "unat ?len = len" using assms by (simp add: unat_of_nat take_bit_nat_eq_self)
  have "unat ?len + 16 < 2 ^ 64" using len assms by simp
  note p = pad_len_unat [OF this, of "ucast mtu"]
  have "(len + 15) div 16 * 16 \<le> 65504" "len \<le> (len + 15) div 16 * 16" using assms by presburger+
  then show "len \<le> unat (pad_len ?len (ucast mtu))" "unat (pad_len ?len (ucast mtu)) \<le> 65504"
    using p len assms by (auto simp: min_def)
qed

lemma tun_packet_inv:
  assumes inv: "full_inv x w" and len: "length pkt \<le> 65504"
  shows "goes_on x (tun_packet_processing cx pkt w)"
proof -
  let ?padded = "unat (pad_len (of_nat (length pkt)) (ucast (ws_mtu w)))"
  define q where "q = pkt @ replicate (?padded - length pkt) 0"
  have q: "length q + 32 \<le> BUFSIZE" using padded_bound [OF len, of "ws_mtu w"] by (simp add: q_def BUFSIZE_def)
  have padded: "\<not> BUFSIZE < ?padded" using padded_bound(2) [OF len, of "ws_mtu w"] by (simp add: BUFSIZE_def)
  show ?thesis
  proof (cases "parse_ip_packet q")
    case None
    then show ?thesis using inv padded by (simp add: tun_packet_processing_def q_def [symmetric] Let_def goes_onI)
  next
    case (Some h)
    obtain l src dst where h: "h = (l, src, dst)" by (cases h)
    show ?thesis
    proof (cases "find_peer_by_ip w dst")
      case None
      then show ?thesis using Some h inv padded by (simp add: tun_packet_processing_def q_def [symmetric] Let_def goes_onI)
    next
      case r: (Some r)
      let ?p = "ws_peers w r"
      have upd: "full_inv x (update_peer r (\<lambda>_. s) w)" if "keeps x ?p s" for s
        by (rule full_inv_update [OF inv]) (rule that)
      show ?thesis
      proof (cases "ps_get_endpoint ?p")
        case None
        then show ?thesis using Some h r inv padded by (simp add: tun_packet_processing_def q_def [symmetric] Let_def goes_onI)
      next
        case e: (Some endpoint)
        show ?thesis
        proof (cases "ps_find_transport_to_send ?p")
          case None
          then show ?thesis
            using Some h r e padded upd [OF keeps_enqueue [OF q]]
            by (simp add: tun_packet_processing_def q_def [symmetric] Let_def goes_onI do_handshake_inv)
        next
          case i: (Some i)
          then have i_less: "i < length (ps_transports ?p)" by (simp add: ps_find_transport_to_send_def find_index_Some)
          have "tp_encrypt (x_aead (cx_ext cx)) (ps_transports ?p ! i) q (length q + 32) \<noteq> None" by (rule tp_encrypt_total)
          then obtain res hs t where enc: "tp_encrypt (x_aead (cx_ext cx)) (ps_transports ?p ! i) q (length q + 32) = Some ((res, hs), t)"
            by auto
          have k: "keeps x ?p (set_transport i t ?p)"
            using tp_encrypt_self_id [OF enc] i_less by (intro keeps_set_transport) simp_all
          have k': "keeps x ?p (ps_on_send_transport now (ps_count_send n (set_transport i t ?p)))" for now n
            by (rule keeps_trans [OF k keeps_trans [OF keeps_count_send keeps_on_send_transport]])
          show ?thesis
            using Some h r e i padded enc upd [OF k] upd [OF k']
            by (cases res) (simp_all add: tun_packet_processing_def q_def [symmetric] Let_def goes_onI do_handshake_inv)
        qed
      qed
    qed
  qed
qed

end
