(* ===== verification/Wg_Protocol.thy ===== *)
theory Wg_Protocol
  imports Wg_Run
begin

text \<open>
  The interface as a state machine: datagrams, packets from the tunnel, timers, handshake loops,
  configuration requests and the background tasks, in any order, each a whole step. The states they
  reach are \<open>wg_reachable\<close>; all of them satisfy the invariant, and no event panics in them. What
  configuration does to the peers, \<open>reconfigures\<close>, is stated once for the theories on sessions and on
  initiations.
\<close>

section \<open>What configuration does to the peers\<close>

text \<open>
  A configuration operation only ever drops handshakes, sessions and queued packets of a peer, and
  leaves the timestamp of its last handshake; a peer that was not there before is new.
\<close>

definition drops_to :: "'h peer_state \<Rightarrow> 'h peer_state \<Rightarrow> bool" where
  "drops_to p p' \<longleftrightarrow> (ps_handshake p' = None \<or> ps_handshake p' = ps_handshake p) \<and> set (ps_queue p') \<subseteq> set (ps_queue p) \<and>
     set (ps_transports p') \<subseteq> set (ps_transports p) \<and> ps_last_handshake p' = ps_last_handshake p"

definition shrinks :: "'h wg_state \<Rightarrow> 'h wg_state \<Rightarrow> bool" where
  "shrinks w w' \<longleftrightarrow> live w' \<subseteq> live w \<and> (\<forall>q \<in> live w'. drops_to (ws_peers w q) (ws_peers w' q))"

definition reconfigures :: "'h wg_state \<Rightarrow> 'h wg_state \<Rightarrow> bool" where
  "reconfigures w w' \<longleftrightarrow> (\<forall>q \<in> live w'.
     (q \<in> live w \<and> drops_to (ws_peers w q) (ws_peers w' q)) \<or> (q \<notin> live w \<and> (\<exists>pk now. ws_peers w' q = ps_new pk now)))"

lemma drops_to_refl [simp]: "drops_to p p"
  by (simp add: drops_to_def)

lemma drops_to_trans: "drops_to p q \<Longrightarrow> drops_to q s \<Longrightarrow> drops_to p s"
  by (auto simp: drops_to_def)

lemma drops_to_ok: "peer_ok x p \<Longrightarrow> drops_to p p' \<Longrightarrow> peer_ok x p'"
  by (auto simp: peer_ok_def drops_to_def)

lemma drops_to_clear: "ps_clear_all p = (d, p') \<Longrightarrow> drops_to p p'"
  by (auto simp: ps_clear_all_def drops_to_def)

lemma shrinks_same: "ws_peers w' = ws_peers w \<Longrightarrow> ws_pubkey_map w' = ws_pubkey_map w \<Longrightarrow> shrinks w w'"
  by (simp add: shrinks_def live_def)

lemma shrinks_trans: "shrinks w v \<Longrightarrow> shrinks v w' \<Longrightarrow> shrinks w w'"
  unfolding shrinks_def by (meson drops_to_trans subset_iff)

lemma shrinks_reconfigures: "shrinks w w' \<Longrightarrow> reconfigures w w'"
  by (auto simp: shrinks_def reconfigures_def)

lemma set_peer_info_drops: "set_peer_info now command p = (d, p') \<Longrightarrow> drops_to p (set_allowed_ips A p')"
proof -
  assume "set_peer_info now command p = (d, p')"
  then obtain q where q: "set_peer_psk command p = (d, q)" "p' = set_peer_keepalive now command (set_peer_endpoint command q)"
    by (auto simp: set_peer_info_def Let_def split: prod.splits)
  have "drops_to p q" using q(1) by (auto simp: set_peer_psk_def ps_clear_all_def drops_to_def split: if_splits)
  moreover have "drops_to q (set_allowed_ips A p')"
    by (simp add: q(2) set_peer_keepalive_def set_peer_endpoint_def set_allowed_ips_def drops_to_def Let_def split: option.split)
  ultimately show ?thesis by (rule drops_to_trans)
qed

lemma set_peer_shrinks:
  assumes inv: "wg_inv w" and cmd: "command_ok command" and w': "set_peer now command w = ROk w'"
  shows "shrinks w w'"
proof -
  obtain r where r: "find_peer_by_pubkey w (sp_public_key command) = Some r"
    using w' by (cases "find_peer_by_pubkey w (sp_public_key command)") (simp_all add: set_peer_def)
  obtain v d p1 where v: "set_peer now command w = ROk v"
    and p1: "set_peer_info now command (ws_peers w r) = (d, p1)"
    and v_sel: "tables_wf v" "ws_pubkey_map v = ws_pubkey_map w" "ws_next v = ws_next w" "ws_info v = ws_info w"
    "ws_id_map v = ws_id_map w |` (- set d)"
    "ws_peers v r = set_allowed_ips (allowed_after command r w r) p1"
    "\<forall>p \<in> live w - {r}. ws_peers v p = set_allowed_ips (allowed_after command r w p) (ws_peers w p)"
    "routes v = (\<lambda>k. if k \<in> masked_ips command then Some r
       else if sp_replace_allowed_ips command \<and> k \<in> peer_allowed_ips w r then None else routes w k)"
    by (rule set_peer_ok [OF wg_invD(1) [OF inv] cmd r, of now])
  have "v = w'" using v w' by simp
  have live: "live w' = live w" using v_sel(2) \<open>v = w'\<close> by (simp add: live_def)
  have "drops_to (ws_peers w q) (ws_peers w' q)" if q: "q \<in> live w" for q
  proof (cases "q = r")
    case True
    then show ?thesis using v_sel(6) set_peer_info_drops [OF p1] \<open>v = w'\<close> by simp
  next
    case False
    then have "ws_peers w' q = set_allowed_ips (allowed_after command r w q) (ws_peers w q)" using v_sel(7) q \<open>v = w'\<close> by simp
    then show ?thesis by (simp add: drops_to_def set_allowed_ips_def)
  qed
  then show ?thesis by (simp add: shrinks_def live)
qed

lemma add_peer_reconfigures:
  assumes inv: "wg_inv w" and w': "wg_add_peer pk now w = ROk w'"
  shows "reconfigures w w'"
proof -
  have eq: "w' = w\<lparr>ws_peers := (ws_peers w)(ws_next w := ps_new pk now), ws_next := Suc (ws_next w),
      ws_pubkey_map := AList.update pk (ws_next w) (ws_pubkey_map w)\<rparr>" "pk \<notin> fst ` set (ws_pubkey_map w)"
    using w' by (auto simp: wg_add_peer_def Let_def map_of_eq_None_iff split: if_splits)
  then have "live w' = insert (ws_next w) (live w)" by (simp add: live_def update_append)
  moreover have "ws_next w \<notin> live w" using wg_invD(2) [OF inv] by (auto simp: keys_inv_def live_def)
  ultimately show ?thesis by (auto simp: reconfigures_def eq(1))
qed

lemma remove_peer_shrinks:
  assumes inv: "wg_inv w" and w': "remove_peer pk w = ROk (b, w')"
  shows "wg_inv w' \<and> shrinks w w'"
proof (cases "map_of (ws_pubkey_map w) pk")
  case None
  then show ?thesis using w' inv by (simp add: remove_peer_def shrinks_same)
next
  case (Some r)
  obtain v where v: "remove_peer pk w = ROk (True, v)" "wg_inv v" "live v = live w - {r}"
    "ws_pubkey_map v = AList.delete pk (ws_pubkey_map w)" "\<forall>q. q \<noteq> r \<longrightarrow> ws_peers v q = ws_peers w q"
    "routes v = (\<lambda>k. if routes w k = Some r then None else routes w k)"
    "ws_id_map v = (\<lambda>i. if ws_id_map w i = Some r then None else ws_id_map w i)"
    "ws_info v = ws_info w" "ws_next v = ws_next w"
    by (rule remove_peer_ok [OF inv Some])
  have "v = w'" using v(1) w' by simp
  then show ?thesis using v by (simp add: shrinks_def)
qed

lemma remove_peers_shrinks: "wg_inv w \<Longrightarrow> remove_peers pks w = ROk w' \<Longrightarrow> shrinks w w'"
proof (induction pks arbitrary: w)
  case (Cons pk pks)
  obtain b v where v: "remove_peer pk w = ROk (b, v)" "remove_peers pks v = ROk w'"
    using Cons.prems(2) by (auto simp: and_then_ROk_iff)
  note step = remove_peer_shrinks [OF Cons.prems(1) v(1)]
  show ?case using step shrinks_trans Cons.IH [OF _ v(2)] by blast
qed (simp add: shrinks_same)

lemma clear_peers_shrinks: "shrinks w (clear_peers rs w)"
proof (induction rs arbitrary: w)
  case (Cons r rs)
  obtain d p where c: "ps_clear_all (ws_peers w r) = (d, p)" by fastforce
  have "shrinks w (drop_guards d (update_peer r (\<lambda>_. p) w))"
    using drops_to_clear [OF c] by (simp add: shrinks_def update_peer_def drop_guards_def live_def)
  then show ?case using shrinks_trans [OF _ Cons.IH] by (simp add: c)
qed (simp add: shrinks_same)

lemma set_key_shrinks: "shrinks w (set_key key w)"
proof -
  let ?v = "clear_peers (map snd (ws_pubkey_map w)) w"
  have "shrinks ?v (?v\<lparr>ws_info := (ws_info ?v)\<lparr>wi_key := key\<rparr>\<rparr>)" by (rule shrinks_same) simp_all
  then show ?thesis using shrinks_trans [OF clear_peers_shrinks] by (simp add: set_key_def Let_def)
qed

lemma set_port_shrinks: "set_port o' port w = ROk w' \<Longrightarrow> shrinks w w'"
  by (rule shrinks_same) (auto simp: set_port_def and_then_ROk_iff Let_def split: if_splits option.splits)

lemma set_fwmark_shrinks: "set_fwmark o' fwmark w = ROk w' \<Longrightarrow> shrinks w w'"
  by (rule shrinks_same) (auto simp: set_fwmark_def split: if_splits)

lemma config_step_reconfigures:
  assumes inv: "wg_inv w" and ok: "config_op_ok c" and w': "config_step o' now c w = ROk w'"
  shows "reconfigures w w'"
proof (cases "\<exists>pk. c = OpAddPeer pk")
  case True
  then show ?thesis using add_peer_reconfigures [OF inv] w' by (auto simp: config_step_def)
next
  case False
  note remove = remove_peer_shrinks [OF inv, THEN conjunct2] remove_peers_shrinks [OF inv]
  have "shrinks w w'"
    using w' ok False
    by (cases c)
      (auto simp: config_step_def and_then_ROk_iff remove_all_peers_def set_key_shrinks
        dest: set_peer_shrinks [OF inv] remove set_port_shrinks set_fwmark_shrinks)
  then show ?thesis by (rule shrinks_reconfigures)
qed

lemma reconfiguresE:
  assumes "reconfigures w w'" "q \<in> live w'"
  obtains "q \<in> live w" "drops_to (ws_peers w q) (ws_peers w' q)"
    | pk now where "q \<notin> live w" "ws_peers w' q = ps_new pk now"
  using assms unfolding reconfigures_def by blast

lemma peer_ok_new: "peer_ok x (ps_new pk now)"
  by (simp add: peer_ok_def)

lemma config_step_full_inv:
  assumes inv: "full_inv x w" and ok: "config_op_ok c" and w': "config_step o' now c w = ROk w'"
  shows "full_inv x w'"
proof -
  note wg = full_invD(1) [OF inv]
  have "wg_inv w'" using config_step_inv [OF wg ok, of o' now] w' by auto
  moreover have "peer_ok x (ws_peers w' q)" if "q \<in> live w'" for q
    using reconfiguresE [OF config_step_reconfigures [OF wg ok w'] that]
    by (metis drops_to_ok full_invD(2) [OF inv] peer_ok_new)
  ultimately show ?thesis by (simp add: full_inv_def)
qed

section \<open>The state machine\<close>

datatype wg_event = EvDatagram bytes socket_addr_v6 | EvPacket bytes | EvTimer peer_timer nat | EvHandshakeLoop nat
  | EvConfig config_op | EvSessionTasks nat | EvCookieSecret bytes | EvMtu "u32 option" | EvStartRx | EvReplaceSocket

definition wg_step :: "os \<Rightarrow> 'h ctx \<Rightarrow> wg_event \<Rightarrow> 'h wg_state \<Rightarrow> 'h handled" where
  "wg_step o' cx e w =
     (case e of
        EvDatagram p addr \<Rightarrow> udp_processing cx p addr w
      | EvPacket pkt \<Rightarrow> tun_packet_processing cx pkt w
      | EvTimer k r \<Rightarrow> if r \<in> live w then run_timer cx k r w else Some ([], w)
      | EvHandshakeLoop r \<Rightarrow> if r \<in> live w then handshake_loop cx r w else Some ([], w)
      | EvConfig c \<Rightarrow>
          (case config_step o' (cx_now cx) c w of ROk w \<Rightarrow> Some ([], w) | RErr _ \<Rightarrow> Some ([], w) | RPanic \<Rightarrow> None)
      | EvSessionTasks r \<Rightarrow>
          Some ([], update_peer r (\<lambda>p. p\<lparr>ps_transports := map (tp_tick (cx_now cx)) (ps_transports p)\<rparr>) w)
      | EvCookieSecret s \<Rightarrow> Some ([], task_update_cookie_secret s w)
      | EvMtu m \<Rightarrow> Some ([], task_update_mtu m w)
      | EvStartRx \<Rightarrow> Some ([], task_rx_start w)
      | EvReplaceSocket \<Rightarrow> Some ([], rx_replace_socket w))"

text \<open>Packets from the tunnel fit the receive buffer with their overhead.\<close>

fun event_ok :: "wg_event \<Rightarrow> bool" where
  "event_ok (EvPacket pkt) = (length pkt \<le> 65504)"
| "event_ok (EvConfig c) = config_op_ok c"
| "event_ok _ = True"

inductive wg_reachable :: "os \<Rightarrow> 'h hs_externals \<Rightarrow> 'h wg_state \<Rightarrow> bool" for o' x where
  start: "wg_new o' key cookie mtu now = ROk w \<Longrightarrow> wg_reachable o' x w"
| step: "wg_reachable o' x w \<Longrightarrow> ctx_ok cx w \<Longrightarrow> cx_ext cx = x \<Longrightarrow> event_ok e \<Longrightarrow>
    wg_step o' cx e w = Some (out, w') \<Longrightarrow> wg_reachable o' x w'"

inductive_cases wg_reachableE: "wg_reachable o' x w"

lemma wg_step_inv:
  assumes inv: "full_inv x w" and cx: "ctx_ok cx w" "cx_ext cx = x" and e: "event_ok e"
  shows "goes_on x (wg_step o' cx e w)"
proof (cases e)
  case (EvDatagram p addr)
  then show ?thesis using udp_processing_inv [OF inv cx] by (simp add: wg_step_def)
next
  case (EvPacket pkt)
  then show ?thesis using tun_packet_inv [OF inv] e by (simp add: wg_step_def)
next
  case (EvTimer k r)
  then show ?thesis using run_timer_inv [OF inv, of r cx k] inv by (auto simp: wg_step_def goes_on_def)
next
  case (EvHandshakeLoop r)
  then show ?thesis using handshake_loop_inv [OF inv cx, of r] inv by (auto simp: wg_step_def goes_on_def)
next
  case (EvConfig c)
  have c: "config_op_ok c" using e EvConfig by simp
  then show ?thesis
    using config_step_inv [OF full_invD(1) [OF inv] c, of o' "cx_now cx"] config_step_full_inv [OF inv c, of o' "cx_now cx"] inv
    by (auto simp: wg_step_def EvConfig)
next
  case (EvSessionTasks r)
  have "keeps x p (p\<lparr>ps_transports := map (tp_tick now) (ps_transports p)\<rparr>)" for p now
    by (rule keepsI) (simp_all add: tp_tick_def Let_def)
  then show ?thesis using update_peer_inv [OF inv] by (auto simp: wg_step_def EvSessionTasks)
next
  case (EvCookieSecret s)
  have "full_inv x (task_update_cookie_secret s w)"
    by (rule full_inv_cong [OF inv]) (simp_all add: task_update_cookie_secret_def)
  then show ?thesis by (auto simp: wg_step_def EvCookieSecret)
next
  case (EvMtu m)
  have "full_inv x (task_update_mtu m w)"
    by (rule full_inv_cong [OF inv]) (simp_all add: task_update_mtu_def Let_def split: option.split)
  then show ?thesis by (auto simp: wg_step_def EvMtu)
next
  case EvStartRx
  have "full_inv x (task_rx_start w)" by (rule full_inv_cong [OF inv]) (simp_all add: task_rx_start_def)
  then show ?thesis by (auto simp: wg_step_def EvStartRx)
next
  case EvReplaceSocket
  have "full_inv x (rx_replace_socket w)"
    by (rule full_inv_cong [OF inv]) (simp_all add: rx_replace_socket_def split: option.split list.split)
  then show ?thesis by (auto simp: wg_step_def EvReplaceSocket)
qed

lemma wg_new_full_inv: "wg_new o' key cookie mtu now = ROk w \<Longrightarrow> full_inv x w"
proof -
  assume new: "wg_new o' key cookie mtu now = ROk w"
  then have "ws_pubkey_map w = []"
    by (cases "prepare_socket o' 0 0"; cases mtu) (auto simp: wg_new_def split: prod.splits)
  then show ?thesis using wg_new_inv [OF new] by (simp add: full_inv_def live_def)
qed

lemma reachable_full_inv: "wg_reachable o' x w \<Longrightarrow> full_inv x w"
proof (induction rule: wg_reachable.induct)
  case (start key cookie mtu now w)
  then show ?case by (rule wg_new_full_inv)
next
  case (step w cx e out w')
  then show ?case using wg_step_inv [of x w cx e o'] by (auto simp: goes_on_def)
qed


definition example_ctx :: "mock ctx" where
  "example_ctx = \<lparr>cx_ext = mock_externals, cx_now = 5, cx_tai_now = (5, 0), cx_interop_test = False,
     cx_id = [1, 2, 3, 4], cx_ephemeral = replicate 32 3, cx_nonce = replicate 24 9, cx_delay_ms = 5000\<rparr>"

lemma example_ctx_ok: "ctx_ok example_ctx example_new" "cx_ext example_ctx = mock_externals"
  by (simp_all add: ctx_ok_def example_ctx_def mock_externals_ok example_new_def)

definition example_addr :: socket_addr_v6 where
  "example_addr = \<lparr>sa6_ip = 1, sa6_port = 2, sa6_flowinfo = 0, sa6_scope_id = 0\<rparr>"


end
