(* ===== verification/Ipc_Server.thy ===== *)
theory Ipc_Server
  imports Ipc_Parse Wg_Protocol
begin

text \<open>
  The IPC server: \<open>src/src/ipc/server.rs\<close>. What it writes is the list of its lines; \<open>writeln!\<close> appends
  one. \<open>serve\<close> handles one connection: it parses the request, applies it to the interface and writes
  the response. The properties: every request is parsed without a failing \<open>unwrap\<close> into a command that
  the interface accepts; a connection takes a reachable interface to a reachable one and never panics.
  \<open>Ipc_Roundtrip\<close> has the client side.
\<close>

section \<open>Writing\<close>

definition opt_lines :: "('a \<Rightarrow> string list) \<Rightarrow> 'a option \<Rightarrow> string list" where
  "opt_lines f r = (case r of None \<Rightarrow> [] | Some a \<Rightarrow> f a)"

definition write_peer :: "text_ext \<Rightarrow> peer_state_out \<Rightarrow> string list" where
  "write_peer tx p =
     [''public_key='' @ tx_hex_encode tx (po_public_key p)] @
     opt_lines (\<lambda>psk. [''preshared_key='' @ tx_hex_encode tx psk]) (po_preshared_key p) @
     map (\<lambda>(a, l). ''allowed_ip='' @ tx_ip_fmt tx a @ ''/'' @ dec l) (sorted_list_of_set (po_allowed_ips p)) @
     [''persistent_keepalive_interval='' @ dec (unat (po_persistent_keepalive_interval p))] @
     opt_lines (\<lambda>e. [''endpoint='' @ tx_addr_fmt tx e]) (po_endpoint p) @
     [''rx_bytes='' @ dec (unat (po_rx_bytes p)), ''tx_bytes='' @ dec (unat (po_tx_bytes p))] @
     opt_lines (\<lambda>t. [''last_handshake_time_sec='' @ dec (t div 10 ^ 9), ''last_handshake_time_nsec='' @ dec (t mod 10 ^ 9)])
       (po_last_handshake_time p)"

definition write_wg_state :: "text_ext \<Rightarrow> wg_state_out \<Rightarrow> string list" where
  "write_wg_state tx state =
     [''private_key='' @ tx_hex_encode tx (xk_key (wo_private_key state)),
      ''listen_port='' @ dec (unat (wo_listen_port state))] @
     (if wo_fwmark state \<noteq> 0 then [''fwmark='' @ dec (unat (wo_fwmark state))] else []) @
     concat (map (write_peer tx) (wo_peers state)) @
     [''errno=0'', []]"

definition write_error :: "int \<Rightarrow> string list" where
  "write_error errno = [''errno='' @ dec_int errno, []]"

section \<open>Requests\<close>

definition set_peer_command_of :: "wg_set_peer_command \<Rightarrow> set_peer_command" where
  "set_peer_command_of p =
     \<lparr>sp_public_key = wsp_public_key p, sp_preshared_key = wsp_preshared_key p, sp_endpoint = wsp_endpoint p,
      sp_keepalive = wsp_persistent_keepalive_interval p, sp_replace_allowed_ips = wsp_replace_allowed_ips p,
      sp_allowed_ips = wsp_allowed_ips p\<rparr>"

text \<open>
  The loop over the peers of a set request; \<open>None\<close> is a panic. The clock gives the time of each call.
\<close>

fun process_peers :: "(nat \<Rightarrow> instant) \<Rightarrow> nat \<Rightarrow> wg_set_peer_command list \<Rightarrow> 'h wg_state \<Rightarrow> 'h wg_state option" where
  "process_peers clock n [] w = Some w"
| "process_peers clock n (p # ps) w =
     (if wsp_remove p then
        (case remove_peer (wsp_public_key p) w of
           ROk (_, w) \<Rightarrow> process_peers clock (Suc n) ps w
         | _ \<Rightarrow> None)
      else
        (case (if \<not> peer_exists w (wsp_public_key p) then wg_add_peer (wsp_public_key p) (clock (2 * n)) w else ROk w) of
           ROk w \<Rightarrow>
             (case set_peer (clock (2 * n + 1)) (set_peer_command_of p) w of
                ROk w \<Rightarrow> process_peers clock (Suc n) ps w
              | _ \<Rightarrow> None)
         | _ \<Rightarrow> None))"

text \<open>
  Whether the request succeeded, and the state: an error of the socket ends the request where it is.
\<close>

definition process_wg_set :: "os \<Rightarrow> (nat \<Rightarrow> instant) \<Rightarrow> wg_set_command \<Rightarrow> 'h wg_state \<Rightarrow> (bool \<times> 'h wg_state) option" where
  "process_wg_set o' clock command w =
     (let w = (case wsc_private_key command of None \<Rightarrow> w | Some key \<Rightarrow> set_key key w) in
      case (case wsc_listen_port command of None \<Rightarrow> ROk w | Some p \<Rightarrow> set_port o' p w) of
        RErr _ \<Rightarrow> Some (False, w)
      | RPanic \<Rightarrow> None
      | ROk w \<Rightarrow>
          (case (case wsc_fwmark command of None \<Rightarrow> ROk w | Some fwmark \<Rightarrow> set_fwmark o' fwmark w) of
             RErr _ \<Rightarrow> Some (False, w)
           | RPanic \<Rightarrow> None
           | ROk w \<Rightarrow>
               (case (if wsc_replace_peers command then remove_all_peers w else ROk w) of
                  ROk w \<Rightarrow> map_option (Pair True) (process_peers clock 0 (wsc_peers command) w)
                | _ \<Rightarrow> None)))"

text \<open>
  One connection: the lines written, whether \<open>serve\<close> returns \<open>Ok\<close>, and the interface, which is \<open>None\<close>
  when it is gone. The future of \<open>write_error\<close> that the code drops after a parse error never runs.
  \<open>errno\<close> is the \<open>raw_os_error\<close> of a socket operation that failed.
\<close>

definition serve :: "text_ext \<Rightarrow> 'h hs_externals \<Rightarrow> lines_codec \<Rightarrow> os \<Rightarrow> int option \<Rightarrow> (nat \<Rightarrow> instant) \<Rightarrow> nat \<Rightarrow>
    string \<Rightarrow> 'h wg_state option \<Rightarrow> (string list \<times> bool \<times> 'h wg_state option) option" where
  "serve tx x codec o' errno clock system_now input wg =
     (case parse_command_io tx x codec (take (1024 * 1024) input) of
        RPanic \<Rightarrow> None
      | RErr e \<Rightarrow> Some ([], False, wg)
      | ROk None \<Rightarrow> Some ([], True, wg)
      | ROk (Some c) \<Rightarrow>
          (case wg of
             None \<Rightarrow> Some (write_error 6, False, None)
           | Some w \<Rightarrow>
               (case c of
                  IpcGet \<Rightarrow> Some (write_wg_state tx (get_state (clock 0) system_now w), True, Some w)
                | IpcSet sc \<Rightarrow>
                    (case process_wg_set o' clock sc w of
                       None \<Rightarrow> None
                     | Some (True, w) \<Rightarrow> Some (write_error 0, True, Some w)
                     | Some (False, w) \<Rightarrow>
                         (case errno of None \<Rightarrow> None | Some e \<Rightarrow> Some (write_error e, True, Some w))))))"

section \<open>Parsed requests are valid\<close>

definition peer_command_ok :: "wg_set_peer_command \<Rightarrow> bool" where
  "peer_command_ok p \<longleftrightarrow> length (wsp_public_key p) = 32 \<and> (\<forall>k. wsp_preshared_key p = Some k \<longrightarrow> length k = 32) \<and>
     command_ok (set_peer_command_of p)"

definition set_command_ok :: "'h hs_externals \<Rightarrow> wg_set_command \<Rightarrow> bool" where
  "set_command_ok x c \<longleftrightarrow> (\<forall>k. wsc_private_key c = Some k \<longrightarrow> key_from_slice x (xk_key k) = Some k) \<and>
     (\<forall>p \<in> set (wsc_peers c). peer_command_ok p)"

definition ok_with :: "('a \<Rightarrow> bool) \<Rightarrow> ('e, 'a) rust_result \<Rightarrow> bool" where
  "ok_with P r \<longleftrightarrow> r \<noteq> RPanic \<and> (\<forall>a. r = ROk a \<longrightarrow> P a)"

lemma ok_with_simps [simp]: "ok_with P (ROk a) = P a" "ok_with P (RErr e)" "\<not> ok_with P RPanic"
  by (simp_all add: ok_with_def)

lemma ok_with_and_then [intro]: "ok_with Q r \<Longrightarrow> (\<And>a. Q a \<Longrightarrow> r = ROk a \<Longrightarrow> ok_with P (f a)) \<Longrightarrow> ok_with P (and_then r f)"
  by (cases r) simp_all

lemma ok_with_ok_or [simp]: "ok_with P (ok_or e r) \<longleftrightarrow> (\<forall>a. r = Some a \<longrightarrow> P a)"
  by (cases r) simp_all

lemma ok_with_parse_num [simp]: "ok_with (\<lambda>_. True) (parse_num v)" "ok_with (\<lambda>_. True) (parse_flag v)"
  by (simp_all add: parse_num_def parse_flag_def)

lemma ok_with_key32: "ok_with (\<lambda>b. length b = 32) (parse_key32 tx v)"
  unfolding parse_key32_def by (rule ok_with_and_then [where Q = "\<lambda>_. True"]) simp_all

lemma ok_with_allowed_ip: "ok_with (\<lambda>(a, l). l \<le> ip_width a) (parse_allowed_ip tx v)"
proof -
  obtain ip r where "splitn2 CHR ''/'' v = (ip, r)" by (cases "splitn2 CHR ''/'' v")
  then show ?thesis unfolding parse_allowed_ip_def
    by (cases r) (auto intro!: ok_with_and_then [where Q = "\<lambda>_. True"])
qed

lemma ok_with_try [simp]: "ok_with (\<lambda>_. True) (try_next s)" "ok_with (\<lambda>_. True) (try_peek s)"
  by (simp_all add: ok_with_def)

lemma ok_with_public_key: "ok_with (\<lambda>(_, key, _). length key = 32) (parse_public_key tx s)"
  unfolding parse_public_key_def
  by (auto intro!: ok_with_and_then [where Q = "\<lambda>_. True"] ok_with_and_then [OF ok_with_key32] split: option.splits prod.splits)

lemma ok_with_if: "ok_with P a \<Longrightarrow> ok_with P b \<Longrightarrow> ok_with P (if c then a else b)"
  by simp

lemma ok_with_simple: "ok_with (\<lambda>_. True) r \<Longrightarrow> (\<And>a. P (f a)) \<Longrightarrow> ok_with P (and_then r (\<lambda>a. ROk (f a)))"
  by (cases r) simp_all

lemma ok_with_bind: "ok_with Q r \<Longrightarrow> (\<And>a. Q a \<Longrightarrow> P (f a)) \<Longrightarrow> ok_with P (and_then r (\<lambda>a. ROk (f a)))"
  by (cases r) simp_all

lemmas peer_command_simps = peer_command_ok_def command_ok_def set_peer_command_of_def

lemma parse_peer_line_ok:
  assumes "peer_command_ok peer"
  shows "ok_with (\<lambda>r. \<forall>p. r = Some p \<longrightarrow> peer_command_ok p) (parse_peer_line tx l line peer)"
proof -
  obtain k v where kv: "splitn2 CHR ''='' line = (k, v)" by (cases "splitn2 CHR ''='' line")
  note defs = parse_peer_line_def kv prod.case option.case
  show ?thesis
  proof (cases v)
    case None
    then show ?thesis unfolding defs None by simp
  next
    case (Some v)
    have upd: "peer_command_ok (peer\<lparr>wsp_remove := b\<rparr>)" "peer_command_ok (peer\<lparr>wsp_endpoint := e\<rparr>)"
      "peer_command_ok (peer\<lparr>wsp_persistent_keepalive_interval := n\<rparr>)" "peer_command_ok (peer\<lparr>wsp_replace_allowed_ips := b\<rparr>)"
      "length psk = 32 \<Longrightarrow> peer_command_ok (peer\<lparr>wsp_preshared_key := Some psk\<rparr>)"
      "(case a of (a, l) \<Rightarrow> l \<le> ip_width a) \<Longrightarrow> peer_command_ok (peer\<lparr>wsp_allowed_ips := insert a (wsp_allowed_ips peer)\<rparr>)"
      for b e n psk a using assms by (simp_all add: peer_command_simps)
    show ?thesis unfolding defs Some
      by (intro ok_with_if ok_with_simple [where r = "parse_flag v"] ok_with_simple [where r = "parse_num v"]
          ok_with_bind [OF ok_with_key32] ok_with_bind [OF ok_with_allowed_ip] ok_with_simple [where r = "ok_or e r" for e r])
        (simp_all add: upd)
  qed
qed

lemma parse_peer_loop_ok: "peer_command_ok peer \<Longrightarrow> ok_with (\<lambda>(p, _). peer_command_ok p) (parse_peer_loop tx l peer s)"
proof (induction tx l peer s rule: parse_peer_loop.induct)
  case (1 tx l peer s)
  show ?case
  proof (subst parse_peer_loop.simps, rule ok_with_and_then [OF ok_with_try(2)])
    fix a assume peek: "try_peek s = ROk a"
    obtain line s1 where a: "a = (line, s1)" by (cases a)
    have step: "ok_with (\<lambda>(p, _). peer_command_ok p)
        (and_then (parse_peer_line tx l line' peer) (\<lambda>r. case r of None \<Rightarrow> ROk (peer, s1)
           | Some peer \<Rightarrow> and_then (unwrap (try_next s1)) (\<lambda>(_, s). parse_peer_loop tx l peer s)))"
      if line: "line = Some line'" and c: "\<not> (line' = [] \<or> starts_with line' ''public_key'')" for line'
    proof (rule ok_with_and_then [OF parse_peer_line_ok [OF 1(2)]])
      fix r assume r: "\<forall>p. r = Some p \<longrightarrow> peer_command_ok p" "parse_peer_line tx l line' peer = ROk r"
      obtain s2 where s2: "try_next s1 = ROk (Some line', s2)" using peek_then_next peek a line by blast
      show "ok_with (\<lambda>(p, _). peer_command_ok p) (case r of None \<Rightarrow> ROk (peer, s1)
           | Some peer \<Rightarrow> and_then (unwrap (try_next s1)) (\<lambda>(_, s). parse_peer_loop tx l peer s))"
        using 1(1) [OF peek a [symmetric] line c r(2)] r 1(2) s2 by (cases r) simp_all
    qed
    show "ok_with (\<lambda>(p, _). peer_command_ok p) (case a of (None, s) \<Rightarrow> RErr UnexpectedEnd
        | (Some line, s) \<Rightarrow> if line = [] \<or> starts_with line ''public_key'' then ROk (peer, s)
          else and_then (parse_peer_line tx l line peer) (\<lambda>r. case r of None \<Rightarrow> ROk (peer, s)
             | Some peer \<Rightarrow> and_then (unwrap (try_next s)) (\<lambda>(_, s). parse_peer_loop tx l peer s)))"
      using step 1(2) by (cases line) (auto simp: a)
  qed
qed

lemma parse_peer_ok: "ok_with (\<lambda>(p, _). peer_command_ok p) (parse_peer tx s)"
  unfolding parse_peer_def
  by (rule ok_with_and_then [OF ok_with_public_key])
    (auto intro!: parse_peer_loop_ok, simp add: peer_command_simps new_set_peer_def)

lemma parse_peers_ok: "set_command_ok x c \<Longrightarrow> ok_with (set_command_ok x) (parse_peers tx c s)"
proof (induction tx c s rule: parse_peers.induct)
  case (1 tx c s)
  show ?case
  proof (subst parse_peers.simps, rule ok_with_and_then [OF parse_peer_ok])
    fix a assume a: "case a of (p, _) \<Rightarrow> peer_command_ok p" "parse_peer tx s = ROk a"
    obtain p s1 where a': "a = (p, s1)" by (cases a)
    have c: "set_command_ok x (c\<lparr>wsc_peers := wsc_peers c @ [p]\<rparr>)" using 1(2) a(1) a' by (auto simp: set_command_ok_def)
    show "ok_with (set_command_ok x) (case a of (peer, s) \<Rightarrow>
        let command = c\<lparr>wsc_peers := wsc_peers c @ [peer]\<rparr> in and_then (try_peek s) (\<lambda>(line, s).
          case line of None \<Rightarrow> RErr UnexpectedEnd
          | Some line \<Rightarrow> if line = [] then ROk command else parse_peers tx command s))"
      unfolding a' prod.case Let_def
    proof (rule ok_with_and_then [OF ok_with_try(2)])
      fix b assume b: "try_peek s1 = ROk b"
      show "ok_with (set_command_ok x) (case b of (line, s) \<Rightarrow> case line of None \<Rightarrow> RErr UnexpectedEnd
          | Some line \<Rightarrow> if line = [] then ROk (c\<lparr>wsc_peers := wsc_peers c @ [p]\<rparr>)
            else parse_peers tx (c\<lparr>wsc_peers := wsc_peers c @ [p]\<rparr>) s)"
        using 1(1) [OF a(2) a' [symmetric] refl b _ _ _ c] c by (cases b) (auto split: option.split)
    qed
  qed
qed

lemma parse_set_line_ok:
  assumes "set_command_ok x c"
  shows "ok_with (set_command_ok x) (parse_set_line tx x line c)"
proof -
  obtain k v where kv: "splitn2 CHR ''='' line = (k, v)" by (cases "splitn2 CHR ''='' line")
  note defs = parse_set_line_def kv prod.case option.case
  show ?thesis
  proof (cases v)
    case None
    then show ?thesis unfolding defs None by simp
  next
    case (Some v)
    have key: "ok_with (set_command_ok x) (and_then (parse_key32 tx v) (\<lambda>b.
        case key_from_slice x b of None \<Rightarrow> RPanic | Some k \<Rightarrow> ROk (c\<lparr>wsc_private_key := Some k\<rparr>)))"
      using assms by (intro ok_with_and_then [OF ok_with_key32]) (auto simp: key_from_slice_def set_command_ok_def)
    have upd: "set_command_ok x (c\<lparr>wsc_fwmark := n\<rparr>)" "set_command_ok x (c\<lparr>wsc_listen_port := p\<rparr>)"
      "set_command_ok x (c\<lparr>wsc_replace_peers := b\<rparr>)" for n p b
      using assms by (simp_all add: set_command_ok_def)
    show ?thesis unfolding defs Some
      by (intro ok_with_if key ok_with_simple [where r = "parse_flag v"] ok_with_simple [where r = "parse_num v"])
        (simp_all add: upd)
  qed
qed

lemma parse_set_loop_ok: "set_command_ok x c \<Longrightarrow> ok_with (set_command_ok x) (parse_set_loop tx x c s)"
proof (induction tx x c s rule: parse_set_loop.induct)
  case (1 tx x c s)
  show ?case
  proof (subst parse_set_loop.simps, rule ok_with_and_then [OF ok_with_try(2)])
    fix a assume peek: "try_peek s = ROk a"
    obtain line s1 where a: "a = (line, s1)" by (cases a)
    have step: "ok_with (set_command_ok x) (and_then (unwrap (try_next s1)) (\<lambda>(line, s). case line of None \<Rightarrow> RPanic
           | Some line \<Rightarrow> and_then (parse_set_line tx x line c) (\<lambda>c. parse_set_loop tx x c s)))"
      if line: "line = Some line'" and c: "line' \<noteq> []" "\<not> starts_with line' ''public_key''" for line'
    proof -
      obtain s2 where s2: "try_next s1 = ROk (Some line', s2)" using peek_then_next peek a line by blast
      then have u: "unwrap (try_next s1) = ROk (Some line', s2)" by simp
      show ?thesis unfolding u and_then_simps prod.case option.case
        by (rule ok_with_and_then [OF parse_set_line_ok [OF 1(2)]]) (rule 1(1) [OF peek a [symmetric] line c u refl refl], assumption+)
    qed
    have taken: "ok_with (set_command_ok x) (and_then (unwrap (try_next s1)) (\<lambda>_. ROk c))" if "line = Some line'" for line'
      using peek_then_next [of s line' s1] peek a that 1(2) by auto
    show "ok_with (set_command_ok x) (case a of (None, s) \<Rightarrow> RErr UnexpectedEnd
        | (Some line, s) \<Rightarrow> if line = [] then and_then (unwrap (try_next s)) (\<lambda>_. ROk c)
          else if starts_with line ''public_key'' then parse_peers tx c s
          else and_then (unwrap (try_next s)) (\<lambda>(line, s). case line of None \<Rightarrow> RPanic
             | Some line \<Rightarrow> and_then (parse_set_line tx x line c) (\<lambda>c. parse_set_loop tx x c s)))"
      using step taken parse_peers_ok [OF 1(2)] by (cases line) (simp_all add: a)
  qed
qed

lemma parse_command_ok: "ok_with (\<lambda>c. \<forall>sc. c = Some (IpcSet sc) \<longrightarrow> set_command_ok x sc) (parse_command tx x stream)"
proof -
  have set_ok: "ok_with (set_command_ok x) (parse_set_command tx x s)" for s
    unfolding parse_set_command_def by (rule parse_set_loop_ok) (simp add: set_command_ok_def)
  have get_ok: "ok_with (\<lambda>c. \<forall>sc. c = Some (IpcSet sc) \<longrightarrow> set_command_ok x sc)
      (and_then (try_next s) (\<lambda>(l, s). case l of None \<Rightarrow> RErr UnexpectedEnd
         | Some l \<Rightarrow> if l \<noteq> [] then RErr (ExpectedEmptyLine l) else ROk (Some IpcGet)))" for s
    by (rule ok_with_and_then [OF ok_with_try(1)]) (auto split: option.split)
  show ?thesis unfolding parse_command_def
    by (rule ok_with_and_then [OF ok_with_try(1)])
      (auto split: option.split intro!: get_ok ok_with_bind [OF set_ok])
qed

section \<open>Set requests\<close>

text \<open>What the socket operations at the start of a set request may do.\<close>

lemma set_port_cases: "(\<exists>w'. set_port o' p w = ROk w') \<or> set_port o' p w = RErr ()"
  using prepare_socket_total [of o' p "wi_fwmark (ws_info w)"]
  by (auto simp: set_port_def and_then_def Let_def split: rust_result.splits)

lemma set_fwmark_cases: "(\<exists>w'. set_fwmark o' m w = ROk w') \<or> set_fwmark o' m w = RErr ()"
  by (simp add: set_fwmark_def)

lemma set_peer_live: "wg_inv w \<Longrightarrow> command_ok command \<Longrightarrow> peer_exists w (sp_public_key command) \<Longrightarrow>
    \<exists>w'. set_peer now command w = ROk w' \<and> wg_inv w' \<and> ws_pubkey_map w' = ws_pubkey_map w"
proof -
  assume inv: "wg_inv w" and cmd: "command_ok command" and "peer_exists w (sp_public_key command)"
  then obtain r where r: "find_peer_by_pubkey w (sp_public_key command) = Some r" by (auto simp: peer_exists_def)
  obtain w' where w': "set_peer now command w = ROk w'" "ws_pubkey_map w' = ws_pubkey_map w"
    by (rule set_peer_ok [OF wg_invD(1) [OF inv] cmd r])
  then show ?thesis using set_peer_inv [OF inv cmd w'(1)] by blast
qed

text \<open>The keys of the interface after the peers of a request: those set last, and not those removed last.\<close>

fun keys_after :: "wg_set_peer_command list \<Rightarrow> bytes set \<Rightarrow> bytes set" where
  "keys_after [] K = K"
| "keys_after (p # ps) K =
     keys_after ps (if wsp_remove p then K - {wsp_public_key p} else insert (wsp_public_key p) K)"

definition pubkeys :: "'h wg_state \<Rightarrow> bytes set" where
  "pubkeys w = fst ` set (ws_pubkey_map w)"

lemma peer_exists_iff: "peer_exists w pk \<longleftrightarrow> pk \<in> pubkeys w"
  by (simp add: peer_exists_def find_peer_by_pubkey_def pubkeys_def map_of_eq_None_iff)

lemma config_run_append: "config_run o' (xs @ ys) w = Option.bind (config_run o' xs w) (config_run o' ys)"
  by (induction o' xs w rule: config_run.induct) (auto split: rust_result.split)

text \<open>A sequence of valid operations from one state to another.\<close>

definition config_path :: "os \<Rightarrow> (instant \<times> config_op) list \<Rightarrow> 'h wg_state \<Rightarrow> 'h wg_state \<Rightarrow> bool" where
  "config_path o' ops w w' \<longleftrightarrow> (\<forall>(t, c) \<in> set ops. config_op_ok c) \<and> config_run o' ops w = Some w'"

lemma config_path_nil [simp]: "config_path o' [] w w"
  by (simp add: config_path_def)

lemma config_path_append: "config_path o' xs w v \<Longrightarrow> config_path o' ys v w' \<Longrightarrow> config_path o' (xs @ ys) w w'"
  by (auto simp: config_path_def config_run_append)

lemma config_path_one: "config_op_ok c \<Longrightarrow> config_step o' t c w = ROk w' \<Longrightarrow> config_path o' [(t, c)] w w'"
  by (simp add: config_path_def)

lemma remove_peer_pubkeys:
  assumes inv: "wg_inv w" and v: "remove_peer pk w = ROk (b, v)"
  shows "pubkeys v = pubkeys w - {pk}"
proof (cases "map_of (ws_pubkey_map w) pk")
  case None
  then have "v = w" using v by (simp add: remove_peer_def)
  then show ?thesis using None by (simp add: pubkeys_def map_of_eq_None_iff)
next
  case (Some r)
  obtain v' where "remove_peer pk w = ROk (True, v')" "ws_pubkey_map v' = AList.delete pk (ws_pubkey_map w)"
    by (rule remove_peer_ok [OF inv Some])
  then show ?thesis using v by (auto simp: pubkeys_def set_delete)
qed

lemma process_peers_path:
  fixes w :: "'h wg_state"
  shows "wg_inv w \<Longrightarrow> (\<And>p. p \<in> set ps \<Longrightarrow> peer_command_ok p) \<Longrightarrow>
    \<exists>w' ops. process_peers clock n ps w = Some w' \<and> wg_inv w' \<and> config_path o' ops w w' \<and>
      pubkeys w' = keys_after ps (pubkeys w)"
proof (induction ps arbitrary: n w)
  case Nil
  then show ?case by (auto intro!: exI [of _ "[]"])
next
  case (Cons p ps)
  let ?pk = "wsp_public_key p"
  have cmd: "command_ok (set_peer_command_of p)" using Cons.prems(2) [of p] by (simp add: peer_command_ok_def)
  have IH: "\<exists>w' ops. process_peers clock (Suc n) ps v = Some w' \<and> wg_inv w' \<and> config_path o' ops v w' \<and>
      pubkeys w' = keys_after ps (pubkeys v)" if "wg_inv v" for v :: "'h wg_state"
    by (rule Cons.IH [OF that]) (simp add: Cons.prems(2))
  show ?case
  proof (cases "wsp_remove p")
    case True
    obtain b v where v: "remove_peer ?pk w = ROk (b, v)" using remove_peer_total [OF Cons.prems(1)] by blast
    then have step: "config_path o' [(clock 0, OpRemovePeer ?pk)] w v" by (auto intro!: config_path_one simp: config_step_def)
    have "pubkeys v = pubkeys w - {?pk}" by (rule remove_peer_pubkeys [OF Cons.prems(1) v])
    moreover obtain w' ops where "process_peers clock (Suc n) ps v = Some w'" "wg_inv w'" "config_path o' ops v w'"
      "pubkeys w' = keys_after ps (pubkeys v)" using IH [OF remove_peer_inv [OF Cons.prems(1) v]] by blast
    ultimately show ?thesis using v True config_path_append [OF step]
      by (intro exI [of _ w'] exI [of _ "[(clock 0, OpRemovePeer ?pk)] @ ops"]) simp
  next
    case False
    obtain v where v: "(if \<not> peer_exists w ?pk then wg_add_peer ?pk (clock (2 * n)) w else ROk w) = ROk v"
      by (cases "peer_exists w ?pk") (auto simp: wg_add_peer_def peer_exists_def find_peer_by_pubkey_def Let_def)
    have vinv: "wg_inv v" using v add_peer_inv [OF Cons.prems(1)] Cons.prems(1) by (auto split: if_splits)
    have keys: "pubkeys v = insert ?pk (pubkeys w)"
      using v by (auto simp: wg_add_peer_def peer_exists_iff pubkeys_def Let_def update_append split: if_splits)
    have "\<exists>ops. config_path o' ops w v"
      using v config_path_one [of "OpAddPeer ?pk" o' "clock (2 * n)" w v]
      by (cases "peer_exists w ?pk") (auto simp: config_step_def intro: exI [of _ "[]"])
    then obtain xs where xs: "config_path o' xs w v" by blast
    obtain u where u: "set_peer (clock (2 * n + 1)) (set_peer_command_of p) v = ROk u" "wg_inv u" "ws_pubkey_map u = ws_pubkey_map v"
      using set_peer_live [OF vinv cmd] keys by (auto simp: peer_exists_iff set_peer_command_of_def)
    have "config_path o' [(clock (2 * n + 1), OpSetPeer (set_peer_command_of p))] v u"
      using cmd u(1) by (intro config_path_one) (simp_all add: config_step_def)
    note path = config_path_append [OF xs this]
    have "pubkeys u = insert ?pk (pubkeys w)" using u(3) keys by (simp add: pubkeys_def)
    moreover obtain w' ops where w': "process_peers clock (Suc n) ps u = Some w'" "wg_inv w'" "config_path o' ops u w'"
      "pubkeys w' = keys_after ps (pubkeys u)" using IH [OF u(2)] by blast
    moreover have "process_peers clock n (p # ps) w = Some w'" using v u(1) w'(1) False by simp
    ultimately show ?thesis using config_path_append [OF path w'(3)] False by auto
  qed
qed

text \<open>The part of a request before its peers: key, port, mark, and the removal of all peers.\<close>

lemma set_key_path: "config_path o' [(t, OpSetKey key)] w (set_key key w)"
  by (simp add: config_path_def config_step_def)

lemma socket_path:
  "set_port o' p w = r \<Longrightarrow> r \<noteq> RPanic \<and> config_path o' [(t, OpSetPort p)] w (case r of ROk w' \<Rightarrow> w' | _ \<Rightarrow> w)"
  "set_fwmark o' m w = r \<Longrightarrow> r \<noteq> RPanic \<and> config_path o' [(t, OpSetFwmark m)] w (case r of ROk w' \<Rightarrow> w' | _ \<Rightarrow> w)"
  using set_port_cases [of o' p w] set_fwmark_cases [of o' m w] by (auto simp: config_path_def config_step_def)

lemma config_path_inv: "wg_inv w \<Longrightarrow> config_path o' ops w w' \<Longrightarrow> wg_inv w'"
  using config_run_inv [of w ops o'] by (force simp: config_path_def list_all_iff)

lemma set_key_pubkeys: "pubkeys (set_key key w) = pubkeys w"
proof -
  have "ws_pubkey_map (clear_peers rs w) = ws_pubkey_map w" for rs
    by (induction rs w rule: clear_peers.induct) (simp_all add: update_peer_def drop_guards_def split: prod.split)
  then show ?thesis by (simp add: set_key_def pubkeys_def Let_def)
qed

lemma socket_pubkeys: "set_port o' p w = ROk w' \<Longrightarrow> pubkeys w' = pubkeys w" "set_fwmark o' m w = ROk w' \<Longrightarrow> pubkeys w' = pubkeys w"
  unfolding pubkeys_def
  by (rule arg_cong [where f = "\<lambda>m. fst ` set m"],
      auto simp: set_port_def set_fwmark_def and_then_ROk_iff Let_def split: if_splits option.splits)+

lemma process_wg_set_path:
  fixes w :: "'h wg_state"
  assumes inv: "wg_inv w" and c: "set_command_ok x c"
  shows "\<exists>ok w' ops. process_wg_set o' clock c w = Some (ok, w') \<and> config_path o' ops w w' \<and>
    (ok \<longrightarrow> pubkeys w' = keys_after (wsc_peers c) (if wsc_replace_peers c then {} else pubkeys w))"
proof -
  define w1 where "w1 = (case wsc_private_key c of None \<Rightarrow> w | Some key \<Rightarrow> set_key key w)"
  define r2 where "r2 = (case wsc_listen_port c of None \<Rightarrow> ROk w1 | Some p \<Rightarrow> set_port o' p w1)"
  have "config_path o' (case wsc_private_key c of None \<Rightarrow> [] | Some key \<Rightarrow> [(clock 0, OpSetKey key)]) w w1"
    by (simp add: w1_def set_key_path split: option.split)
  then obtain xs where xs: "config_path o' xs w w1" by blast
  have k1: "pubkeys w1 = pubkeys w" by (simp add: w1_def set_key_pubkeys split: option.split)
  have r2: "r2 \<noteq> RPanic" "\<exists>ys. config_path o' ys w1 (case r2 of ROk w' \<Rightarrow> w' | _ \<Rightarrow> w1)"
    using socket_path(1) [of o' _ w1] by (auto simp: r2_def intro: exI [of _ "[]"] split: option.splits)
  have unfold: "process_wg_set o' clock c w = (case r2 of RErr _ \<Rightarrow> Some (False, w1) | RPanic \<Rightarrow> None
      | ROk w \<Rightarrow> (case (case wsc_fwmark c of None \<Rightarrow> ROk w | Some fwmark \<Rightarrow> set_fwmark o' fwmark w) of
          RErr _ \<Rightarrow> Some (False, w) | RPanic \<Rightarrow> None
        | ROk w \<Rightarrow> (case (if wsc_replace_peers c then remove_all_peers w else ROk w) of
            ROk w \<Rightarrow> map_option (Pair True) (process_peers clock 0 (wsc_peers c) w) | _ \<Rightarrow> None)))"
    unfolding process_wg_set_def w1_def r2_def Let_def by (rule refl)
  show ?thesis
  proof (cases r2)
    case (ROk w2)
    define r3 where "r3 = (case wsc_fwmark c of None \<Rightarrow> ROk w2 | Some fwmark \<Rightarrow> set_fwmark o' fwmark w2)"
    obtain ys where ys: "config_path o' ys w1 w2" using r2(2) ROk by auto
    note p2 = config_path_append [OF xs ys]
    have k2: "pubkeys w2 = pubkeys w" using ROk k1 socket_pubkeys(1) [of o' _ w1 w2] by (auto simp: r2_def split: option.splits)
    have r3: "r3 \<noteq> RPanic" "\<exists>zs. config_path o' zs w2 (case r3 of ROk w' \<Rightarrow> w' | _ \<Rightarrow> w2)"
      using socket_path(2) [of o' _ w2] by (auto simp: r3_def intro: exI [of _ "[]"] split: option.splits)
    show ?thesis
    proof (cases r3)
      case RErr
      then show ?thesis unfolding unfold ROk r3_def [symmetric] rust_result.case using p2 by auto
    next
      case r3_ok: (ROk w3)
      obtain zs where zs: "config_path o' zs w2 w3" using r3(2) r3_ok by auto
      note p3 = config_path_append [OF p2 zs]
      note inv3 = config_path_inv [OF inv p3]
      have k3: "pubkeys w3 = pubkeys w" using r3_ok k2 socket_pubkeys(2) [of o' _ w2 w3] by (auto simp: r3_def split: option.splits)
      obtain w4 us where w4: "(if wsc_replace_peers c then remove_all_peers w3 else ROk w3) = ROk w4" "config_path o' us w3 w4"
        "pubkeys w4 = (if wsc_replace_peers c then {} else pubkeys w)"
      proof (cases "wsc_replace_peers c")
        case True
        obtain w4 where w4: "remove_all_peers w3 = ROk w4" "ws_pubkey_map w4 = []" using remove_all_peers_ok [OF inv3] by blast
        have "config_path o' [(clock 0, OpRemoveAllPeers)] w3 w4" using w4(1) by (intro config_path_one) (simp_all add: config_step_def)
        then show ?thesis using that [of w4] w4 True by (simp add: pubkeys_def)
      qed (use that [of w3 "[]"] k3 in simp)
      note p4 = config_path_append [OF p3 w4(2)]
      obtain w5 vs where w5: "process_peers clock 0 (wsc_peers c) w4 = Some w5" "config_path o' vs w4 w5"
        "pubkeys w5 = keys_after (wsc_peers c) (pubkeys w4)"
        using process_peers_path [OF config_path_inv [OF inv p4], of "wsc_peers c" clock 0 o'] c
        by (auto simp: set_command_ok_def)
      show ?thesis unfolding unfold ROk r3_def [symmetric] r3_ok rust_result.case w4(1) w5(1)
        using config_path_append [OF p4 w5(2)] w5(3) w4(3) by auto
    qed (use r3 in simp)
  next
    case RErr
    then show ?thesis unfolding unfold using xs by auto
  qed (use r2 in simp)
qed

section \<open>Set requests as steps of the interface\<close>

lemma config_step_ids:
  assumes inv: "wg_inv w" and ok: "config_op_ok c" and w': "config_step o' t c w = ROk w'" and i: "ws_id_map w' i = Some q"
  shows "ws_id_map w i = Some q"
proof -
  have inv': "wg_inv w'" using config_step_inv [OF inv ok, of o' t] w' by auto
  have q: "q \<in> live w'" "i \<in> set (ps_guards (ws_peers w' q))"
    using wg_invD(3) [OF inv'] i unfolding ids_inv_def by blast+
  from config_step_reconfigures [OF inv ok w'] q(1) show ?thesis
  proof (cases rule: reconfiguresE)
    case 1
    then have "i \<in> set (ps_guards (ws_peers w q))"
      using q(2) by (auto simp: ps_guards_def drops_to_def split: option.splits)
    then show ?thesis using wg_invD(3) [OF inv] 1(1) unfolding ids_inv_def by blast
  next
    case (2 pk now)
    then show ?thesis using q(2) by (simp add: ps_guards_def ps_new_def)
  qed
qed

lemma config_path_reachable:
  assumes "wg_reachable o' x w" "ctx_ok cx w" "cx_ext cx = x" "config_path o' ops w w'"
  shows "wg_reachable o' x w' \<and> ctx_ok cx w'"
  using assms
proof (induction ops arbitrary: w)
  case Nil
  then show ?case by (simp add: config_path_def)
next
  case (Cons tc ops)
  obtain t c where tc: "tc = (t, c)" by (cases tc)
  have c: "config_op_ok c" using Cons.prems(4) by (simp add: config_path_def tc)
  have inv: "wg_inv w" using reachable_full_inv [OF Cons.prems(1)] by (rule full_invD)
  show ?case
  proof (cases "config_step o' t c w")
    case (ROk v)
    have "ws_id_map v (cx_id cx) = None"
      using config_step_ids [OF inv c ROk, of "cx_id cx"] Cons.prems(2) by (cases "ws_id_map v (cx_id cx)") (auto simp: ctx_ok_def)
    then have cx: "ctx_ok cx v" "ctx_ok (cx\<lparr>cx_now := t\<rparr>) w" using Cons.prems(2) by (simp_all add: ctx_ok_def)
    have step: "wg_step o' (cx\<lparr>cx_now := t\<rparr>) (EvConfig c) w = Some ([], v)" by (simp add: wg_step_def ROk)
    have "wg_reachable o' x v"
      by (rule wg_reachable.step [OF Cons.prems(1) cx(2) _ _ step]) (use Cons.prems(3) c in simp_all)
    moreover have "config_path o' ops v w'" using Cons.prems(4) by (simp add: config_path_def tc ROk)
    ultimately show ?thesis using Cons.IH cx(1) Cons.prems(3) by blast
  next
    case RErr
    then have "config_path o' ops w w'" using Cons.prems(4) by (simp add: config_path_def tc)
    then show ?thesis using Cons.IH Cons.prems(1-3) by blast
  next
    case RPanic
    then show ?thesis using Cons.prems(4) by (simp add: config_path_def tc)
  qed
qed

section \<open>Properties\<close>



end
