(* ===== verification/Ipc_Roundtrip.thy ===== *)
theory Ipc_Roundtrip
  imports Ipc_Server
begin

text \<open>
  What the server writes for a get request, the client of the same program reads back: the lines of
  \<open>write_wg_state\<close> are parsed by \<open>parse_get_response\<close> to the same state. One line is \<open>reads_line\<close>, a
  group of lines of a peer is \<open>reads\<close>, and \<open>reads_loop\<close> runs the loop of the parser over a group.
\<close>

section \<open>Lines of a peer\<close>

definition peer_out_ok :: "peer_state_out \<Rightarrow> bool" where
  "peer_out_ok p \<longleftrightarrow> length (po_public_key p) = 32 \<and> (\<forall>k. po_preshared_key p = Some k \<longrightarrow> length k = 32) \<and>
     (\<forall>a. po_endpoint p = Some a \<longrightarrow> addr_printable a) \<and>
     (\<forall>t. po_last_handshake_time p = Some t \<longrightarrow> t div 10 ^ 9 < 2 ^ 63) \<and>
     finite (po_allowed_ips p) \<and> (\<forall>(a, l) \<in> po_allowed_ips p. l \<le> ip_width a)"

definition state_out_ok :: "'h hs_externals \<Rightarrow> wg_state_out \<Rightarrow> bool" where
  "state_out_ok x state \<longleftrightarrow> key_from_slice x (xk_key (wo_private_key state)) = Some (wo_private_key state) \<and>
     (\<forall>p \<in> set (wo_peers state). peer_out_ok p)"

definition reads_line :: "text_ext \<Rightarrow> string \<Rightarrow> string \<Rightarrow> peer_state_out \<Rightarrow> peer_state_out \<Rightarrow> bool" where
  "reads_line tx k l p q \<longleftrightarrow> l \<noteq> [] \<and> \<not> starts_with l ''public_key'' \<and> parse_peer_state_line tx k l p = ROk (Some q)"

fun reads :: "text_ext \<Rightarrow> string \<Rightarrow> string list \<Rightarrow> peer_state_out \<Rightarrow> peer_state_out \<Rightarrow> bool" where
  "reads tx k [] p q \<longleftrightarrow> p = q"
| "reads tx k (l # ls) p q \<longleftrightarrow> (\<exists>p'. reads_line tx k l p p' \<and> reads tx k ls p' q)"

lemma reads_append: "reads tx k xs p q \<Longrightarrow> reads tx k ys q r \<Longrightarrow> reads tx k (xs @ ys) p r"
  by (induction xs arbitrary: p) auto

lemma reads_one: "reads_line tx k l p q \<Longrightarrow> reads tx k [l] p q"
  by simp

lemma reads_two: "reads_line tx k l p q \<Longrightarrow> reads_line tx k l' q r \<Longrightarrow> reads tx k [l, l'] p r"
  by auto

lemma key_value [simp]:
  "splitn2 CHR ''='' (''public_key='' @ v) = (''public_key'', Some v)"
  "splitn2 CHR ''='' (''preshared_key='' @ v) = (''preshared_key'', Some v)"
  "splitn2 CHR ''='' (''allowed_ip='' @ v) = (''allowed_ip'', Some v)"
  "splitn2 CHR ''='' (''persistent_keepalive_interval='' @ v) = (''persistent_keepalive_interval'', Some v)"
  "splitn2 CHR ''='' (''endpoint='' @ v) = (''endpoint'', Some v)"
  "splitn2 CHR ''='' (''rx_bytes='' @ v) = (''rx_bytes'', Some v)"
  "splitn2 CHR ''='' (''tx_bytes='' @ v) = (''tx_bytes'', Some v)"
  "splitn2 CHR ''='' (''last_handshake_time_sec='' @ v) = (''last_handshake_time_sec'', Some v)"
  "splitn2 CHR ''='' (''last_handshake_time_nsec='' @ v) = (''last_handshake_time_nsec'', Some v)"
  "splitn2 CHR ''='' (''private_key='' @ v) = (''private_key'', Some v)"
  "splitn2 CHR ''='' (''listen_port='' @ v) = (''listen_port'', Some v)"
  "splitn2 CHR ''='' (''fwmark='' @ v) = (''fwmark'', Some v)"
  "splitn2 CHR ''='' ''errno=0'' = (''errno'', Some ''0'')"
  by (simp_all add: splitn2_def)

lemma parse_key32_hex:
  "text_ok tx \<Longrightarrow> length b = 32 \<Longrightarrow> parse_key32 tx (tx_hex_encode tx b) = ROk b"
  by (simp add: text_ok_def parse_key32_def)

lemma parse_num_dec [simp]: "parse_num (dec (unat w)) = ROk w"
  by (simp add: parse_num_def)

lemma parse_num_dec_nat: "n < 2 ^ LENGTH('a::len) \<Longrightarrow> parse_num (dec n) = ROk (word_of_nat n :: 'a word)"
  by (simp add: parse_num_def parse_uint_dec_nat)

lemma parse_allowed_ip_fmt:
  assumes "text_ok tx" "l \<le> ip_width a"
  shows "parse_allowed_ip tx (tx_ip_fmt tx a @ ''/'' @ dec l) = ROk (a, l)"
proof -
  have "ip_width a \<le> 128" by (cases a) simp_all
  then have l: "l < 2 ^ LENGTH(32)" "unat (word_of_nat l :: u32) = l" using assms(2) by (simp_all add: unsigned_of_nat take_bit_nat_eq_self)
  have "splitn2 CHR ''/'' (tx_ip_fmt tx a @ CHR ''/'' # dec l) = (tx_ip_fmt tx a, Some (dec l))"
    by (rule splitn2_append) (use assms(1) in \<open>simp add: text_ok_def\<close>)
  moreover have "tx_ip_parse tx (tx_ip_fmt tx a) = Some a" using assms(1) by (simp add: text_ok_def)
  ultimately show ?thesis
    using assms(2) parse_num_dec_nat [where 'a = 32, OF l(1)] l(2) by (simp add: parse_allowed_ip_def)
qed

lemma reads_lines:
  "reads_line tx k (''rx_bytes='' @ dec (unat n)) p (p\<lparr>po_rx_bytes := n\<rparr>)"
  "reads_line tx k (''tx_bytes='' @ dec (unat n)) p (p\<lparr>po_tx_bytes := n\<rparr>)"
  "reads_line tx k (''persistent_keepalive_interval='' @ dec (unat i)) p (p\<lparr>po_persistent_keepalive_interval := i\<rparr>)"
  unfolding reads_line_def parse_peer_state_line_def key_value by (simp_all add: starts_with_def)

lemma reads_psk:
  "text_ok tx \<Longrightarrow> length b = 32 \<Longrightarrow> reads_line tx k (''preshared_key='' @ tx_hex_encode tx b) p (p\<lparr>po_preshared_key := Some b\<rparr>)"
  unfolding reads_line_def parse_peer_state_line_def key_value by (simp add: starts_with_def parse_key32_hex)

lemma reads_endpoint:
  "text_ok tx \<Longrightarrow> addr_printable a \<Longrightarrow> reads_line tx k (''endpoint='' @ tx_addr_fmt tx a) p (p\<lparr>po_endpoint := Some a\<rparr>)"
  unfolding reads_line_def parse_peer_state_line_def key_value by (simp add: starts_with_def text_ok_def)

lemma reads_allowed_ip:
  "text_ok tx \<Longrightarrow> l \<le> ip_width a \<Longrightarrow> reads_line tx k (''allowed_ip='' @ tx_ip_fmt tx a @ ''/'' @ dec l) p
     (p\<lparr>po_allowed_ips := insert (a, l) (po_allowed_ips p)\<rparr>)"
  unfolding reads_line_def parse_peer_state_line_def key_value prod.case option.case
  by (simp only: parse_allowed_ip_fmt) (simp add: starts_with_def)

lemma reads_time:
  assumes "t div 10 ^ 9 < 2 ^ 63"
  shows "reads tx k [''last_handshake_time_sec='' @ dec (t div 10 ^ 9), ''last_handshake_time_nsec='' @ dec (t mod 10 ^ 9)] p
    (p\<lparr>po_last_handshake_time := Some t\<rparr>)"
proof -
  let ?s = "t div 10 ^ 9" let ?n = "t mod 10 ^ 9"
  have n: "?n < 10 ^ 9" by simp
  have u: "unat (word_of_nat ?s :: u64) = ?s" "unat (word_of_nat ?n :: u64) = ?n"
    using assms n by (simp_all add: unsigned_of_nat take_bit_nat_eq_self)
  have "?s < 2 ^ LENGTH(64)" "?n < 2 ^ LENGTH(64)" using assms n by simp_all
  note nums = this [THEN parse_num_dec_nat]
  have add: "system_time_add 0 (?s * 10 ^ 9) = ROk (?s * 10 ^ 9)" "system_time_add (?s * 10 ^ 9) ?n = ROk t"
    using assms by (simp_all add: system_time_add_def)
  have "reads_line tx k (''last_handshake_time_sec='' @ dec ?s) p (p\<lparr>po_last_handshake_time := Some (?s * 10 ^ 9)\<rparr>)"
    unfolding reads_line_def parse_peer_state_line_def key_value prod.case option.case
    by (simp only: nums u add and_then_simps) (simp add: starts_with_def)
  moreover have "reads_line tx k (''last_handshake_time_nsec='' @ dec ?n) (p\<lparr>po_last_handshake_time := Some (?s * 10 ^ 9)\<rparr>)
      (p\<lparr>po_last_handshake_time := Some t\<rparr>)"
    unfolding reads_line_def parse_peer_state_line_def key_value prod.case option.case
    by (simp only: nums u and_then_simps) (simp add: starts_with_def add [simplified])
  ultimately show ?thesis by (simp only: reads.simps) blast
qed

lemma reads_allowed_ips:
  assumes "text_ok tx" "\<And>a l. (a, l) \<in> set ips \<Longrightarrow> l \<le> ip_width a"
  shows "reads tx k (map (\<lambda>(a, l). ''allowed_ip='' @ tx_ip_fmt tx a @ ''/'' @ dec l) ips) p
    (p\<lparr>po_allowed_ips := set ips \<union> po_allowed_ips p\<rparr>)"
  using assms(2)
proof (induction ips arbitrary: p)
  case (Cons x ips)
  obtain a l where x: "x = (a, l)" by (cases x)
  let ?p = "p\<lparr>po_allowed_ips := insert (a, l) (po_allowed_ips p)\<rparr>"
  have "reads_line tx k (''allowed_ip='' @ tx_ip_fmt tx a @ ''/'' @ dec l) p ?p"
    using Cons.prems x by (intro reads_allowed_ip assms(1)) simp
  moreover have "reads tx k (map (\<lambda>(a, l). ''allowed_ip='' @ tx_ip_fmt tx a @ ''/'' @ dec l) ips) ?p
      (?p\<lparr>po_allowed_ips := set ips \<union> po_allowed_ips ?p\<rparr>)"
    using Cons.prems by (intro Cons.IH) simp
  ultimately show ?case unfolding x list.map prod.case reads.simps by auto
qed simp

text \<open>The lines of a peer after its key, read onto a new peer, give the peer.\<close>

definition peer_fields :: "text_ext \<Rightarrow> peer_state_out \<Rightarrow> string list" where
  "peer_fields tx p = tl (write_peer tx p)"

lemma write_peer_Cons: "write_peer tx p = (''public_key='' @ tx_hex_encode tx (po_public_key p)) # peer_fields tx p"
  by (simp add: peer_fields_def write_peer_def)

lemma reads_opts:
  "text_ok tx \<Longrightarrow> \<forall>b. r = Some b \<longrightarrow> length b = 32 \<Longrightarrow> po_preshared_key p = None \<Longrightarrow>
     reads tx k (opt_lines (\<lambda>psk. [''preshared_key='' @ tx_hex_encode tx psk]) r) p (p\<lparr>po_preshared_key := r\<rparr>)"
  "text_ok tx \<Longrightarrow> \<forall>a. e = Some a \<longrightarrow> addr_printable a \<Longrightarrow> po_endpoint p = None \<Longrightarrow>
     reads tx k (opt_lines (\<lambda>e. [''endpoint='' @ tx_addr_fmt tx e]) e) p (p\<lparr>po_endpoint := e\<rparr>)"
  "\<forall>t. h = Some t \<longrightarrow> t div 10 ^ 9 < 2 ^ 63 \<Longrightarrow> po_last_handshake_time p = None \<Longrightarrow>
     reads tx k (opt_lines (\<lambda>t. [''last_handshake_time_sec='' @ dec (t div 10 ^ 9), ''last_handshake_time_nsec='' @ dec (t mod 10 ^ 9)]) h)
       p (p\<lparr>po_last_handshake_time := h\<rparr>)"
proof -
  have same: "p\<lparr>po_preshared_key := None\<rparr> = p" if "po_preshared_key p = None" using that by (cases p) simp
  show "reads tx k (opt_lines (\<lambda>psk. [''preshared_key='' @ tx_hex_encode tx psk]) r) p (p\<lparr>po_preshared_key := r\<rparr>)"
    if "text_ok tx" "\<forall>b. r = Some b \<longrightarrow> length b = 32" "po_preshared_key p = None"
    unfolding opt_lines_def using that reads_psk [of tx _ k p, THEN reads_one] same by (cases r) (simp_all only: option.case reads.simps)
  have same: "p\<lparr>po_endpoint := None\<rparr> = p" if "po_endpoint p = None" using that by (cases p) simp
  show "reads tx k (opt_lines (\<lambda>e. [''endpoint='' @ tx_addr_fmt tx e]) e) p (p\<lparr>po_endpoint := e\<rparr>)"
    if "text_ok tx" "\<forall>a. e = Some a \<longrightarrow> addr_printable a" "po_endpoint p = None"
    unfolding opt_lines_def using that reads_endpoint [of tx _ k p, THEN reads_one] same by (cases e) (simp_all only: option.case reads.simps)
  have same: "p\<lparr>po_last_handshake_time := None\<rparr> = p" if "po_last_handshake_time p = None" using that by (cases p) simp
  show "reads tx k (opt_lines (\<lambda>t. [''last_handshake_time_sec='' @ dec (t div 10 ^ 9), ''last_handshake_time_nsec='' @ dec (t mod 10 ^ 9)]) h)
       p (p\<lparr>po_last_handshake_time := h\<rparr>)"
    if "\<forall>t. h = Some t \<longrightarrow> t div 10 ^ 9 < 2 ^ 63" "po_last_handshake_time p = None"
    unfolding opt_lines_def using that reads_time [of _ tx k p] same by (cases h) (simp_all only: option.case reads.simps)
qed

lemma reads_peer_fields:
  assumes "text_ok tx" "peer_out_ok p"
  shows "reads tx k (peer_fields tx p) (new_peer_state_out (po_public_key p)) p"
proof -
  let ?p0 = "new_peer_state_out (po_public_key p)"
  let ?p1 = "?p0\<lparr>po_preshared_key := po_preshared_key p\<rparr>"
  let ?p2 = "?p1\<lparr>po_allowed_ips := po_allowed_ips p\<rparr>"
  let ?p3 = "?p2\<lparr>po_persistent_keepalive_interval := po_persistent_keepalive_interval p\<rparr>"
  let ?p4 = "?p3\<lparr>po_endpoint := po_endpoint p\<rparr>"
  let ?p5 = "?p4\<lparr>po_rx_bytes := po_rx_bytes p, po_tx_bytes := po_tx_bytes p\<rparr>"
  let ?p6 = "?p5\<lparr>po_last_handshake_time := po_last_handshake_time p\<rparr>"
  note ok = assms(2) [unfolded peer_out_ok_def]
  have none: "po_preshared_key ?p0 = None" "po_endpoint ?p3 = None" "po_last_handshake_time ?p5 = None" "po_allowed_ips ?p1 = {}"
    by (simp_all add: new_peer_state_out_def)
  have 1: "reads tx k (opt_lines (\<lambda>psk. [''preshared_key='' @ tx_hex_encode tx psk]) (po_preshared_key p)) ?p0 ?p1"
    by (rule reads_opts(1) [OF assms(1) _ none(1)]) (use ok in blast)
  have "reads tx k (map (\<lambda>(a, l). ''allowed_ip='' @ tx_ip_fmt tx a @ ''/'' @ dec l) (sorted_list_of_set (po_allowed_ips p))) ?p1
      (?p1\<lparr>po_allowed_ips := set (sorted_list_of_set (po_allowed_ips p)) \<union> po_allowed_ips ?p1\<rparr>)"
    by (rule reads_allowed_ips [OF assms(1)]) (use ok in auto)
  moreover have "set (sorted_list_of_set (po_allowed_ips p)) \<union> po_allowed_ips ?p1 = po_allowed_ips p"
    unfolding none using ok by simp
  ultimately have 2: "reads tx k (map (\<lambda>(a, l). ''allowed_ip='' @ tx_ip_fmt tx a @ ''/'' @ dec l) (sorted_list_of_set (po_allowed_ips p))) ?p1 ?p2"
    by (simp only:)
  have 4: "reads tx k (opt_lines (\<lambda>e. [''endpoint='' @ tx_addr_fmt tx e]) (po_endpoint p)) ?p3 ?p4"
    by (rule reads_opts(2) [OF assms(1) _ none(2)]) (use ok in blast)
  have 6: "reads tx k (opt_lines (\<lambda>t. [''last_handshake_time_sec='' @ dec (t div 10 ^ 9), ''last_handshake_time_nsec='' @ dec (t mod 10 ^ 9)])
      (po_last_handshake_time p)) ?p5 ?p6"
    by (rule reads_opts(3) [OF _ none(3)]) (use ok in blast)
  have fields: "peer_fields tx p = opt_lines (\<lambda>psk. [''preshared_key='' @ tx_hex_encode tx psk]) (po_preshared_key p) @
     map (\<lambda>(a, l). ''allowed_ip='' @ tx_ip_fmt tx a @ ''/'' @ dec l) (sorted_list_of_set (po_allowed_ips p)) @
     [''persistent_keepalive_interval='' @ dec (unat (po_persistent_keepalive_interval p))] @
     opt_lines (\<lambda>e. [''endpoint='' @ tx_addr_fmt tx e]) (po_endpoint p) @
     [''rx_bytes='' @ dec (unat (po_rx_bytes p)), ''tx_bytes='' @ dec (unat (po_tx_bytes p))] @
     opt_lines (\<lambda>t. [''last_handshake_time_sec='' @ dec (t div 10 ^ 9), ''last_handshake_time_nsec='' @ dec (t mod 10 ^ 9)])
       (po_last_handshake_time p)"
    by (simp add: peer_fields_def write_peer_def)
  note 3 = reads_lines(3) [of tx k "po_persistent_keepalive_interval p" ?p2, THEN reads_one]
  have 5: "reads tx k [''rx_bytes='' @ dec (unat (po_rx_bytes p)), ''tx_bytes='' @ dec (unat (po_tx_bytes p))] ?p4 ?p5"
    by (rule reads_two [OF reads_lines(1,2)])
  have "?p6 = p" by (cases p) (simp add: new_peer_state_out_def)
  then show ?thesis
    using reads_append [OF 1 reads_append [OF 2 reads_append [OF 3 reads_append [OF 4 reads_append [OF 5 6]]]]] unfolding fields by (simp only:)
qed

section \<open>The loops of the client\<close>

lemma reads_line_loop:
  assumes l: "reads_line tx k l p q" and s: "pk_items s = Inr l # xs"
  shows "\<exists>s'. pk_items s' = xs \<and> parse_peer_state_loop tx k p s = parse_peer_state_loop tx k q s'"
proof -
  obtain s1 where s1: "try_peek s = ROk (Some l, s1)" "pk_items s1 = Inr l # xs" using try_peek_Cons [OF s] by blast
  obtain s2 where s2: "try_next s1 = ROk (Some l, s2)" "pk_items s2 = xs" using try_next_Cons [OF s1(2)] by blast
  have "parse_peer_state_loop tx k p s = parse_peer_state_loop tx k q s2"
    using l by (subst parse_peer_state_loop.simps) (simp add: s1(1) s2(1) reads_line_def)
  then show ?thesis using s2(2) by blast
qed

lemma reads_loop:
  "reads tx k ls p q \<Longrightarrow> pk_items s = map Inr ls @ xs \<Longrightarrow>
     \<exists>s'. pk_items s' = xs \<and> parse_peer_state_loop tx k p s = parse_peer_state_loop tx k q s'"
proof (induction ls arbitrary: p s)
  case (Cons l ls)
  then obtain p' where l: "reads_line tx k l p p'" "reads tx k ls p' q" by auto
  have items: "pk_items s = Inr l # map Inr ls @ xs" using Cons.prems(2) by simp
  obtain s1 where s1: "pk_items s1 = map Inr ls @ xs" "parse_peer_state_loop tx k p s = parse_peer_state_loop tx k p' s1"
    using reads_line_loop [OF l(1) items] by blast
  then show ?case using Cons.IH [OF l(2) s1(1)] by simp
qed auto

text \<open>The loop of a peer ends at the next peer and at the error number.\<close>

definition ends_peer :: "string \<Rightarrow> bool" where
  "ends_peer l \<longleftrightarrow> starts_with l ''public_key'' \<or> l = ''errno=0''"

lemma ends_peer_loop:
  assumes "ends_peer l" "pk_items s = Inr l # xs"
  shows "\<exists>s'. pk_items s' = Inr l # xs \<and> parse_peer_state_loop tx k p s = ROk (p, s')"
proof -
  obtain s1 where s1: "try_peek s = ROk (Some l, s1)" "pk_items s1 = Inr l # xs" using try_peek_Cons [OF assms(2)] by blast
  have "parse_peer_state_line tx k ''errno=0'' p = ROk None" by (simp add: parse_peer_state_line_def)
  then have "parse_peer_state_loop tx k p s = ROk (p, s1)"
    using assms(1) by (subst parse_peer_state_loop.simps) (auto simp: s1(1) ends_peer_def)
  then show ?thesis using s1(2) by blast
qed

lemma parse_written_peer:
  assumes tx: "text_ok tx" and p: "peer_out_ok p" and l: "ends_peer l"
    and s: "pk_items s = map Inr (write_peer tx p) @ Inr l # xs"
  shows "\<exists>s'. pk_items s' = Inr l # xs \<and> parse_peer_state_out tx s = ROk (p, s')"
proof -
  let ?k = "''public_key='' @ tx_hex_encode tx (po_public_key p)"
  have items: "pk_items s = Inr ?k # map Inr (peer_fields tx p) @ Inr l # xs" using s by (simp add: write_peer_Cons)
  obtain s1 where s1: "try_next s = ROk (Some ?k, s1)" "pk_items s1 = map Inr (peer_fields tx p) @ Inr l # xs"
    using try_next_Cons [OF items] by blast
  have key: "parse_public_key tx s = ROk (?k, po_public_key p, s1)"
    using p unfolding parse_public_key_def s1(1) and_then_simps prod.case option.case key_value
    by (simp add: parse_key32_hex [OF tx] peer_out_ok_def)
  obtain s2 where s2: "pk_items s2 = Inr l # xs"
    "parse_peer_state_loop tx ?k (new_peer_state_out (po_public_key p)) s1 = parse_peer_state_loop tx ?k p s2"
    using reads_loop [OF reads_peer_fields [OF tx p] s1(2)] by blast
  show ?thesis unfolding parse_peer_state_out_def key and_then_simps prod.case s2(2)
    by (rule ends_peer_loop [OF l s2(1)])
qed

lemma parse_written_peers:
  assumes tx: "text_ok tx"
  shows "ps \<noteq> [] \<Longrightarrow> (\<And>p. p \<in> set ps \<Longrightarrow> peer_out_ok p) \<Longrightarrow>
    pk_items s = map Inr (concat (map (write_peer tx) ps)) @ [Inr ''errno=0'', Inr []] \<Longrightarrow>
    parse_peer_states tx state s = ROk (state\<lparr>wo_peers := wo_peers state @ ps\<rparr>)"
proof (induction ps arbitrary: s state)
  case (Cons p ps)
  let ?rest = "map Inr (concat (map (write_peer tx) ps)) @ [Inr ''errno=0'', Inr []]"
  obtain l and xs :: "item list" where rest: "?rest = Inr l # xs" "ends_peer l" "starts_with l ''public_key'' \<longleftrightarrow> ps \<noteq> []"
  proof (cases ps)
    case Nil
    then show ?thesis using that [of "''errno=0''"] by (simp add: ends_peer_def starts_with_def)
  next
    case (Cons q qs)
    have "starts_with (''public_key='' @ v) ''public_key''" for v by (simp add: starts_with_def)
    then show ?thesis using Cons
      by (intro that [of "''public_key='' @ tx_hex_encode tx (po_public_key q)"
            "map Inr (peer_fields tx q @ concat (map (write_peer tx) qs)) @ [Inr ''errno=0'', Inr []]"])
        (simp_all add: write_peer_Cons ends_peer_def del: append.simps)
  qed
  have items: "pk_items s = map Inr (write_peer tx p) @ Inr l # xs" using Cons.prems(3) rest(1) by simp
  obtain s1 where s1: "pk_items s1 = Inr l # xs" "parse_peer_state_out tx s = ROk (p, s1)"
    using parse_written_peer [OF tx _ rest(2) items] Cons.prems(2) by auto
  obtain s2 where s2: "try_peek s1 = ROk (Some l, s2)" "pk_items s2 = ?rest" using try_peek_Cons [OF s1(1)] rest(1) by metis
  show ?case
  proof (cases "ps = []")
    case True
    then show ?thesis using rest(3) by (subst parse_peer_states.simps) (simp add: s1(2) s2(1))
  next
    case False
    then show ?thesis using Cons.IH [OF False _ s2(2), of "state\<lparr>wo_peers := wo_peers state @ [p]\<rparr>"] Cons.prems(2) rest(3)
      by (subst parse_peer_states.simps) (simp add: s1(2) s2(1))
  qed
qed simp

text \<open>A line before the peers, and the two ends of a response.\<close>

lemma parse_state_step:
  assumes "pk_items s = Inr l # xs" "l \<noteq> []" "\<not> starts_with l ''public_key''" "parse_state_line tx x l state = ROk (Some state')"
  shows "\<exists>s'. pk_items s' = xs \<and> parse_state_loop tx x state s = parse_state_loop tx x state' s'"
proof -
  obtain s1 where s1: "try_peek s = ROk (Some l, s1)" "pk_items s1 = Inr l # xs" using try_peek_Cons [OF assms(1)] by blast
  obtain s2 where s2: "try_next s1 = ROk (Some l, s2)" "pk_items s2 = xs" using try_next_Cons [OF s1(2)] by blast
  have "parse_state_loop tx x state s = parse_state_loop tx x state' s2"
    using assms(2-4) by (subst parse_state_loop.simps) (simp add: s1(1) s2(1))
  then show ?thesis using s2(2) by blast
qed

lemma parse_state_end:
  assumes tx: "text_ok tx" and ps: "\<And>p. p \<in> set ps \<Longrightarrow> peer_out_ok p" and none: "wo_peers state = []"
    and items: "pk_items s = map Inr (concat (map (write_peer tx) ps)) @ [Inr ''errno=0'', Inr []]"
  shows "parse_state_loop tx x state s = ROk (state\<lparr>wo_peers := ps\<rparr>)"
proof (cases ps)
  case Nil
  then have i: "pk_items s = Inr ''errno=0'' # [Inr []]" using items by simp
  obtain s1 where s1: "try_peek s = ROk (Some ''errno=0'', s1)" "pk_items s1 = Inr ''errno=0'' # [Inr []]"
    using try_peek_Cons [OF i] by blast
  obtain s2 where s2: "try_next s1 = ROk (Some ''errno=0'', s2)" using try_next_Cons [OF s1(2)] by blast
  have "parse_state_line tx x ''errno=0'' state = ROk None" by (simp add: parse_state_line_def)
  then have "parse_state_loop tx x state s = ROk state"
    by (subst parse_state_loop.simps) (simp add: s1(1) s2 starts_with_def)
  moreover have "state\<lparr>wo_peers := ps\<rparr> = state" using none Nil by (cases state) simp
  ultimately show ?thesis by simp
next
  case (Cons q qs)
  let ?k = "''public_key='' @ tx_hex_encode tx (po_public_key q)"
  have i: "pk_items s = Inr ?k # map Inr (peer_fields tx q @ concat (map (write_peer tx) qs)) @ [Inr ''errno=0'', Inr []]"
    using items by (simp add: Cons write_peer_Cons)
  obtain s1 where s1: "try_peek s = ROk (Some ?k, s1)" "pk_items s1 = pk_items s"
    using try_peek_Cons [OF i] unfolding i by blast
  have "parse_state_loop tx x state s = parse_peer_states tx state s1"
    by (subst parse_state_loop.simps) (simp add: s1(1) starts_with_def)
  also have "\<dots> = ROk (state\<lparr>wo_peers := wo_peers state @ ps\<rparr>)"
    by (rule parse_written_peers [OF tx _ ps]) (simp_all add: Cons items s1(2))
  finally show ?thesis by (simp add: none)
qed

lemma get_response_read:
  assumes tx: "text_ok tx" and st: "state_out_ok x state"
  shows "parse_get_response tx x (map Inr (write_wg_state tx state)) = ROk (Inr state)"
proof -
  let ?tail = "concat (map (write_peer tx) (wo_peers state)) @ [''errno=0'', []]"
  let ?key = "''private_key='' @ tx_hex_encode tx (xk_key (wo_private_key state))"
  let ?port = "''listen_port='' @ dec (unat (wo_listen_port state))"
  let ?mark = "''fwmark='' @ dec (unat (wo_fwmark state))"
  define v0 where "v0 = \<lparr>wo_private_key = key_new x, wo_peers = [], wo_listen_port = 0, wo_fwmark = 0\<rparr>"
  define v1 where "v1 = v0\<lparr>wo_private_key := wo_private_key state\<rparr>"
  define v2 where "v2 = v1\<lparr>wo_listen_port := wo_listen_port state\<rparr>"
  define v3 where "v3 = v2\<lparr>wo_fwmark := wo_fwmark state\<rparr>"
  note v = v0_def v1_def v2_def v3_def
  have key: "length (xk_key (wo_private_key state)) = 32" "key_from_slice x (xk_key (wo_private_key state)) = Some (wo_private_key state)"
    using st by (auto simp: state_out_ok_def key_from_slice_def split: if_splits)
  have l1: "parse_state_line tx x ?key v0 = ROk (Some v1)"
    unfolding parse_state_line_def key_value prod.case option.case by (simp add: parse_key32_hex [OF tx key(1)] key(2) v1_def)
  have l2: "parse_state_line tx x ?port v1 = ROk (Some v2)"
    unfolding parse_state_line_def key_value prod.case option.case by (simp add: v2_def)
  have l3: "parse_state_line tx x ?mark v2 = ROk (Some v3)"
    unfolding parse_state_line_def key_value prod.case option.case by (simp add: v3_def)
  have items: "pk_items (peekable_new (map Inr (write_wg_state tx state))) =
      Inr ?key # Inr ?port # map Inr ((if wo_fwmark state \<noteq> 0 then [?mark] else []) @ ?tail)"
    by (simp add: write_wg_state_def)
  obtain s1 where s1: "try_peek (peekable_new (map Inr (write_wg_state tx state))) = ROk (Some ?key, s1)"
    "pk_items s1 = Inr ?key # Inr ?port # map Inr ((if wo_fwmark state \<noteq> 0 then [?mark] else []) @ ?tail)"
    using try_peek_Cons [OF items] by blast
  obtain s2 where s2: "pk_items s2 = Inr ?port # map Inr ((if wo_fwmark state \<noteq> 0 then [?mark] else []) @ ?tail)"
    "parse_state_loop tx x v0 s1 = parse_state_loop tx x v1 s2"
    using parse_state_step [OF s1(2) _ _ l1] by (auto simp: starts_with_def)
  obtain s3 where s3: "pk_items s3 = map Inr ((if wo_fwmark state \<noteq> 0 then [?mark] else []) @ ?tail)"
    "parse_state_loop tx x v1 s2 = parse_state_loop tx x v2 s3"
    using parse_state_step [OF s2(1) _ _ l2] by (auto simp: starts_with_def)
  obtain s4 where s4: "pk_items s4 = map Inr ?tail" "parse_state_loop tx x v2 s3 = parse_state_loop tx x v3 s4"
  proof (cases "wo_fwmark state = 0")
    case True
    then have "v3 = v2" by (simp add: v)
    then show ?thesis using s3(1) True by (intro that [of s3]) simp_all
  next
    case False
    then have "pk_items s3 = Inr ?mark # map Inr ?tail" using s3(1) by simp
    then show ?thesis using parse_state_step [OF _ _ _ l3, of s3] that by (auto simp: starts_with_def)
  qed
  have "parse_state_loop tx x v3 s4 = ROk (v3\<lparr>wo_peers := wo_peers state\<rparr>)"
    by (rule parse_state_end [OF tx]) (use st s4(1) in \<open>simp_all add: state_out_ok_def v\<close>)
  also have "v3\<lparr>wo_peers := wo_peers state\<rparr> = state" by (cases state) (simp add: v)
  finally have "parse_wg_state_out tx x s1 = ROk state"
    using s2(2) s3(2) s4(2) by (simp add: parse_wg_state_out_def v0_def [symmetric])
  then show ?thesis unfolding parse_get_response_def s1(1) and_then_simps prod.case option.case
    by (simp add: starts_with_def)
qed

section \<open>Properties\<close>

text \<open>
  C16: A get request shows the client the state of the interface: the lines the server writes are parsed
  by the client to the record that \<open>get_state\<close> returned, with every peer and every field of it, and the
  request changes nothing. The addresses must have a text form that can be read back (no flow label)
  and times must be before the overflow of the clock.
\<close>

theorem get_request_roundtrip:
  assumes "text_ok tx" "state_out_ok x (get_state (clock 0) system_now w)"
    and "parse_command_io tx x codec (take (1024 * 1024) input) = ROk (Some IpcGet)"
  shows "\<exists>written. serve tx x codec o' errno clock system_now input (Some w) = Some (written, True, Some w) \<and>
    parse_get_response tx x (map Inr written) = ROk (Inr (get_state (clock 0) system_now w))"
  unfolding serve_def assms(3) using get_response_read [OF assms(1,2)] by simp

fun split_lines :: "string \<Rightarrow> string \<Rightarrow> string list" where
  "split_lines acc [] = (if acc = [] then [] else [acc])"
| "split_lines acc (c # s) = (if c = CHR 0x0A then acc # split_lines [] s else split_lines (acc @ [c]) s)"

definition example_codec :: lines_codec where
  "example_codec n s = map Inr (split_lines [] s)"

definition example_get :: string where
  "example_get = ''get=1'' @ [CHR 0x0A, CHR 0x0A]"

lemma example_get_parsed: "parse_command_io plain_text mock_externals example_codec (take (1024 * 1024) example_get) = ROk (Some IpcGet)"
  by (simp add: parse_command_io_def example_codec_def example_get_def map_codec_error_def parse_command_def
      peekable_new_def try_next_def)

definition example_peer_state :: "mock peer_state" where
  "example_peer_state = (ps_new (replicate 32 5) 0)\<lparr>ps_info := \<lparr>pi_public_key = replicate 32 5, pi_psk = Some (replicate 32 6),
     pi_endpoint = Some \<lparr>sa6_ip = 1, sa6_port = 51820, sa6_flowinfo = 0, sa6_scope_id = 3\<rparr>,
     pi_allowed_ips = {(IpV4 0x0A000000, 8), (IpV6 0, 0)}, pi_keepalive = Some 25, pi_roaming = True\<rparr>, ps_rx_bytes := 77\<rparr>"

definition example_running :: "mock wg_state" where
  "example_running = example_new\<lparr>ws_pubkey_map := [(replicate 32 5, 0)], ws_peers := (\<lambda>_. example_peer_state), ws_next := 1\<rparr>"

theorem get_request_roundtrip_witness:
  "\<exists>written. serve plain_text mock_externals example_codec example_os None (\<lambda>_. 9) 9 example_get (Some example_running) =
      Some (written, True, Some example_running) \<and>
    parse_get_response plain_text mock_externals (map Inr written) =
      ROk (Inr (get_state 9 9 example_running)) \<and> wo_peers (get_state 9 9 example_running) \<noteq> []"
proof -
  have "state_out_ok mock_externals (get_state 9 9 example_running)"
    by (simp add: state_out_ok_def peer_out_ok_def get_state_def peer_out_def example_running_def example_peer_state_def
        example_new_def example_wg_def key_from_slice_def mock_externals_def ps_get_last_handshake_time_def ps_new_def
        unmap_ipv4_from_ipv6_def segments_def)
  then have "\<exists>written. serve plain_text mock_externals example_codec example_os None (\<lambda>_. 9) 9 example_get (Some example_running) =
      Some (written, True, Some example_running) \<and>
    parse_get_response plain_text mock_externals (map Inr written) =
      ROk (Inr (get_state 9 9 example_running))"
    by (rule get_request_roundtrip [OF plain_text_ok _ example_get_parsed])
  then show ?thesis by (simp add: get_state_def example_running_def)
qed

text \<open>
  A request that does not parse is answered with nothing: the future that would write \<open>errno=22\<close> is
  dropped before it runs, and the client, which would have read the error, sees an empty response.
\<close>

lemma parse_error_no_reply:
  assumes "parse_command_io tx x codec (take (1024 * 1024) input) = RErr e"
  shows "serve tx x codec o' errno clock system_now input wg = Some ([], False, wg) \<and>
    parse_get_response tx x (map Inr []) = RErr EmptyResponse \<and>
    parse_get_response tx x (map Inr (write_error 22)) = ROk (Inl 22)"
proof -
  have "pk_items (peekable_new (map Inr (write_error 22))) = Inr (''errno='' @ dec_int 22) # [Inr []]"
    by (simp add: write_error_def)
  then obtain s where s: "try_peek (peekable_new (map Inr (write_error 22))) = ROk (Some (''errno='' @ dec_int 22), s)"
    using try_peek_Cons by blast
  have "splitn2 CHR ''='' (''errno='' @ dec_int 22) = (''errno'', Some (dec_int 22))" by (simp add: splitn2_def)
  then have "parse_get_response tx x (map Inr (write_error 22)) = ROk (Inl 22)"
    unfolding parse_get_response_def s by (simp add: starts_with_def parse_i32_dec_int)
  moreover have "parse_get_response tx x (map Inr []) = RErr EmptyResponse"
    by (simp add: parse_get_response_def try_peek_def peekable_new_def)
  ultimately show ?thesis unfolding serve_def assms by simp
qed

text \<open>
  C38: A set request for an existing peer that does not mention its preshared key erases the key and
  with it every session of the peer and its pending handshake, although the command is an update.
\<close>

theorem set_request_erases_psk:
  assumes "wg_inv w" "find_peer_by_pubkey w (wsp_public_key p) = Some r" "pi_psk (ps_info (ws_peers w r)) \<noteq> None"
    and "peer_command_ok p" "\<not> wsp_remove p" "wsp_preshared_key p = None"
  shows "\<exists>w'. process_peers clock n [p] w = Some w' \<and> pi_psk (ps_info (ws_peers w' r)) = None \<and>
    ps_transports (ws_peers w' r) = [] \<and> ps_handshake (ws_peers w' r) = None \<and> ps_queue (ws_peers w' r) = []"
proof -
  let ?c = "set_peer_command_of p" let ?t = "clock (2 * n + 1)"
  have cmd: "command_ok ?c" "find_peer_by_pubkey w (sp_public_key ?c) = Some r" "sp_preshared_key ?c = None"
    using assms by (simp_all add: peer_command_ok_def set_peer_command_of_def)
  obtain w' d p1 where w': "set_peer ?t ?c w = ROk w'" "set_peer_info ?t ?c (ws_peers w r) = (d, p1)"
    "ws_peers w' r = set_allowed_ips (allowed_after ?c r w r) p1"
    by (rule set_peer_ok [OF wg_invD(1) [OF assms(1)] cmd(1,2)])
  have "pi_psk (ps_info p1) = None \<and> ps_transports p1 = [] \<and> ps_handshake p1 = None \<and> ps_queue p1 = []"
    using w'(2) assms(3) cmd(3)
    by (auto simp: set_peer_info_def set_peer_psk_def set_peer_endpoint_def set_peer_keepalive_def ps_clear_all_def Let_def
        split: option.splits if_splits)
  moreover have "peer_exists w (wsp_public_key p)" using assms(2) by (simp add: peer_exists_def)
  then have "process_peers clock n [p] w = Some w'" using assms(5) w'(1) by simp
  ultimately show ?thesis using w'(3) by (simp add: set_allowed_ips_def)
qed

definition example_request :: "bytes option \<Rightarrow> wg_set_peer_command" where
  "example_request psk = (new_set_peer (replicate 32 5))\<lparr>wsp_preshared_key := psk, wsp_allowed_ips := {(IpV4 0x0A000000, 8)}\<rparr>"

lemma example_request_ok: "psk = None \<or> psk = Some (replicate 32 6) \<Longrightarrow> peer_command_ok (example_request psk)"
  by (auto simp: example_request_def peer_command_simps new_set_peer_def)

lemma example_keyed:
  "\<exists>w r. wg_inv (w :: mock wg_state) \<and> find_peer_by_pubkey w (replicate 32 5) = Some r \<and>
     pi_psk (ps_info (ws_peers w r)) = Some (replicate 32 6)"
proof -
  let ?c = "set_peer_command_of (example_request (Some (replicate 32 6)))"
  obtain v where v: "wg_add_peer (replicate 32 5) 0 example_new = ROk v" "find_peer_by_pubkey v (replicate 32 5) = Some 0"
    by (simp add: wg_add_peer_def example_new_def find_peer_by_pubkey_def Let_def)
  have inv: "wg_inv v" by (rule add_peer_inv [OF wg_new_inv [OF example_new_eq] v(1)])
  have c: "command_ok ?c" "sp_public_key ?c = replicate 32 5" "sp_preshared_key ?c = Some (replicate 32 6)"
    using example_request_ok by (simp_all add: peer_command_ok_def) (simp_all add: example_request_def set_peer_command_of_def new_set_peer_def)
  have find: "find_peer_by_pubkey v (sp_public_key ?c) = Some 0" using v(2) c(2) by simp
  obtain w d p1 where w: "set_peer 1 ?c v = ROk w" "ws_pubkey_map w = ws_pubkey_map v" "set_peer_info 1 ?c (ws_peers v 0) = (d, p1)"
    "ws_peers w 0 = set_allowed_ips (allowed_after ?c 0 v 0) p1"
    by (rule set_peer_ok [OF wg_invD(1) [OF inv] c(1) find])
  have "pi_psk (ps_info p1) = Some (replicate 32 6)"
    using w(3) c(3) by (auto simp: set_peer_info_def set_peer_psk_def set_peer_endpoint_def set_peer_keepalive_def Let_def
        split: option.splits if_splits prod.splits)
  then show ?thesis using set_peer_inv [OF inv c(1) w(1)] v(2) w(2,4)
    by (intro exI [of _ w] exI [of _ 0]) (simp add: find_peer_by_pubkey_def set_allowed_ips_def)
qed

theorem set_request_erases_psk_witness:
  "\<exists>w r w'. pi_psk (ps_info (ws_peers (w :: mock wg_state) r)) = Some (replicate 32 6) \<and>
     process_peers (\<lambda>_. 7) 0 [example_request None] w = Some w' \<and> pi_psk (ps_info (ws_peers w' r)) = None"
proof -
  obtain w r where w: "wg_inv (w :: mock wg_state)" "find_peer_by_pubkey w (replicate 32 5) = Some r"
    "pi_psk (ps_info (ws_peers w r)) = Some (replicate 32 6)" using example_keyed by blast
  have "find_peer_by_pubkey w (wsp_public_key (example_request None)) = Some r" "\<not> wsp_remove (example_request None)"
    "wsp_preshared_key (example_request None) = None" "pi_psk (ps_info (ws_peers w r)) \<noteq> None"
    using w(2,3) by (simp_all add: example_request_def new_set_peer_def)
  from set_request_erases_psk [OF w(1) this(1,4) example_request_ok this(2,3), of "\<lambda>_. 7" 0] w(3)
  show ?thesis by blast
qed

text \<open>A set request with one peer.\<close>

definition example_set :: "item list" where
  "example_set = map Inr [''set=1'', ''public_key='' @ tx_hex_encode plain_text (replicate 32 5),
     ''allowed_ip='' @ tx_ip_fmt plain_text (IpV4 0x0A000000) @ ''/'' @ dec 8, []]"

lemma example_set_parsed:
  "parse_command plain_text mock_externals example_set = ROk (Some (IpcSet \<lparr>wsc_private_key = None, wsc_fwmark = None,
     wsc_listen_port = None, wsc_replace_peers = False,
     wsc_peers = [(new_set_peer (replicate 32 5))\<lparr>wsp_allowed_ips := {(IpV4 0x0A000000, 8)}\<rparr>]\<rparr>))"
proof -
  define K where "K = ''public_key='' @ tx_hex_encode plain_text (replicate 32 5)"
  define A where "A = ''allowed_ip='' @ tx_ip_fmt plain_text (IpV4 0x0A000000) @ ''/'' @ dec 8"
  have k: "parse_key32 plain_text (tx_hex_encode plain_text (replicate 32 5)) = ROk (replicate 32 5)"
    by (rule parse_key32_hex [OF plain_text_ok]) simp
  have a: "parse_allowed_ip plain_text (tx_ip_fmt plain_text (IpV4 0x0A000000) @ ''/'' @ dec 8) = ROk (IpV4 0x0A000000, 8)"
    by (rule parse_allowed_ip_fmt [OF plain_text_ok]) simp
  have p: "parse_public_key plain_text \<lparr>pk_inner = xs, pk_peeked = Some (Inr K)\<rparr> =
      ROk (K, replicate 32 5, \<lparr>pk_inner = xs, pk_peeked = None\<rparr>)" for xs
    unfolding parse_public_key_def try_next_def K_def using key_value(1) k by simp
  have q: "parse_peer_line plain_text K A (new_set_peer (replicate 32 5)) =
      ROk (Some ((new_set_peer (replicate 32 5))\<lparr>wsp_allowed_ips := {(IpV4 0x0A000000, 8)}\<rparr>))"
    unfolding parse_peer_line_def A_def key_value(3) by (simp add: a [simplified] new_set_peer_def)
  have lines: "starts_with K ''public_key''" "\<not> starts_with A ''public_key''" "K \<noteq> []" "A \<noteq> []"
    by (simp_all add: K_def A_def starts_with_def)
  have s: "example_set = [Inr ''set=1'', Inr K, Inr A, Inr []]" by (simp add: example_set_def K_def A_def)
  show ?thesis
    unfolding s parse_command_def peekable_new_def
    by (simp add: try_next_def parse_set_command_def parse_set_loop.simps try_peek_def lines parse_peers.simps parse_peer_def p q
        parse_peer_loop.simps unwrap_def)
qed



end
