(* ===== verification/Cli_Reload.thy ===== *)
theory Cli_Reload
  imports Ipc_Server "HOL-Library.List_Lexorder"
begin

text \<open>
  Configurations applied to the interface: the types of \<open>src/src/cli/config.rs\<close>, \<open>reload\<close> of
  \<open>src/src/cli/reload.rs\<close> and the part of \<open>run\<close> of \<open>src/src/cli/run.rs\<close> that configures a new
  interface. The maps and sets of the code over public keys are maps and sets, iterated in the order
  of the keys. A peer is settled when the interface has it with what its configuration says; the
  property is that all peers of a configuration are, after it is loaded or reloaded.
\<close>

section \<open>Configurations\<close>

record general_config =
  gc_log :: "string option"
  gc_user :: "string option"
  gc_group :: "string option"
  gc_config_file_path :: "string option"
  gc_foreground :: bool
  gc_threads :: "nat option"

record interface_config =
  ic_name :: "string option"
  ic_private_key :: x25519_key
  ic_listen_port :: "u16 option"
  ic_fwmark :: "u32 option"
  ic_address :: "(ip_addr \<times> nat) set"
  ic_mtu :: "u32 option"
  ic_dns :: "ip_addr list"

record 'e peer_config =
  pc_public_key :: bytes
  pc_preshared_key :: "bytes option"
  pc_endpoint :: "'e option"
  pc_true_endpoint :: "'e option"
  pc_allowed_ips :: "(ip_addr \<times> nat) set"
  pc_keepalive :: "u16 option"

record 'e config =
  cf_general :: general_config
  cf_interface :: interface_config
  cf_peers :: "'e peer_config list"

section \<open>Reloading\<close>

text \<open>An operation whose error is only logged.\<close>

definition ignore_err :: "'h wg_state \<Rightarrow> (unit, 'h wg_state) rust_result \<Rightarrow> (unit, 'h wg_state) rust_result" where
  "ignore_err w r = (case r of RErr _ \<Rightarrow> ROk w | _ \<Rightarrow> r)"

fun reload_remove :: "bytes list \<Rightarrow> 'h wg_state \<Rightarrow> (unit, 'h wg_state) rust_result" where
  "reload_remove [] w = ROk w"
| "reload_remove (p # ps) w = and_then (remove_peer p w) (\<lambda>(_, w). reload_remove ps w)"

text \<open>The peer of the interface as a configuration, with the true endpoint of the new one.\<close>

definition existing_config :: "socket_addr option \<Rightarrow> peer_state_out \<Rightarrow> socket_addr peer_config" where
  "existing_config true_endpoint p =
     \<lparr>pc_public_key = po_public_key p, pc_preshared_key = po_preshared_key p, pc_endpoint = po_endpoint p,
      pc_true_endpoint = true_endpoint, pc_allowed_ips = po_allowed_ips p,
      pc_keepalive = nonzero_u16 (po_persistent_keepalive_interval p)\<rparr>"

definition modify_command :: "socket_addr peer_config \<Rightarrow> set_peer_command" where
  "modify_command p =
     \<lparr>sp_public_key = pc_public_key p, sp_preshared_key = pc_preshared_key p, sp_endpoint = pc_endpoint p,
      sp_keepalive = (case pc_keepalive p of Some k \<Rightarrow> Some k | None \<Rightarrow> Some 0),
      sp_replace_allowed_ips = True, sp_allowed_ips = pc_allowed_ips p\<rparr>"

text \<open>The \<open>unwrap\<close>s of the loop are its \<open>RPanic\<close>.\<close>

fun reload_modify :: "(nat \<Rightarrow> instant) \<Rightarrow> nat \<Rightarrow> (bytes \<rightharpoonup> peer_state_out) \<Rightarrow> (bytes \<rightharpoonup> socket_addr peer_config) \<Rightarrow>
    bytes list \<Rightarrow> 'h wg_state \<Rightarrow> (unit, 'h wg_state) rust_result" where
  "reload_modify clock n existing_map new_map [] w = ROk w"
| "reload_modify clock n existing_map new_map (pk # pks) w =
     (case (new_map pk, existing_map pk) of
        (Some new, Some existing) \<Rightarrow>
          if new \<noteq> existing_config (pc_true_endpoint new) existing
          then and_then (set_peer (clock n) (modify_command new) w) (\<lambda>w. reload_modify clock (Suc n) existing_map new_map pks w)
          else reload_modify clock (Suc n) existing_map new_map pks w
      | _ \<Rightarrow> RPanic)"

definition add_command :: "bool \<Rightarrow> socket_addr peer_config \<Rightarrow> set_peer_command" where
  "add_command replace p =
     \<lparr>sp_public_key = pc_public_key p, sp_preshared_key = pc_preshared_key p, sp_endpoint = pc_endpoint p,
      sp_keepalive = pc_keepalive p, sp_replace_allowed_ips = replace, sp_allowed_ips = pc_allowed_ips p\<rparr>"

fun add_peers :: "bool \<Rightarrow> (nat \<Rightarrow> instant) \<Rightarrow> nat \<Rightarrow> socket_addr peer_config list \<Rightarrow> 'h wg_state \<Rightarrow> (unit, 'h wg_state) rust_result" where
  "add_peers replace clock n [] w = ROk w"
| "add_peers replace clock n (p # ps) w =
     and_then (wg_add_peer (pc_public_key p) (clock (2 * n)) w) (\<lambda>w.
     and_then (set_peer (clock (2 * n + 1)) (add_command replace p) w) (\<lambda>w.
       add_peers replace clock (Suc n) ps w))"

text \<open>Of two peers with one key the later one stays in a map.\<close>

definition by_key :: "('a \<Rightarrow> bytes) \<Rightarrow> 'a list \<Rightarrow> (bytes \<rightharpoonup> 'a)" where
  "by_key key xs = map_of (rev (map (\<lambda>p. (key p, p)) xs))"

definition reload_peers :: "(nat \<Rightarrow> instant) \<Rightarrow> peer_state_out list \<Rightarrow> socket_addr peer_config list \<Rightarrow> 'h wg_state \<Rightarrow>
    (unit, 'h wg_state) rust_result" where
  "reload_peers clock current_peers new_peers w =
     (let existing = set (map po_public_key current_peers);
          new = set (map pc_public_key new_peers);
          existing_map = by_key po_public_key current_peers;
          new_map = by_key pc_public_key new_peers;
          left = map (\<lambda>pk. the (new_map pk)) (sorted_list_of_set (new - existing))
      in and_then (reload_remove (sorted_list_of_set (existing - new)) w) (\<lambda>w.
         and_then (reload_modify clock 0 existing_map new_map (sorted_list_of_set (existing \<inter> new)) w) (\<lambda>w.
           add_peers False clock (card (existing \<inter> new)) left w)))"

definition reload :: "os \<Rightarrow> (nat \<Rightarrow> instant) \<Rightarrow> nat \<Rightarrow> socket_addr config \<Rightarrow> 'h wg_state \<Rightarrow> (unit, 'h wg_state) rust_result" where
  "reload o' clock system_now new_config w =
     (let current_state = get_state (clock 0) system_now w;
          w = (if ic_private_key (cf_interface new_config) \<noteq> wo_private_key current_state
               then set_key (ic_private_key (cf_interface new_config)) w else w);
          new_fwmark = (case ic_fwmark (cf_interface new_config) of Some m \<Rightarrow> m | None \<Rightarrow> 0);
          new_port = (case ic_listen_port (cf_interface new_config) of Some p \<Rightarrow> p | None \<Rightarrow> 0)
      in and_then (if new_fwmark \<noteq> wo_fwmark current_state then ignore_err w (set_fwmark o' new_fwmark w) else ROk w) (\<lambda>w.
         and_then (if wo_listen_port current_state \<noteq> new_port then ignore_err w (set_port o' new_port w) else ROk w) (\<lambda>w.
           reload_peers clock (wo_peers current_state) (cf_peers new_config) w)))"

section \<open>Starting\<close>

text \<open>What \<open>run\<close> does with the interface before it spawns the tasks.\<close>

definition run_config :: "os \<Rightarrow> (nat \<Rightarrow> instant) \<Rightarrow> x25519_key \<Rightarrow> bytes \<Rightarrow> u32 option \<Rightarrow> socket_addr config \<Rightarrow>
    (unit, 'h wg_state) rust_result" where
  "run_config o' clock genkey cookie tun_mtu c =
     and_then (wg_new o' genkey cookie tun_mtu (clock 0)) (\<lambda>w.
     let w = set_key (ic_private_key (cf_interface c)) w in
     and_then (case ic_listen_port (cf_interface c) of Some port \<Rightarrow> set_port o' port w | None \<Rightarrow> ROk w) (\<lambda>w.
     and_then (case ic_fwmark (cf_interface c) of Some fwmark \<Rightarrow> set_fwmark o' fwmark w | None \<Rightarrow> ROk w) (\<lambda>w.
       add_peers True clock 1 (cf_peers c) w)))"

section \<open>Settled peers\<close>

definition config_ips :: "'e peer_config \<Rightarrow> (ip_addr \<times> nat) set" where
  "config_ips p = (\<lambda>(a, l). (ip_masked a l, l)) ` pc_allowed_ips p"

definition settled :: "'h wg_state \<Rightarrow> socket_addr peer_config \<Rightarrow> bool" where
  "settled w p \<longleftrightarrow> (\<exists>r. find_peer_by_pubkey w (pc_public_key p) = Some r \<and>
     pi_psk (ps_info (ws_peers w r)) = pc_preshared_key p \<and> pi_keepalive (ps_info (ws_peers w r)) = pc_keepalive p \<and>
     peer_allowed_ips w r = config_ips p \<and>
     (\<forall>e. pc_endpoint p = Some e \<longrightarrow>
        map_option unmap_ipv4_from_ipv6 (pi_endpoint (ps_info (ws_peers w r))) = Some (unmap_ipv4_from_ipv6 (map_ipv4_to_ipv6 e))))"

definition peer_config_ok :: "socket_addr peer_config \<Rightarrow> bool" where
  "peer_config_ok p \<longleftrightarrow> finite (pc_allowed_ips p) \<and> (\<forall>(a, l) \<in> pc_allowed_ips p. l \<le> ip_width a) \<and> pc_keepalive p \<noteq> Some 0"

text \<open>Keys are distinct and no two peers share an allowed prefix.\<close>

definition config_ok :: "socket_addr peer_config list \<Rightarrow> bool" where
  "config_ok ps \<longleftrightarrow> distinct (map pc_public_key ps) \<and> (\<forall>p \<in> set ps. peer_config_ok p) \<and>
     (\<forall>p \<in> set ps. \<forall>q \<in> set ps. p \<noteq> q \<longrightarrow> config_ips p \<inter> config_ips q = {})"

text \<open>What a step of the loops does: the invariant stays, and other settled peers stay settled.\<close>

definition keeps_settled :: "bytes \<Rightarrow> (ip_addr \<times> nat) set \<Rightarrow> 'h wg_state \<Rightarrow> 'h wg_state \<Rightarrow> bool" where
  "keeps_settled pk ips w w' \<longleftrightarrow> wg_inv w' \<and>
     (\<forall>p. pc_public_key p \<noteq> pk \<longrightarrow> config_ips p \<inter> ips = {} \<longrightarrow> settled w p \<longrightarrow> settled w' p)"

lemma pubkey_inj:
  assumes "wg_inv w" "find_peer_by_pubkey w k = Some r" "find_peer_by_pubkey w k' = Some r" shows "k = k'"
proof -
  have "pi_public_key (ps_info (ws_peers w r)) = k" if "find_peer_by_pubkey w k = Some r" for k
    using wg_invD(2) [OF assms(1)] that unfolding keys_inv_def find_peer_by_pubkey_def by (fastforce dest!: map_of_SomeD)
  from this [OF assms(2)] this [OF assms(3)] show ?thesis by simp
qed

lemma settled_same:
  assumes "settled w p" "find_peer_by_pubkey w' (pc_public_key p) = find_peer_by_pubkey w (pc_public_key p)"
    and "\<And>r. find_peer_by_pubkey w (pc_public_key p) = Some r \<Longrightarrow> ps_info (ws_peers w' r) = ps_info (ws_peers w r)"
  shows "settled w' p"
  using assms unfolding settled_def by (auto simp: peer_allowed_ips_def)

lemma set_peer_info_keepalive:
  assumes "set_peer_info now command p = (d, p')"
  shows "pi_psk (ps_info p') = sp_preshared_key command"
    "pi_keepalive (ps_info p') = (case sp_keepalive command of None \<Rightarrow> pi_keepalive (ps_info p) | Some i \<Rightarrow> nonzero_u16 i)"
    "pi_endpoint (ps_info p') = (case sp_endpoint command of None \<Rightarrow> pi_endpoint (ps_info p) | Some e \<Rightarrow> Some (map_ipv4_to_ipv6 e))"
  using assms by (auto simp: set_peer_info_def set_peer_psk_def set_peer_endpoint_def set_peer_keepalive_def ps_clear_all_def Let_def
      split: option.splits if_splits prod.splits)

lemma set_peer_settles:
  assumes inv: "wg_inv w" and p: "peer_config_ok p" and r: "find_peer_by_pubkey w (pc_public_key p) = Some r"
    and c: "sp_public_key c = pc_public_key p" "sp_preshared_key c = pc_preshared_key p" "sp_endpoint c = pc_endpoint p"
      "sp_allowed_ips c = pc_allowed_ips p"
    and keepalive: "(case sp_keepalive c of None \<Rightarrow> pi_keepalive (ps_info (ws_peers w r)) | Some i \<Rightarrow> nonzero_u16 i) = pc_keepalive p"
    and replace: "sp_replace_allowed_ips c \<or> peer_allowed_ips w r = {}"
  shows "\<exists>w'. set_peer now c w = ROk w' \<and> keeps_settled (pc_public_key p) (config_ips p) w w' \<and> settled w' p \<and>
    ws_pubkey_map w' = ws_pubkey_map w \<and> ws_info w' = ws_info w"
proof -
  have cmd: "command_ok c" "masked_ips c = config_ips p" using p c(4) by (simp_all add: command_ok_def peer_config_ok_def masked_ips_def config_ips_def)
  have rc: "find_peer_by_pubkey w (sp_public_key c) = Some r" using r c(1) by simp
  obtain w' d p1 where w': "set_peer now c w = ROk w'" "set_peer_info now c (ws_peers w r) = (d, p1)"
    "ws_pubkey_map w' = ws_pubkey_map w" "ws_info w' = ws_info w" "ws_peers w' r = set_allowed_ips (allowed_after c r w r) p1"
    "\<forall>q \<in> live w - {r}. ws_peers w' q = set_allowed_ips (allowed_after c r w q) (ws_peers w q)"
    by (rule set_peer_ok [OF wg_invD(1) [OF inv] cmd(1) rc])
  have find: "find_peer_by_pubkey w' = find_peer_by_pubkey w" using w'(3) by (simp add: find_peer_by_pubkey_def fun_eq_iff)
  have "settled w' p"
    unfolding settled_def find using r set_peer_info_keepalive [OF w'(2)] keepalive replace cmd(2) c(2,3)
    by (auto simp: w'(5) set_allowed_ips_def peer_allowed_ips_def allowed_after_def)
  moreover have "settled w' q" if q: "pc_public_key q \<noteq> pc_public_key p" "config_ips q \<inter> config_ips p = {}" "settled w q" for q
  proof -
    obtain r' where r': "find_peer_by_pubkey w (pc_public_key q) = Some r'" using q(3) by (auto simp: settled_def)
    then have "r' \<in> live w - {r}" using pubkey_inj [OF inv _ r] q(1) pubkey_live by (auto simp: find_peer_by_pubkey_def)
    then have "ws_peers w' r' = set_allowed_ips (peer_allowed_ips w r' - config_ips p) (ws_peers w r')"
      using w'(6) cmd(2) by (simp add: allowed_after_def)
    then show ?thesis using q(2,3) r' unfolding settled_def find by (auto simp: set_allowed_ips_def peer_allowed_ips_def)
  qed
  ultimately show ?thesis using w'(1,3,4) set_peer_inv [OF inv cmd(1) w'(1)] by (auto simp: keeps_settled_def)
qed

lemma remove_peer_settled:
  assumes inv: "wg_inv w"
  shows "\<exists>b w'. remove_peer pk w = ROk (b, w') \<and> keeps_settled pk {} w w' \<and> pubkeys w' = pubkeys w - {pk} \<and> ws_info w' = ws_info w"
proof (cases "map_of (ws_pubkey_map w) pk")
  case None
  then have "remove_peer pk w = ROk (False, w)" by (simp add: remove_peer_def)
  moreover from remove_peer_pubkeys [OF inv this] have "pubkeys w = pubkeys w - {pk}" .
  moreover have "keeps_settled pk {} w w" by (simp add: keeps_settled_def inv)
  ultimately show ?thesis by blast
next
  case (Some r)
  obtain w' where w': "remove_peer pk w = ROk (True, w')" "wg_inv w'" "ws_pubkey_map w' = AList.delete pk (ws_pubkey_map w)"
    "\<forall>q. q \<noteq> r \<longrightarrow> ws_peers w' q = ws_peers w q" "ws_info w' = ws_info w"
    by (rule remove_peer_ok [OF inv Some])
  have "settled w' p" if ne: "pc_public_key p \<noteq> pk" and "settled w p" for p
  proof (rule settled_same [OF that(2)])
    show "find_peer_by_pubkey w' (pc_public_key p) = find_peer_by_pubkey w (pc_public_key p)"
      using that(1) by (simp add: find_peer_by_pubkey_def w'(3))
    show "ps_info (ws_peers w' q) = ps_info (ws_peers w q)" if "find_peer_by_pubkey w (pc_public_key p) = Some q" for q
    proof -
      have "q \<noteq> r" using pubkey_inj [OF inv that, of pk] Some ne by (auto simp: find_peer_by_pubkey_def)
      then show ?thesis using w'(4) by simp
    qed
  qed
  then show ?thesis using w'(1,2,5) remove_peer_pubkeys [OF inv w'(1)] by (auto simp: keeps_settled_def)
qed

lemma add_peer_settled:
  assumes inv: "wg_inv w" and new: "pk \<notin> pubkeys w"
  shows "\<exists>w'. wg_add_peer pk now w = ROk w' \<and> keeps_settled pk {} w w' \<and> pubkeys w' = insert pk (pubkeys w) \<and> ws_info w' = ws_info w \<and>
    (\<exists>r. find_peer_by_pubkey w' pk = Some r \<and> peer_allowed_ips w' r = {} \<and> pi_keepalive (ps_info (ws_peers w' r)) = None)"
proof -
  define w' where "w' = w\<lparr>ws_peers := (ws_peers w)(ws_next w := ps_new pk now), ws_next := Suc (ws_next w),
     ws_pubkey_map := AList.update pk (ws_next w) (ws_pubkey_map w)\<rparr>"
  have add: "wg_add_peer pk now w = ROk w'"
    using new by (simp add: wg_add_peer_def w'_def pubkeys_def map_of_eq_None_iff Let_def)
  have "settled w' p" if "pc_public_key p \<noteq> pk" "settled w p" for p
  proof (rule settled_same [OF that(2)])
    show "find_peer_by_pubkey w' (pc_public_key p) = find_peer_by_pubkey w (pc_public_key p)"
      using that(1) by (simp add: find_peer_by_pubkey_def w'_def update_conv')
    show "ps_info (ws_peers w' q) = ps_info (ws_peers w q)" if "find_peer_by_pubkey w (pc_public_key p) = Some q" for q
      using that wg_invD(2) [OF inv] by (auto simp: w'_def find_peer_by_pubkey_def keys_inv_def dest!: map_of_SomeD)
  qed
  moreover have "pubkeys w' = insert pk (pubkeys w)" by (auto simp: pubkeys_def w'_def dom_update)
  moreover have "find_peer_by_pubkey w' pk = Some (ws_next w)" "peer_allowed_ips w' (ws_next w) = {}"
    "pi_keepalive (ps_info (ws_peers w' (ws_next w))) = None" "ws_info w' = ws_info w"
    by (simp_all add: find_peer_by_pubkey_def w'_def update_conv' peer_allowed_ips_def ps_new_def)
  ultimately show ?thesis using add add_peer_inv [OF inv add] by (auto simp: keeps_settled_def)
qed

section \<open>The loops\<close>

lemma reload_remove_settled:
  fixes w :: "'h wg_state"
  assumes "wg_inv w"
  shows "\<exists>w'. reload_remove pks w = ROk w' \<and> wg_inv w' \<and> pubkeys w' = pubkeys w - set pks \<and> ws_info w' = ws_info w \<and>
    (\<forall>p. pc_public_key p \<notin> set pks \<longrightarrow> settled w p \<longrightarrow> settled w' p)"
  using assms
proof (induction pks arbitrary: w)
  case (Cons pk pks)
  obtain b v where v: "remove_peer pk w = ROk (b, v)" "keeps_settled pk {} w v" "pubkeys v = pubkeys w - {pk}" "ws_info v = ws_info w"
    using remove_peer_settled [OF Cons.prems, of pk] by blast
  then obtain w' where "reload_remove pks v = ROk w'" "wg_inv w'" "pubkeys w' = pubkeys v - set pks" "ws_info w' = ws_info v"
    "\<forall>p. pc_public_key p \<notin> set pks \<longrightarrow> settled v p \<longrightarrow> settled w' p"
    using Cons.IH [of v] unfolding keeps_settled_def by blast
  then show ?case using v unfolding keeps_settled_def by auto
qed simp

lemma by_key_Some: "distinct (map key xs) \<Longrightarrow> by_key key xs pk = Some p \<longleftrightarrow> p \<in> set xs \<and> key p = pk"
proof -
  assume d: "distinct (map key xs)"
  have "map fst (rev (map (\<lambda>p. (key p, p)) xs)) = rev (map key xs)" by (simp add: rev_map)
  then have "distinct (map fst (rev (map (\<lambda>p. (key p, p)) xs)))" using d by (simp only: distinct_rev)
  from map_of_eq_Some_iff [OF this] show ?thesis unfolding by_key_def by auto
qed

definition changed :: "(bytes \<rightharpoonup> peer_state_out) \<Rightarrow> socket_addr peer_config \<Rightarrow> bool" where
  "changed existing_map p \<longleftrightarrow> (\<forall>q. existing_map (pc_public_key p) = Some q \<longrightarrow> p \<noteq> existing_config (pc_true_endpoint p) q)"

lemma reload_modify_settled:
  fixes w :: "'h wg_state"
  assumes ok: "config_ok ps"
  shows "wg_inv w \<Longrightarrow> set pks \<subseteq> pubkeys w \<Longrightarrow>
    (\<And>pk. pk \<in> set pks \<Longrightarrow> existing_map pk \<noteq> None \<and> pk \<in> pc_public_key ` set ps) \<Longrightarrow>
    \<exists>w'. reload_modify clock n existing_map (by_key pc_public_key ps) pks w = ROk w' \<and> wg_inv w' \<and>
      pubkeys w' = pubkeys w \<and> ws_info w' = ws_info w \<and>
      (\<forall>p \<in> set ps. settled w p \<or> (pc_public_key p \<in> set pks \<and> changed existing_map p) \<longrightarrow> settled w' p)"
proof (induction pks arbitrary: n w)
  case (Cons pk pks)
  note d = config_ok_def [THEN iffD1, OF ok]
  obtain p where p: "p \<in> set ps" "pc_public_key p = pk" using Cons.prems(3) [of pk] by auto
  have "distinct (map pc_public_key ps)" using d by simp
  from by_key_Some [OF this, of pk p] have p_map: "by_key pc_public_key ps pk = Some p" using p by simp
  obtain q where q: "existing_map pk = Some q" using Cons.prems(3) [of pk] by auto
  have same: "p' = p" if "p' \<in> set ps" "pc_public_key p' = pk" for p'
    using that p d by (metis distinct_map inj_onD)
  show ?case
  proof (cases "p = existing_config (pc_true_endpoint p) q")
    case True
    then have step: "reload_modify clock n existing_map (by_key pc_public_key ps) (pk # pks) w =
        reload_modify clock (Suc n) existing_map (by_key pc_public_key ps) pks w" by (simp add: p_map q)
    have "\<not> changed existing_map p" using True q p(2) by (auto simp: changed_def)
    then have iff: "pc_public_key p' \<in> set (pk # pks) \<and> changed existing_map p' \<longleftrightarrow> pc_public_key p' \<in> set pks \<and> changed existing_map p'"
      if "p' \<in> set ps" for p' using same that by auto
    show ?thesis unfolding step using Cons.IH [OF Cons.prems(1), of "Suc n"] Cons.prems(2,3) iff by auto
  next
    case False
    obtain r where r: "find_peer_by_pubkey w (pc_public_key p) = Some r"
      using Cons.prems(2) p(2) peer_exists_iff [of w pk] by (auto simp: peer_exists_def)
    have okp: "peer_config_ok p" "pc_keepalive p \<noteq> Some 0" using d p(1) by (auto simp: peer_config_ok_def)
    then have keepalive: "(case sp_keepalive (modify_command p) of None \<Rightarrow> pi_keepalive (ps_info (ws_peers w r)) | Some i \<Rightarrow> nonzero_u16 i) = pc_keepalive p"
      by (auto simp: modify_command_def nonzero_u16_def split: option.split)
    obtain v where v: "set_peer (clock n) (modify_command p) w = ROk v" "keeps_settled (pc_public_key p) (config_ips p) w v" "settled v p"
      "ws_pubkey_map v = ws_pubkey_map w" "ws_info v = ws_info w"
      using set_peer_settles [OF Cons.prems(1) okp(1) r _ _ _ _ keepalive, of "clock n"] by (auto simp: modify_command_def)
    have step: "reload_modify clock n existing_map (by_key pc_public_key ps) (pk # pks) w =
        reload_modify clock (Suc n) existing_map (by_key pc_public_key ps) pks v" using False by (simp add: p_map q v(1))
    have keys: "pubkeys v = pubkeys w" using v(4) by (simp add: pubkeys_def)
    have kept: "settled v p'" if "p' \<in> set ps" "settled w p' \<or> pc_public_key p' = pk" for p'
    proof (cases "p' = p")
      case False
      then have "pc_public_key p' \<noteq> pk" "config_ips p' \<inter> config_ips p = {}" using same that(1) p(1) d by auto
      then show ?thesis using v(2) that(2) p(2) unfolding keeps_settled_def by blast
    qed (simp add: v(3))
    have "wg_inv v" using v(2) by (simp add: keeps_settled_def)
    from Cons.IH [OF this, of "Suc n"] obtain w' where w': "reload_modify clock (Suc n) existing_map (by_key pc_public_key ps) pks v = ROk w'"
      "wg_inv w'" "pubkeys w' = pubkeys v" "ws_info w' = ws_info v"
      "\<forall>p \<in> set ps. settled v p \<or> (pc_public_key p \<in> set pks \<and> changed existing_map p) \<longrightarrow> settled w' p"
      using Cons.prems(2,3) keys by auto
    then show ?thesis unfolding step using keys v(5) kept by auto
  qed
qed simp

lemma add_peers_settled:
  fixes w :: "'h wg_state"
  shows "wg_inv w \<Longrightarrow> config_ok ps \<Longrightarrow> pc_public_key ` set ps \<inter> pubkeys w = {} \<Longrightarrow>
    \<exists>w'. add_peers replace clock n ps w = ROk w' \<and> wg_inv w' \<and> pubkeys w' = pubkeys w \<union> pc_public_key ` set ps \<and>
      ws_info w' = ws_info w \<and> (\<forall>p \<in> set ps. settled w' p) \<and>
      (\<forall>p. pc_public_key p \<notin> pc_public_key ` set ps \<longrightarrow> (\<forall>q \<in> set ps. config_ips p \<inter> config_ips q = {}) \<longrightarrow> settled w p \<longrightarrow> settled w' p)"
proof (induction ps arbitrary: n w)
  case (Cons p ps)
  let ?pk = "pc_public_key p"
  have d: "config_ok ps" "?pk \<notin> pc_public_key ` set ps" "peer_config_ok p"
    using Cons.prems(2) by (auto simp: config_ok_def)
  have disj: "config_ips p \<inter> config_ips q = {}" if "q \<in> set ps" for q
    using Cons.prems(2) that d(2) by (auto simp: config_ok_def)
  obtain v r where v: "wg_add_peer ?pk (clock (2 * n)) w = ROk v" "keeps_settled ?pk {} w v" "pubkeys v = insert ?pk (pubkeys w)"
    "ws_info v = ws_info w" "find_peer_by_pubkey v ?pk = Some r" "peer_allowed_ips v r = {}" "pi_keepalive (ps_info (ws_peers v r)) = None"
    using add_peer_settled [OF Cons.prems(1), of ?pk "clock (2 * n)"] Cons.prems(3) by auto
  have vinv: "wg_inv v" using v(2) by (simp add: keeps_settled_def)
  have "pc_keepalive p \<noteq> Some 0" using d(3) by (simp add: peer_config_ok_def)
  then have keepalive: "(case sp_keepalive (add_command replace p) of None \<Rightarrow> pi_keepalive (ps_info (ws_peers v r)) | Some i \<Rightarrow> nonzero_u16 i) = pc_keepalive p"
    using v(7) by (auto simp: add_command_def nonzero_u16_def split: option.split)
  obtain u where u: "set_peer (clock (2 * n + 1)) (add_command replace p) v = ROk u" "keeps_settled ?pk (config_ips p) v u" "settled u p"
    "ws_pubkey_map u = ws_pubkey_map v" "ws_info u = ws_info v"
    using set_peer_settles [OF vinv d(3) v(5) _ _ _ _ keepalive, of "clock (2 * n + 1)"] v(6) by (auto simp: add_command_def)
  have keys: "pubkeys u = insert ?pk (pubkeys w)" using u(4) v(3) by (simp add: pubkeys_def)
  have uinv: "wg_inv u" using u(2) by (simp add: keeps_settled_def)
  obtain w' where w': "add_peers replace clock (Suc n) ps u = ROk w'" "wg_inv w'" "pubkeys w' = pubkeys u \<union> pc_public_key ` set ps"
    "ws_info w' = ws_info u" "\<forall>p \<in> set ps. settled w' p"
    "\<forall>p. pc_public_key p \<notin> pc_public_key ` set ps \<longrightarrow> (\<forall>q \<in> set ps. config_ips p \<inter> config_ips q = {}) \<longrightarrow> settled u p \<longrightarrow> settled w' p"
    using Cons.IH [OF uinv d(1), of "Suc n"] keys Cons.prems(3) d(2) by auto
  have "settled w' p" using w'(6) u(3) d(2) disj by blast
  moreover have "settled w' q" if "pc_public_key q \<notin> pc_public_key ` set (p # ps)" "\<forall>r \<in> set (p # ps). config_ips q \<inter> config_ips r = {}" "settled w q" for q
  proof -
    have "settled v q" using v(2) that by (auto simp: keeps_settled_def)
    then have "settled u q" using u(2) that by (auto simp: keeps_settled_def)
    then show ?thesis using w'(6) that by auto
  qed
  ultimately show ?case using w' v(1,4) u(1,5) keys by auto
qed simp

section \<open>Reloading as a whole\<close>

lemma unmap_map_unmap: "unmap_ipv4_from_ipv6 (map_ipv4_to_ipv6 (unmap_ipv4_from_ipv6 x)) = unmap_ipv4_from_ipv6 x"
  by (simp add: unmap_ipv4_from_ipv6_def map_ipv4_to_ipv6_def segments_mapped_iff to_ipv6_mapped_high
      unmap_total to_ipv6_mapped_low to_ipv4_def)

lemma set_key_settled: "settled w p \<Longrightarrow> settled (set_key key w) p"
proof -
  have "ps_info (ws_peers (clear_peers rs w) q) = ps_info (ws_peers w q) \<and> ws_pubkey_map (clear_peers rs w) = ws_pubkey_map w" for rs q
    by (induction rs w rule: clear_peers.induct) (auto simp: update_peer_def drop_guards_def ps_clear_all_def Let_def)
  then show "settled w p \<Longrightarrow> settled (set_key key w) p"
    by (elim settled_same) (simp_all add: set_key_def find_peer_by_pubkey_def Let_def)
qed

text \<open>Everything before the peers: sockets and key.\<close>

definition same_peers :: "'h wg_state \<Rightarrow> 'h wg_state \<Rightarrow> bool" where
  "same_peers w w' \<longleftrightarrow> wg_inv w' \<and> pubkeys w' = pubkeys w \<and> (\<forall>p. settled w p \<longrightarrow> settled w' p)"

lemma same_peers_refl: "wg_inv w \<Longrightarrow> same_peers w w"
  by (simp add: same_peers_def)

lemma same_peers_trans: "same_peers w v \<Longrightarrow> same_peers v w' \<Longrightarrow> same_peers w w'"
  by (simp add: same_peers_def)

lemma same_peers_key: "wg_inv w \<Longrightarrow> same_peers w (set_key key w)"
  by (simp add: same_peers_def set_key_inv set_key_pubkeys set_key_settled)

lemma socket_ops_keep:
  assumes "set_port o' p w = ROk w' \<or> set_fwmark o' m w = ROk w'"
  shows "ws_pubkey_map w' = ws_pubkey_map w" "ws_peers w' = ws_peers w" "wi_key (ws_info w') = wi_key (ws_info w)"
  using assms by (auto simp: set_port_def set_fwmark_def and_then_ROk_iff Let_def split: if_splits option.splits)

lemma same_peers_socket:
  assumes inv: "wg_inv w" and w': "set_port o' p w = ROk w' \<or> set_fwmark o' m w = ROk w'"
  shows "same_peers w w'"
proof -
  have "wg_inv w'" using w' set_port_inv [OF inv] set_fwmark_inv [OF inv] by blast
  moreover have "settled w' q" if "settled w q" for q
    by (rule settled_same [OF that]) (simp_all add: find_peer_by_pubkey_def socket_ops_keep(1,2) [OF w'])
  ultimately show ?thesis by (simp add: same_peers_def pubkeys_def socket_ops_keep(1) [OF w'])
qed

lemma ignore_err_socket:
  assumes inv: "wg_inv w" and r: "r = set_port o' p w \<or> r = set_fwmark o' m w"
  shows "\<exists>w'. ignore_err w r = ROk w' \<and> same_peers w w' \<and> wi_key (ws_info w') = wi_key (ws_info w)"
proof (cases r)
  case (ROk w')
  then have "set_port o' p w = ROk w' \<or> set_fwmark o' m w = ROk w'" using r by auto
  from same_peers_socket [OF inv this] socket_ops_keep(3) [OF this] show ?thesis using ROk by (simp add: ignore_err_def)
next
  case (RErr e)
  then show ?thesis using same_peers_refl [OF inv] by (auto simp: ignore_err_def)
next
  case RPanic
  then show ?thesis using r set_port_cases [of o' p w] set_fwmark_cases [of o' m w] by auto
qed

lemma socket_result_ok:
  assumes inv: "wg_inv w" and r: "(set_port o' p w = ROk w' \<or> set_fwmark o' m w = ROk w') \<or> w' = w"
  shows "wg_inv w' \<and> pubkeys w' = pubkeys w \<and> wi_key (ws_info w') = wi_key (ws_info w)"
  using r
proof
  assume w': "set_port o' p w = ROk w' \<or> set_fwmark o' m w = ROk w'"
  from same_peers_socket [OF inv w'] socket_ops_keep(3) [OF w'] show ?thesis by (simp add: same_peers_def)
qed (simp add: inv)

lemma socket_result:
  assumes inv: "wg_inv w" and r: "r = ROk w \<or> r = set_port o' p w \<or> r = set_fwmark o' m w"
  shows "(\<exists>w'. r = ROk w' \<and> wg_inv w' \<and> pubkeys w' = pubkeys w \<and> wi_key (ws_info w') = wi_key (ws_info w)) \<or> r = RErr ()"
proof (cases r)
  case (ROk w')
  then have "(set_port o' p w = ROk w' \<or> set_fwmark o' m w = ROk w') \<or> w' = w" using r by auto
  from socket_result_ok [OF inv this] show ?thesis using ROk by simp
next
  case RPanic
  then show ?thesis using r set_port_cases [of o' p w] set_fwmark_cases [of o' m w] by auto
qed simp

lemma get_state_keys:
  assumes "wg_inv w"
  shows "map po_public_key (wo_peers (get_state now t w)) = map fst (ws_pubkey_map w)"
  using wg_invD(2) [OF assms] by (auto simp: get_state_def peer_out_def keys_inv_def)

text \<open>A peer that the comparison finds unchanged is settled.\<close>

lemma unchanged_settled:
  assumes inv: "wg_inv w" and nz: "\<forall>r \<in> live w. pi_keepalive (ps_info (ws_peers w r)) \<noteq> Some 0"
    and q: "by_key po_public_key (wo_peers (get_state now t w)) (pc_public_key p) = Some q"
    and p: "p = existing_config (pc_true_endpoint p) q"
  shows "settled w p"
proof -
  have "distinct (map po_public_key (wo_peers (get_state now t w)))"
    using get_state_keys [OF inv, of now t] wg_invD(2) [OF inv] by (simp add: keys_inv_def)
  from by_key_Some [OF this] q have "q \<in> set (wo_peers (get_state now t w))" "po_public_key q = pc_public_key p" by auto
  then obtain k r where r: "(k, r) \<in> set (ws_pubkey_map w)" "q = peer_out now t (ws_peers w r)" "pi_public_key (ps_info (ws_peers w r)) = pc_public_key p"
    by (auto simp: get_state_def peer_out_def)
  have k: "k = pc_public_key p" using r wg_invD(2) [OF inv] by (auto simp: keys_inv_def)
  then have find: "find_peer_by_pubkey w (pc_public_key p) = Some r"
    using r(1) wg_invD(2) [OF inv] by (simp add: find_peer_by_pubkey_def keys_inv_def)
  have live: "r \<in> live w" using r(1) by (force simp: live_def)
  note fields = arg_cong [OF p, of pc_preshared_key] arg_cong [OF p, of pc_endpoint] arg_cong [OF p, of pc_allowed_ips] arg_cong [OF p, of pc_keepalive]
  have f: "pc_preshared_key p = pi_psk (ps_info (ws_peers w r))" "pc_endpoint p = map_option unmap_ipv4_from_ipv6 (pi_endpoint (ps_info (ws_peers w r)))"
    "pc_allowed_ips p = peer_allowed_ips w r"
    using fields by (simp_all add: existing_config_def r(2) peer_out_def peer_allowed_ips_def)
  have "pc_keepalive p = pi_keepalive (ps_info (ws_peers w r))"
    using fields(4) nz live by (auto simp: existing_config_def r(2) peer_out_def nonzero_u16_def split: option.splits)
  moreover have "config_ips p = peer_allowed_ips w r"
  proof -
    have "(case x of (a, l) \<Rightarrow> (ip_masked a l, l)) = x" if "x \<in> peer_allowed_ips w r" for x
      using routes_invD(4) [OF wg_invD(1) [OF inv] live that] by (auto simp: canonical_def)
    then show ?thesis unfolding config_ips_def f(3) by simp
  qed
  ultimately show ?thesis
    unfolding settled_def using find f unmap_map_unmap by (intro exI [of _ r]) (auto split: option.splits)
qed

lemma left_ok:
  assumes ok: "config_ok ps" and K: "finite K" "K \<subseteq> pc_public_key ` set ps"
  defines "left \<equiv> map (\<lambda>pk. the (by_key pc_public_key ps pk)) (sorted_list_of_set K)"
  shows "config_ok left" "set left = {p \<in> set ps. pc_public_key p \<in> K}"
proof -
  have d: "distinct (map pc_public_key ps)" using ok by (simp add: config_ok_def)
  have key: "by_key pc_public_key ps pk = Some p \<longleftrightarrow> p \<in> set ps \<and> pc_public_key p = pk" for pk p by (rule by_key_Some [OF d])
  have the: "the (by_key pc_public_key ps pk) \<in> set ps \<and> pc_public_key (the (by_key pc_public_key ps pk)) = pk" if pk: "pk \<in> K" for pk
  proof -
    obtain p where "p \<in> set ps" "pc_public_key p = pk" using pk K(2) by blast
    then have "by_key pc_public_key ps pk = Some p" using key by blast
    then show ?thesis using \<open>p \<in> set ps\<close> \<open>pc_public_key p = pk\<close> by simp
  qed
  have inv: "the (by_key pc_public_key ps (pc_public_key p)) = p" if "p \<in> set ps" for p
    using key [of "pc_public_key p" p] that by simp
  have img: "set left = (\<lambda>pk. the (by_key pc_public_key ps pk)) ` K" using K(1) by (simp add: left_def)
  show set: "set left = {p \<in> set ps. pc_public_key p \<in> K}"
  proof (intro set_eqI iffI)
    fix p assume "p \<in> set left"
    then obtain pk where "pk \<in> K" "p = the (by_key pc_public_key ps pk)" unfolding img by blast
    then show "p \<in> {p \<in> set ps. pc_public_key p \<in> K}" using the [of pk] by simp
  next
    fix p assume "p \<in> {p \<in> set ps. pc_public_key p \<in> K}"
    then show "p \<in> set left" unfolding img using inv [of p] by (metis (no_types, lifting) imageI mem_Collect_eq)
  qed
  have "map pc_public_key left = map (\<lambda>pk. pk) (sorted_list_of_set K)"
    unfolding left_def map_map comp_def by (rule map_cong [OF refl]) (use the K(1) in simp)
  then have "distinct (map pc_public_key left)" by simp
  then show "config_ok left" using ok set unfolding config_ok_def by blast
qed

lemma reload_peers_settled:
  fixes w :: "'h wg_state"
  assumes inv: "wg_inv w" and ok: "config_ok ps" and keys: "map po_public_key cur = map fst (ws_pubkey_map w)"
    and unchanged: "\<And>p q. p \<in> set ps \<Longrightarrow> by_key po_public_key cur (pc_public_key p) = Some q \<Longrightarrow>
      p = existing_config (pc_true_endpoint p) q \<Longrightarrow> settled w p"
  shows "\<exists>w'. reload_peers clock cur ps w = ROk w' \<and> wg_inv w' \<and> pubkeys w' = pc_public_key ` set ps \<and>
    ws_info w' = ws_info w \<and> (\<forall>p \<in> set ps. settled w' p)"
proof -
  let ?E = "set (map po_public_key cur)" and ?N = "set (map pc_public_key ps)"
  let ?em = "by_key po_public_key cur"
  have E: "?E = pubkeys w" unfolding keys by (simp add: pubkeys_def)
  have d: "distinct (map po_public_key cur)" using wg_invD(2) [OF inv] unfolding keys by (simp add: keys_inv_def)
  obtain w1 where w1: "reload_remove (sorted_list_of_set (?E - ?N)) w = ROk w1" "wg_inv w1" "pubkeys w1 = pubkeys w - (?E - ?N)"
    "ws_info w1 = ws_info w" "\<forall>p. pc_public_key p \<notin> ?E - ?N \<longrightarrow> settled w p \<longrightarrow> settled w1 p"
    using reload_remove_settled [OF inv, of "sorted_list_of_set (?E - ?N)"] by auto
  have k1: "pubkeys w1 = ?E \<inter> ?N" using w1(3) E by auto
  have em: "?em pk \<noteq> None" if "pk \<in> ?E" for pk using by_key_Some [OF d, of pk] that by fastforce
  obtain w2 where w2: "reload_modify clock 0 ?em (by_key pc_public_key ps) (sorted_list_of_set (?E \<inter> ?N)) w1 = ROk w2" "wg_inv w2"
    "pubkeys w2 = pubkeys w1" "ws_info w2 = ws_info w1"
    "\<forall>p \<in> set ps. settled w1 p \<or> (pc_public_key p \<in> set (sorted_list_of_set (?E \<inter> ?N)) \<and> changed ?em p) \<longrightarrow> settled w2 p"
    using reload_modify_settled [OF ok w1(2), of "sorted_list_of_set (?E \<inter> ?N)" ?em clock 0] k1 em by auto
  have s2: "settled w2 p" if p: "p \<in> set ps" "pc_public_key p \<in> ?E" for p
  proof (cases "changed ?em p")
    case True
    then show ?thesis using w2(5) p by simp
  next
    case False
    then have "settled w p" using unchanged [OF p(1)] by (auto simp: changed_def)
    then show ?thesis using w1(5) w2(5) p(1) by simp
  qed
  define left where "left = map (\<lambda>pk. the (by_key pc_public_key ps pk)) (sorted_list_of_set (?N - ?E))"
  have left: "config_ok left" "set left = {p \<in> set ps. pc_public_key p \<in> ?N - ?E}"
    using left_ok [OF ok, of "?N - ?E"] unfolding left_def by simp_all
  have lk: "pc_public_key ` set left = ?N - ?E" unfolding left(2) by auto
  have disj: "pc_public_key ` set left \<inter> pubkeys w2 = {}" unfolding lk w2(3) k1 by blast
  obtain w3 where w3: "add_peers False clock (card (?E \<inter> ?N)) left w2 = ROk w3" "wg_inv w3"
    "pubkeys w3 = pubkeys w2 \<union> pc_public_key ` set left" "ws_info w3 = ws_info w2" "\<forall>p \<in> set left. settled w3 p"
    "\<forall>p. pc_public_key p \<notin> pc_public_key ` set left \<longrightarrow> (\<forall>q \<in> set left. config_ips p \<inter> config_ips q = {}) \<longrightarrow> settled w2 p \<longrightarrow> settled w3 p"
    using add_peers_settled [OF w2(2) left(1) disj, of False clock "card (?E \<inter> ?N)"] by blast
  have "settled w3 p" if p: "p \<in> set ps" for p
  proof (cases "pc_public_key p \<in> ?E")
    case True
    then have "p \<notin> set left" "pc_public_key p \<notin> pc_public_key ` set left" unfolding lk left(2) by auto
    moreover have "config_ips p \<inter> config_ips q = {}" if q: "q \<in> set left" for q
    proof -
      have "q \<in> set ps" "p \<noteq> q" using q \<open>p \<notin> set left\<close> left(2) by auto
      then show ?thesis using ok p by (simp add: config_ok_def)
    qed
    ultimately show ?thesis using w3(6) s2 [OF p True] by blast
  next
    case False
    then show ?thesis using w3(5) p left(2) by simp
  qed
  moreover have "pubkeys w3 = pc_public_key ` set ps" using w3(3) w2(3) k1 lk by auto
  moreover have "reload_peers clock cur ps w = ROk w3"
    unfolding reload_peers_def Let_def w1(1) w2(1) and_then_simps left_def [symmetric] w3(1) by (rule refl)
  ultimately show ?thesis using w3(2,4) w2(4) w1(4) by auto
qed

lemma reload_steps:
  fixes w :: "'h wg_state"
  assumes inv: "wg_inv w" and ok: "config_ok (cf_peers c)"
    and nz: "\<forall>r \<in> live w. pi_keepalive (ps_info (ws_peers w r)) \<noteq> Some 0"
  shows "\<exists>w' w3 w2 w1. reload o' clock system_now c w = ROk w' \<and> wg_inv w' \<and> wi_key (ws_info w') = ic_private_key (cf_interface c) \<and>
    fst ` set (ws_pubkey_map w') = pc_public_key ` set (cf_peers c) \<and> (\<forall>p \<in> set (cf_peers c). settled w' p) \<and>
    ws_info w' = ws_info w3 \<and>
    w1 = (if ic_private_key (cf_interface c) \<noteq> wo_private_key (get_state (clock 0) system_now w)
      then set_key (ic_private_key (cf_interface c)) w else w) \<and>
    (if (case ic_fwmark (cf_interface c) of Some m \<Rightarrow> m | None \<Rightarrow> 0) \<noteq> wo_fwmark (get_state (clock 0) system_now w)
     then ignore_err w1 (set_fwmark o' (case ic_fwmark (cf_interface c) of Some m \<Rightarrow> m | None \<Rightarrow> 0) w1) else ROk w1) = ROk w2 \<and>
    (if wo_listen_port (get_state (clock 0) system_now w) \<noteq> (case ic_listen_port (cf_interface c) of Some p \<Rightarrow> p | None \<Rightarrow> 0)
     then ignore_err w2 (set_port o' (case ic_listen_port (cf_interface c) of Some p \<Rightarrow> p | None \<Rightarrow> 0) w2) else ROk w2) = ROk w3"
proof -
  define cur where "cur = get_state (clock 0) system_now w"
  let ?key = "ic_private_key (cf_interface c)"
  define m where "m = (case ic_fwmark (cf_interface c) of Some m \<Rightarrow> m | None \<Rightarrow> 0)"
  define port where "port = (case ic_listen_port (cf_interface c) of Some p \<Rightarrow> p | None \<Rightarrow> 0)"
  define w1 where "w1 = (if ?key \<noteq> wo_private_key cur then set_key ?key w else w)"
  have w1: "same_peers w w1" "wi_key (ws_info w1) = ?key"
    using same_peers_key [OF inv] same_peers_refl [OF inv] by (auto simp: w1_def set_key_def Let_def cur_def get_state_def)
  then have inv1: "wg_inv w1" by (simp add: same_peers_def)
  obtain w2 where w2: "(if m \<noteq> wo_fwmark cur then ignore_err w1 (set_fwmark o' m w1) else ROk w1) = ROk w2"
    "same_peers w1 w2" "wi_key (ws_info w2) = wi_key (ws_info w1)"
    using ignore_err_socket [OF inv1, of "set_fwmark o' m w1" o' 0 m] same_peers_refl [OF inv1] by (cases "m = wo_fwmark cur") auto
  then have inv2: "wg_inv w2" by (simp add: same_peers_def)
  obtain w3 where w3: "(if wo_listen_port cur \<noteq> port then ignore_err w2 (set_port o' port w2) else ROk w2) = ROk w3"
    "same_peers w2 w3" "wi_key (ws_info w3) = wi_key (ws_info w2)"
    using ignore_err_socket [OF inv2, of "set_port o' port w2" o' port 0] same_peers_refl [OF inv2] by (cases "port = wo_listen_port cur") auto
  have pk: "ws_pubkey_map w3 = ws_pubkey_map w"
  proof -
    have "ws_pubkey_map (clear_peers rs v) = ws_pubkey_map v" for rs and v :: "'h wg_state"
      by (induction rs v rule: clear_peers.induct) (simp_all add: update_peer_def drop_guards_def split: prod.split)
    then have "ws_pubkey_map w1 = ws_pubkey_map w" by (simp add: w1_def set_key_def Let_def)
    moreover have "ws_pubkey_map w2 = ws_pubkey_map w1"
      using w2(1) socket_ops_keep(1) [of o' 0 w1 w2 m] by (auto simp: ignore_err_def split: if_splits rust_result.splits)
    moreover have "ws_pubkey_map w3 = ws_pubkey_map w2"
      using w3(1) socket_ops_keep(1) [of o' port w2 w3 0] by (auto simp: ignore_err_def split: if_splits rust_result.splits)
    ultimately show ?thesis by simp
  qed
  have same: "same_peers w w3" using w1(1) w2(2) w3(2) same_peers_trans by blast
  then have inv3: "wg_inv w3" by (simp add: same_peers_def)
  have keys: "map po_public_key (wo_peers cur) = map fst (ws_pubkey_map w3)"
    unfolding cur_def pk by (rule get_state_keys [OF inv])
  have unchanged: "settled w3 p" if "p \<in> set (cf_peers c)" "by_key po_public_key (wo_peers cur) (pc_public_key p) = Some q" "p = existing_config (pc_true_endpoint p) q" for p q
    using unchanged_settled [OF inv nz that(2,3) [unfolded cur_def]] same by (simp add: same_peers_def)
  obtain w' where w': "reload_peers clock (wo_peers cur) (cf_peers c) w3 = ROk w'" "wg_inv w'" "pubkeys w' = pc_public_key ` set (cf_peers c)"
    "ws_info w' = ws_info w3" "\<forall>p \<in> set (cf_peers c). settled w' p"
    using reload_peers_settled [OF inv3 ok keys, of clock] unchanged by blast
  have run: "reload o' clock system_now c w = ROk w'"
    unfolding reload_def Let_def cur_def [symmetric] m_def [symmetric] port_def [symmetric] w1_def [symmetric] w2(1) and_then_simps w3(1)
    by (rule w'(1))
  have key: "wi_key (ws_info w') = ?key" using w'(4) w1(2) w2(3) w3(3) by simp
  have keys': "fst ` set (ws_pubkey_map w') = pc_public_key ` set (cf_peers c)" using w'(3) by (simp add: pubkeys_def)
  show ?thesis
    by (rule exI [of _ w'], rule exI [of _ w3], rule exI [of _ w2], rule exI [of _ w1], intro conjI)
      (fact run w'(2) key keys' w'(5) w'(4) w1_def [unfolded cur_def] w2(1) [unfolded m_def cur_def] w3(1) [unfolded port_def cur_def])+
qed

text \<open>
  C8: After a reload the interface is as the new configuration says: its key, exactly the peers of
  the configuration, and for each peer the preshared key, the keepalive interval, the masked allowed
  IPs and, when it names one, the endpoint. This holds whether a peer was there before, was changed
  in between or is new, also when an allowed IP moves from one peer to another, and whatever becomes
  of the socket. It needs a configuration whose peers are distinct and share no allowed IP; that the
  keepalive interval in the interface is not zero is the type \<open>NonZeroU16\<close> of that field.
\<close>

theorem reload_applies_config:
  assumes inv: "wg_inv w" and ok: "config_ok (cf_peers c)"
    and nz: "\<forall>r \<in> live w. pi_keepalive (ps_info (ws_peers w r)) \<noteq> Some 0"
  shows "\<exists>w'. reload o' clock system_now c w = ROk w' \<and> wg_inv w' \<and> wi_key (ws_info w') = ic_private_key (cf_interface c) \<and>
    fst ` set (ws_pubkey_map w') = pc_public_key ` set (cf_peers c) \<and> (\<forall>p \<in> set (cf_peers c). settled w' p)"
  using reload_steps [OF assms, of o' clock system_now] by blast

definition example_config :: "socket_addr config" where
  "example_config = \<lparr>cf_general = \<lparr>gc_log = None, gc_user = None, gc_group = None, gc_config_file_path = None,
       gc_foreground = True, gc_threads = None\<rparr>,
     cf_interface = \<lparr>ic_name = Some ''tun0'', ic_private_key = wi_key (example_wg 1), ic_listen_port = None, ic_fwmark = None,
       ic_address = {}, ic_mtu = None, ic_dns = []\<rparr>,
     cf_peers = [\<lparr>pc_public_key = replicate 32 5, pc_preshared_key = Some (replicate 32 6),
         pc_endpoint = Some (SockV4 0x01020304 51820), pc_true_endpoint = None,
         pc_allowed_ips = {(IpV4 0x0A000001, 8), (IpV6 0, 0)}, pc_keepalive = Some 25\<rparr>,
       \<lparr>pc_public_key = replicate 32 4, pc_preshared_key = None, pc_endpoint = None, pc_true_endpoint = None,
         pc_allowed_ips = {(IpV4 0x0B000000, 24)}, pc_keepalive = None\<rparr>]\<rparr>"

lemma example_config_ok: "config_ok (cf_peers example_config)"
  by (auto simp: example_config_def config_ok_def peer_config_ok_def config_ips_def)

theorem reload_applies_config_witness:
  "\<exists>w'. reload example_os (\<lambda>_. 3) 3 example_config example_new = ROk w' \<and> wg_inv w' \<and>
     fst ` set (ws_pubkey_map w') = {replicate 32 5, replicate 32 4} \<and> (\<forall>p \<in> set (cf_peers example_config). settled w' p)"
proof -
  have "\<forall>r \<in> live example_new. pi_keepalive (ps_info (ws_peers example_new r)) \<noteq> Some 0" by (simp add: live_def example_new_def)
  moreover have "pc_public_key ` set (cf_peers example_config) = {replicate 32 5, replicate 32 4}" by (simp add: example_config_def)
  ultimately show ?thesis
    using reload_applies_config [OF wg_new_inv [OF example_new_eq] example_config_ok, of example_os "\<lambda>_. 3" 3] by metis
qed

text \<open>
  A configuration without a listen port does not leave the port alone: every reload binds a new
  socket to a port the system chooses, also when nothing in the configuration has changed.
\<close>

theorem reload_moves_port:
  assumes inv: "wg_inv w" and ok: "config_ok (cf_peers c)"
    and nz: "\<forall>r \<in> live w. pi_keepalive (ps_info (ws_peers w r)) \<noteq> Some 0"
    and c: "ic_listen_port (cf_interface c) = None" "ic_fwmark (cf_interface c) = None"
    and w: "wi_port (ws_info w) \<noteq> 0" "wi_fwmark (ws_info w) = 0" and q: "os_bind o' 0 = Some q"
  shows "\<exists>w'. reload o' clock system_now c w = ROk w' \<and> wi_port (ws_info w') = q"
proof -
  let ?g = "get_state (clock 0) system_now w"
  obtain w' w3 w2 w1 where run: "reload o' clock system_now c w = ROk w'" "ws_info w' = ws_info w3"
    and w1: "w1 = (if ic_private_key (cf_interface c) \<noteq> wo_private_key ?g then set_key (ic_private_key (cf_interface c)) w else w)"
    and w2: "(if (case ic_fwmark (cf_interface c) of Some m \<Rightarrow> m | None \<Rightarrow> 0) \<noteq> wo_fwmark ?g
      then ignore_err w1 (set_fwmark o' (case ic_fwmark (cf_interface c) of Some m \<Rightarrow> m | None \<Rightarrow> 0) w1) else ROk w1) = ROk w2"
    and w3: "(if wo_listen_port ?g \<noteq> (case ic_listen_port (cf_interface c) of Some p \<Rightarrow> p | None \<Rightarrow> 0)
      then ignore_err w2 (set_port o' (case ic_listen_port (cf_interface c) of Some p \<Rightarrow> p | None \<Rightarrow> 0) w2) else ROk w2) = ROk w3"
    using reload_steps [OF inv ok nz, of o' clock system_now] by blast
  have info: "ws_info (clear_peers rs v) = ws_info v" for rs and v :: "'a wg_state"
    by (induction rs v rule: clear_peers.induct) (simp_all add: update_peer_def drop_guards_def split: prod.split)
  have "w2 = w1" using w2 c(2) w(2) by (simp add: get_state_def)
  then have "wi_port (ws_info w2) = wi_port (ws_info w)" "wi_fwmark (ws_info w2) = 0"
    using w(2) by (simp_all add: w1 set_key_def Let_def info)
  then have "wi_port (ws_info w3) = q"
    using w3 c(1) w(1) q by (auto simp: get_state_def ignore_err_def set_port_def prepare_socket_def Let_def split: option.splits)
  then show ?thesis using run by simp
qed

theorem reload_moves_port_witness:
  "\<exists>w'. reload (example_os\<lparr>os_bind := (\<lambda>p. Some (if p = 0 then 41234 else p))\<rparr>) (\<lambda>_. 3) 3 example_config example_new = ROk w' \<and>
     wi_port (ws_info example_new) = 40000 \<and> wi_port (ws_info w') = 41234"
proof -
  have "\<forall>r \<in> live example_new. pi_keepalive (ps_info (ws_peers example_new r)) \<noteq> Some 0" by (simp add: live_def example_new_def)
  from reload_moves_port [OF wg_new_inv [OF example_new_eq] example_config_ok this,
      of "example_os\<lparr>os_bind := (\<lambda>p. Some (if p = 0 then 41234 else p))\<rparr>" 41234 "\<lambda>_. 3" 3]
  show ?thesis by (simp add: example_config_def example_new_def)
qed

text \<open>
  Starting the interface applies the configuration: when the sockets can be bound, every peer of
  it is there with its preshared key, keepalive interval, allowed IPs and endpoint.
\<close>

theorem run_applies_config:
  assumes ok: "config_ok (cf_peers c)"
  shows "case (run_config o' clock genkey cookie tun_mtu c :: (unit, 'h wg_state) rust_result) of
      ROk w \<Rightarrow> wg_inv w \<and> wi_key (ws_info w) = ic_private_key (cf_interface c) \<and>
        fst ` set (ws_pubkey_map w) = pc_public_key ` set (cf_peers c) \<and> (\<forall>p \<in> set (cf_peers c). settled w p)
    | RErr _ \<Rightarrow> True
    | RPanic \<Rightarrow> False"
proof (cases "wg_new o' genkey cookie tun_mtu (clock 0) :: (unit, 'h wg_state) rust_result")
  case (ROk w0)
  define w1 where "w1 = set_key (ic_private_key (cf_interface c)) w0"
  have map0: "ws_pubkey_map w0 = []"
    using ROk by (cases "prepare_socket o' 0 0"; cases tun_mtu) (auto simp: wg_new_def split: prod.splits)
  have inv0: "wg_inv w0" by (rule wg_new_inv [OF ROk])
  have w1: "wg_inv w1" "pubkeys w1 = {}" "wi_key (ws_info w1) = ic_private_key (cf_interface c)"
    using same_peers_key [OF inv0] map0 by (simp_all add: w1_def same_peers_def pubkeys_def set_key_def Let_def)
  define r2 where "r2 = (case ic_listen_port (cf_interface c) of Some port \<Rightarrow> set_port o' port w1 | None \<Rightarrow> ROk w1)"
  define r3 where "r3 w2 = (case ic_fwmark (cf_interface c) of Some m \<Rightarrow> set_fwmark o' m w2 | None \<Rightarrow> ROk w2)" for w2 :: "'h wg_state"
  have run: "run_config o' clock genkey cookie tun_mtu c = and_then r2 (\<lambda>w. and_then (r3 w) (\<lambda>w. add_peers True clock 1 (cf_peers c) w))"
    unfolding run_config_def ROk and_then_simps Let_def w1_def [symmetric] r2_def r3_def ..
  have "r2 = ROk w1 \<or> r2 = set_port o' (the (ic_listen_port (cf_interface c))) w1 \<or> r2 = set_fwmark o' 0 w1" by (auto simp: r2_def split: option.split)
  from socket_result [OF w1(1) this] show ?thesis
  proof (elim disjE exE conjE)
    fix w2 assume w2: "r2 = ROk w2" "wg_inv w2" "pubkeys w2 = pubkeys w1" "wi_key (ws_info w2) = wi_key (ws_info w1)"
    have "r3 w2 = ROk w2 \<or> r3 w2 = set_port o' 0 w2 \<or> r3 w2 = set_fwmark o' (the (ic_fwmark (cf_interface c))) w2" by (auto simp: r3_def split: option.split)
    from socket_result [OF w2(2) this] show ?thesis
    proof (elim disjE exE conjE)
      fix w3 assume w3: "r3 w2 = ROk w3" "wg_inv w3" "pubkeys w3 = pubkeys w2" "wi_key (ws_info w3) = wi_key (ws_info w2)"
      have "pc_public_key ` set (cf_peers c) \<inter> pubkeys w3 = {}" using w1 w2 w3 by simp
      from add_peers_settled [OF w3(2) ok this, of True clock 1] show ?thesis
        using w1 w2 w3 unfolding run by (auto simp: pubkeys_def)
    qed (simp add: run w2(1))
  qed (simp add: run)
next
  case (RErr e)
  then show ?thesis by (simp add: run_config_def)
next
  case RPanic
  then show ?thesis using prepare_socket_total [of o' 0 0]
    by (cases "prepare_socket o' 0 0"; cases tun_mtu) (auto simp: wg_new_def split: prod.splits)
qed

theorem run_applies_config_witness:
  "\<exists>w :: mock wg_state. run_config example_os (\<lambda>_. 3) (wi_key (example_wg 2)) (replicate 32 7) (Some 1280) example_config = ROk w \<and>
     fst ` set (ws_pubkey_map w) = {replicate 32 5, replicate 32 4} \<and> (\<forall>p \<in> set (cf_peers example_config). settled w p)"
proof -
  have start: "wg_new example_os (wi_key (example_wg 2)) (replicate 32 7) (Some 1280) 3 \<noteq> (RErr () :: (unit, mock wg_state) rust_result)"
    by (simp add: wg_new_def prepare_socket_def example_os_def)
  have "run_config example_os (\<lambda>_. 3) (wi_key (example_wg 2)) (replicate 32 7) (Some 1280) example_config \<noteq> (RErr () :: (unit, mock wg_state) rust_result)"
  proof -
    obtain w0 :: "mock wg_state" where w0: "wg_new example_os (wi_key (example_wg 2)) (replicate 32 7) (Some 1280) 3 = ROk w0"
      by (simp add: wg_new_def prepare_socket_def example_os_def)
    have inv: "wg_inv w0" by (rule wg_new_inv [OF w0])
    have "ws_pubkey_map w0 = []" using w0 by (auto simp: wg_new_def prepare_socket_def example_os_def)
    then have "pubkeys (set_key k w0) = {}" for k unfolding set_key_pubkeys by (simp add: pubkeys_def)
    then have "pc_public_key ` set (cf_peers example_config) \<inter> pubkeys (set_key (wi_key (example_wg 1)) w0) = {}" by simp
    from add_peers_settled [OF set_key_inv [OF inv] example_config_ok this, of True "\<lambda>_. 3" 1]
    show ?thesis by (auto simp: run_config_def w0 Let_def example_config_def)
  qed
  then show ?thesis
    using run_applies_config [OF example_config_ok, of example_os "\<lambda>_. 3" "wi_key (example_wg 2)" "replicate 32 7" "Some 1280", where 'h = mock]
    by (auto simp: example_config_def split: rust_result.splits)
qed

end
