(* ===== verification/Network_Config.thy ===== *)
theory Network_Config
  imports Cli_Reload
begin

text \<open>
  What \<open>network_config\<close> of \<open>src/src/cli/network_config.rs\<close> (Windows) computes before it runs the
  commands of the system: the ranges of addresses whose DNS traffic is blocked, the routes of the
  allowed IPs, the addresses whose route is fixated, and the script that adds the routes. The commands
  themselves are input and output.
\<close>

section \<open>Blocked ranges\<close>

text \<open>The loop of \<open>get_block_ranges_v4\<close> and \<open>get_block_ranges_v6\<close>, which differ in the width only.\<close>

fun block_loop :: "'a::len word \<Rightarrow> 'a word list \<Rightarrow> ('a word \<times> 'a word) list" where
  "block_loop previous [] = [(previous, - 1)]"
| "block_loop previous (server # servers) =
     (if previous < server then [(previous, server - 1)] else []) @
     (if server = - 1 then [] else block_loop (server + 1) servers)"

definition get_block_ranges_v4 :: "u32 list \<Rightarrow> (ip_addr \<times> ip_addr) list" where
  "get_block_ranges_v4 dns_servers = map (\<lambda>(a, b). (IpV4 a, IpV4 b)) (block_loop 0 dns_servers)"

definition get_block_ranges_v6 :: "u128 list \<Rightarrow> (ip_addr \<times> ip_addr) list" where
  "get_block_ranges_v6 dns_servers = map (\<lambda>(a, b). (IpV6 a, IpV6 b)) (block_loop 0 dns_servers)"

fun v4_of :: "ip_addr \<Rightarrow> u32 list" where
  "v4_of (IpV4 a) = [a]"
| "v4_of (IpV6 a) = []"

fun v6_of :: "ip_addr \<Rightarrow> u128 list" where
  "v6_of (IpV4 a) = []"
| "v6_of (IpV6 a) = [a]"

text \<open>The lists are sorted and deduplicated before the ranges are computed.\<close>

definition dns_block_ranges :: "ip_addr list \<Rightarrow> (ip_addr \<times> ip_addr) list" where
  "dns_block_ranges dns =
     (let dns_servers_v4 = remdups_adj (sort (concat (map v4_of dns)));
          dns_servers_v6 = remdups_adj (sort (concat (map v6_of dns)))
      in get_block_ranges_v4 dns_servers_v4 @ get_block_ranges_v6 dns_servers_v6)"

section \<open>Routes\<close>

text \<open>A default route becomes two routes, which are more specific than a default route of the system.\<close>

definition split_route :: "ip_addr \<times> nat \<Rightarrow> (ip_addr \<times> nat) list" where
  "split_route r =
     (case r of (a, p) \<Rightarrow>
        if p = 0 then
          (case a of
             IpV4 _ \<Rightarrow> [(IpV4 0, 1), (IpV4 0x80000001, 1)]
           | IpV6 _ \<Rightarrow> [(IpV6 0, 1), (IpV6 (push_bit 127 1), 1)])
        else [(a, p)])"

definition peer_routes :: "socket_addr peer_config \<Rightarrow> (ip_addr \<times> nat) list" where
  "peer_routes p = concat (map split_route (sorted_list_of_set (pc_allowed_ips p)))"

definition config_routes :: "socket_addr config \<Rightarrow> (ip_addr \<times> nat) list" where
  "config_routes c = concat (map peer_routes (cf_peers c))"

fun addr_ip :: "socket_addr \<Rightarrow> ip_addr" where
  "addr_ip (SockV4 a p) = IpV4 a"
| "addr_ip (SockV6 a) = IpV6 (sa6_ip a)"

text \<open>The address whose route is fixated for a peer, with the length of its host route.\<close>

definition fixated_route :: "socket_addr peer_config \<Rightarrow> (ip_addr \<times> nat) option" where
  "fixated_route p =
     map_option (\<lambda>e. let e = addr_ip e in (e, case e of IpV4 _ \<Rightarrow> 32 | IpV6 _ \<Rightarrow> 128))
       (case pc_true_endpoint p of Some e \<Rightarrow> Some e | None \<Rightarrow> pc_endpoint p)"

text \<open>The lines of the script of \<open>add_routes\<close>, which masks the addresses.\<close>

definition route_script :: "text_ext \<Rightarrow> string \<Rightarrow> (ip_addr \<times> nat) list \<Rightarrow> string list" where
  "route_script tx interface_name rs =
     map (\<lambda>(address, prefix_len).
       let address = (case address of
             IpV4 a4 \<Rightarrow> IpV4 (a4 AND to_mask prefix_len)
           | IpV6 a6 \<Rightarrow> IpV6 (a6 AND to_mask prefix_len))
       in ''New-NetRoute -DestinationPrefix '' @ tx_ip_fmt tx address @ ''/'' @ dec prefix_len @
          '' -InterfaceAlias '' @ interface_name) rs"

text \<open>The network mask of an address of the interface.\<close>

definition interface_mask :: "ip_addr \<times> nat \<Rightarrow> ip_addr" where
  "interface_mask r =
     (case r of (address, prefix_len) \<Rightarrow>
        (case address of IpV4 _ \<Rightarrow> IpV4 (to_mask prefix_len) | IpV6 _ \<Rightarrow> IpV6 (to_mask prefix_len)))"

section \<open>Properties\<close>

lemma block_loop_complement:
  fixes x :: "'a::len word"
  shows "sorted_wrt (<) servers \<Longrightarrow> (\<And>s. s \<in> set servers \<Longrightarrow> previous \<le> s) \<Longrightarrow>
    (\<exists>(a, b) \<in> set (block_loop previous servers). a \<le> x \<and> x \<le> b) \<longleftrightarrow> previous \<le> x \<and> x \<notin> set servers"
proof (induction servers arbitrary: previous)
  case (Cons s servers)
  have before: "(\<exists>(a, b) \<in> set (if previous < s then [(previous, s - 1)] else []). a \<le> x \<and> x \<le> b) \<longleftrightarrow> previous \<le> x \<and> x < s"
  proof (cases "previous < s")
    case True
    then have "s \<noteq> 0" by auto
    then have "unat (s - 1) = unat s - 1" "0 < unat s" by (simp_all add: unat_minus_one unat_gt_0)
    then have "x \<le> s - 1 \<longleftrightarrow> x < s" by (simp add: word_le_nat_alt word_less_nat_alt) arith
    then show ?thesis using True by simp
  qed auto
  show ?case
  proof (cases "s = - 1")
    case True
    have "servers = []"
    proof (rule ccontr)
      assume "servers \<noteq> []"
      then obtain t where "t \<in> set servers" by (cases servers) auto
      then have "s < t" using Cons.prems(1) by simp
      then show False using True word_n1_ge [of t] by simp
    qed
    moreover have "x < s \<longleftrightarrow> x \<noteq> s" using True word_n1_ge [of x] by (auto simp: order_less_le)
    ultimately show ?thesis using before True by simp
  next
    case False
    have next_le: "s + 1 \<le> y \<longleftrightarrow> s < y" for y :: "'a word"
    proof -
      have "1 + s \<noteq> 0" using False by (metis add.commute add_eq_0_iff)
      from unatSuc [OF this] show ?thesis by (simp add: word_le_nat_alt word_less_nat_alt add.commute [of s] Suc_le_eq)
    qed
    have "(\<exists>(a, b) \<in> set (block_loop (s + 1) servers). a \<le> x \<and> x \<le> b) \<longleftrightarrow> s + 1 \<le> x \<and> x \<notin> set servers"
      using Cons.prems(1) next_le by (intro Cons.IH) auto
    then have "(\<exists>(a, b) \<in> set (block_loop previous (s # servers)). a \<le> x \<and> x \<le> b) \<longleftrightarrow>
        (previous \<le> x \<and> x < s) \<or> (s < x \<and> x \<notin> set servers)"
      using before next_le [of x] False by (simp add: bex_Un)
    moreover have "x < s \<Longrightarrow> x \<notin> set servers" using Cons.prems(1) by auto
    moreover have "previous \<le> s" using Cons.prems(2) by simp
    ultimately show ?thesis by auto
  qed
qed simp

lemma remdups_adj_sorted:
  fixes xs :: "'a::linorder list"
  shows "sorted xs \<Longrightarrow> sorted_wrt (<) (remdups_adj xs)"
proof (induction xs rule: remdups_adj.induct)
  case (3 x y xs)
  then have "x < z" if "x \<noteq> y" "z \<in> set (y # xs)" for z using that by fastforce
  then show ?case using 3 by (auto simp: remdups_adj_set)
qed simp_all

text \<open>
  C36: The firewall rules block DNS traffic to every address except the configured servers: an address,
  of either family, is in one of the ranges exactly when it is not in the list.
\<close>

theorem dns_block_complement:
  "(\<exists>(a, b) \<in> set (dns_block_ranges dns).
      (case x of
         IpV4 y \<Rightarrow> (\<exists>a' b'. a = IpV4 a' \<and> b = IpV4 b' \<and> a' \<le> y \<and> y \<le> b')
       | IpV6 y \<Rightarrow> (\<exists>a' b'. a = IpV6 a' \<and> b = IpV6 b' \<and> a' \<le> y \<and> y \<le> b'))) \<longleftrightarrow> x \<notin> set dns"
proof (cases x)
  case (IpV4 y)
  let ?s = "remdups_adj (sort (concat (map v4_of dns)))"
  have "y \<in> set (v4_of a) \<longleftrightarrow> a = IpV4 y" for a by (cases a) auto
  then have "y \<in> set ?s \<longleftrightarrow> x \<in> set dns" using IpV4 by auto
  moreover have "(\<exists>(a, b) \<in> set (block_loop 0 ?s). a \<le> y \<and> y \<le> b) \<longleftrightarrow> y \<notin> set ?s"
    using block_loop_complement [of ?s 0 y] remdups_adj_sorted [of "sort (concat (map v4_of dns))"] by simp
  ultimately show ?thesis
    by (force simp: IpV4 dns_block_ranges_def Let_def get_block_ranges_v4_def get_block_ranges_v6_def bex_Un)
next
  case (IpV6 y)
  let ?s = "remdups_adj (sort (concat (map v6_of dns)))"
  have "y \<in> set (v6_of a) \<longleftrightarrow> a = IpV6 y" for a by (cases a) auto
  then have "y \<in> set ?s \<longleftrightarrow> x \<in> set dns" using IpV6 by auto
  moreover have "(\<exists>(a, b) \<in> set (block_loop 0 ?s). a \<le> y \<and> y \<le> b) \<longleftrightarrow> y \<notin> set ?s"
    using block_loop_complement [of ?s 0 y] remdups_adj_sorted [of "sort (concat (map v6_of dns))"] by simp
  ultimately show ?thesis
    by (force simp: IpV6 dns_block_ranges_def Let_def get_block_ranges_v4_def get_block_ranges_v6_def bex_Un)
qed

text \<open>A route covers the addresses of its family that share its prefix.\<close>

fun covers :: "ip_addr \<times> nat \<Rightarrow> ip_addr \<Rightarrow> bool" where
  "covers (IpV4 a, l) (IpV4 x) \<longleftrightarrow> x AND to_mask l = a AND to_mask l"
| "covers (IpV6 a, l) (IpV6 x) \<longleftrightarrow> x AND to_mask l = a AND to_mask l"
| "covers _ _ \<longleftrightarrow> False"

lemma to_mask_0: "to_mask 0 = (0 :: 'a::len word)"
  by (simp add: to_mask_def)

text \<open>The two routes of length one cover every address of the family.\<close>

lemma mask_1:
  fixes x t :: "'a::len word"
  assumes "\<And>i. i < LENGTH('a) \<Longrightarrow> bit (t AND to_mask 1) i \<longleftrightarrow> i = LENGTH('a) - 1"
  shows "x AND to_mask 1 = 0 AND to_mask 1 \<or> x AND to_mask 1 = t AND to_mask 1"
proof -
  have "LENGTH('a) > 0" by simp
  have m: "bit (to_mask 1 :: 'a word) i \<longleftrightarrow> i = LENGTH('a) - 1" if "i < LENGTH('a)" for i
    using that \<open>LENGTH('a) > 0\<close> by (auto simp: to_mask_def bit_simps)
  show ?thesis
  proof (cases "bit x (LENGTH('a) - 1)")
    case True
    have "x AND to_mask 1 = t AND to_mask 1"
      by (rule bit_word_eqI) (use True m assms in \<open>auto simp: bit_and_iff\<close>)
    then show ?thesis ..
  next
    case False
    have "x AND to_mask 1 = 0 AND to_mask 1"
      by (rule bit_word_eqI) (use False m in \<open>auto simp: bit_and_iff\<close>)
    then show ?thesis ..
  qed
qed

lemma split_route_covers:
  "(\<exists>r \<in> set (split_route k). covers r x) \<longleftrightarrow> covers k x"
proof (cases "snd k = 0")
  case True
  obtain a where k: "k = (a, 0)" using True by (cases k) simp
  have t4: "bit (0x80000001 AND to_mask 1 :: u32) i \<longleftrightarrow> i = LENGTH(32) - 1" if "i < LENGTH(32)" for i
  proof -
    have eq: "(0x80000001 AND to_mask 1 :: u32) = push_bit 31 1" by (simp add: to_mask_def mask_eq_exp_minus_1)
    have "bit (push_bit 31 1 :: u32) i \<longleftrightarrow> i = 31"
      using that by (simp only: bit_push_bit_iff bit_1_iff possible_bit_word) auto
    then show ?thesis unfolding eq by simp
  qed
  have t6: "bit (push_bit 127 1 AND to_mask 1 :: u128) i \<longleftrightarrow> i = LENGTH(128) - 1" if "i < LENGTH(128)" for i
    using that by (auto simp: to_mask_def bit_simps)
  show ?thesis
  proof (cases a; cases x)
    fix y z assume "a = IpV4 y" "x = IpV4 z"
    then show ?thesis using mask_1 [OF t4, of z] by (simp add: k split_route_def to_mask_0)
  next
    fix y z assume "a = IpV6 y" "x = IpV6 z"
    then show ?thesis using mask_1 [OF t6, of z] by (simp add: k split_route_def to_mask_0)
  qed (simp_all add: k split_route_def)
qed (cases k, simp add: split_route_def)

text \<open>
  C37: The routes that are added for a configuration lead into the tunnel exactly the addresses that
  some peer may receive: splitting the default routes loses no address and adds none.
\<close>

theorem config_routes_cover:
  assumes "\<forall>p \<in> set (cf_peers c). finite (pc_allowed_ips p)"
  shows "(\<exists>r \<in> set (config_routes c). covers r x) \<longleftrightarrow> (\<exists>p \<in> set (cf_peers c). \<exists>k \<in> pc_allowed_ips p. covers k x)"
proof -
  have "(\<exists>r \<in> set (peer_routes p). covers r x) \<longleftrightarrow> (\<exists>k \<in> pc_allowed_ips p. covers k x)" if "p \<in> set (cf_peers c)" for p
  proof -
    have "set (peer_routes p) = (\<Union>k \<in> pc_allowed_ips p. set (split_route k))" using assms that by (simp add: peer_routes_def)
    then show ?thesis by (simp add: split_route_covers)
  qed
  moreover have "set (config_routes c) = (\<Union>p \<in> set (cf_peers c). set (peer_routes p))" by (simp add: config_routes_def)
  ultimately show ?thesis by simp
qed

theorem config_routes_cover_witness:
  "\<exists>r \<in> set (config_routes example_config). covers r (IpV6 5)"
  by (subst config_routes_cover) (simp_all add: example_config_def to_mask_0)

end
