(* ===== verification/Tun_Ring.thy ===== *)
theory Tun_Ring
  imports Prelude
begin

text \<open>
  The rings of the Windows tunnel driver: \<open>src/src/wireguard/tun_windows/ring.rs\<close>. A ring is a byte
  array with a head and a tail, both 32-bit and shared with the driver; a packet is stored as its
  length and its bytes, padded to four bytes, and may run past the capacity into a reserve of 64 KiB.
  Errors are the kinds of \<open>io::Error\<close>; \<open>RPanic\<close> is a slice out of range. The interface
  \<open>bounded_fifo\<close> says what a queue with a capacity promises, and the ring is an interpretation of it.
\<close>

section \<open>The code\<close>

definition TUN_RING_CAPACITY :: nat where "TUN_RING_CAPACITY = 128 * 1024"

record tun_ring =
  tr_head :: u32
  tr_tail :: u32
  tr_alertable :: "32 word"
  tr_data :: bytes

datatype ring_error = WouldBlock | InvalidData | InvalidInput

definition align_4 :: "u32 \<Rightarrow> u32" where
  "align_4 len = (len + 0b11) AND NOT 0b11"

definition ring_new :: tun_ring where
  "ring_new = \<lparr>tr_head = 0, tr_tail = 0, tr_alertable = 0, tr_data = replicate (TUN_RING_CAPACITY + 0x10000) 0\<rparr>"

text \<open>Reading into a buffer of the given length: the bytes copied.\<close>

definition ring_read :: "nat \<Rightarrow> tun_ring \<Rightarrow> (ring_error, bytes \<times> tun_ring) rust_result" where
  "ring_read buf_len r =
     (let head = tr_head r; tail = tr_tail r in
      if head = tail then RErr WouldBlock
      else if of_nat TUN_RING_CAPACITY \<le> head then RErr InvalidData
      else
        let len = (le_word (slice (unat head) (unat head + 4) (tr_data r)) :: u32) in
        if 0x10000 \<le> len then RErr InvalidData
        else
          let new_head_unmod = head + 4 + align_4 len;
              tail_unmod = (if tail < head then tail + of_nat TUN_RING_CAPACITY else tail)
          in if tail_unmod < new_head_unmod then RErr InvalidData
             else
               let copy_len = min (unat len) buf_len in
               if length (tr_data r) < unat head + 4 + copy_len then RPanic
               else
                 let new_head = new_head_unmod mod of_nat TUN_RING_CAPACITY
                 in ROk (slice (unat head + 4) (unat head + 4 + copy_len) (tr_data r), r\<lparr>tr_head := new_head\<rparr>))"

text \<open>\<open>data[a..].copy_from_slice(xs)\<close> on the part of the array that \<open>xs\<close> fills.\<close>

definition splice :: "nat \<Rightarrow> bytes \<Rightarrow> bytes \<Rightarrow> bytes" where
  "splice a xs d = take a d @ xs @ drop (a + length xs) d"

definition ring_write :: "bytes \<Rightarrow> tun_ring \<Rightarrow> (ring_error, nat \<times> tun_ring) rust_result" where
  "ring_write buf r =
     (let len = length buf in
      if 0x10000 \<le> len then RErr InvalidInput
      else
        let head = tr_head r; tail = tr_tail r in
        if of_nat TUN_RING_CAPACITY \<le> tail then RErr InvalidData
        else
          let head_unmod = (if tail < head then head else head + of_nat TUN_RING_CAPACITY);
              new_tail_unmod = tail + 4 + align_4 (of_nat len)
          in if head_unmod \<le> new_tail_unmod then RErr WouldBlock
             else if length (tr_data r) < unat tail + 4 + len then RPanic
             else
               let new_tail = new_tail_unmod mod of_nat TUN_RING_CAPACITY;
                   data = splice (unat tail) (le_bytes 4 (of_nat len :: u32)) (tr_data r);
                   data = splice (unat tail + 4) buf data
               in ROk (len, r\<lparr>tr_data := data, tr_tail := new_tail\<rparr>))"

text \<open>
  One round of the loop of \<open>TunRegisterRings::read\<close>: \<open>None\<close> is that the task waits for the event of the
  driver and tries again. Writing drops the packet when the ring is full, and says whether the driver
  is to be woken.
\<close>

definition rings_read_round :: "nat \<Rightarrow> tun_ring \<Rightarrow> (ring_error, bytes \<times> tun_ring) rust_result option \<times> tun_ring" where
  "rings_read_round buf_len send_ring =
     (case ring_read buf_len send_ring of
        RErr WouldBlock \<Rightarrow>
          let send_ring = send_ring\<lparr>tr_alertable := 1\<rparr>
          in (case ring_read buf_len send_ring of
                RErr WouldBlock \<Rightarrow> (None, send_ring\<lparr>tr_alertable := 0\<rparr>)
              | result \<Rightarrow> (Some result, send_ring))
      | result \<Rightarrow> (Some result, send_ring))"

definition rings_write :: "bytes \<Rightarrow> tun_ring \<Rightarrow> (ring_error, nat \<times> bool \<times> tun_ring) rust_result" where
  "rings_write buf receive_ring =
     (case ring_write buf receive_ring of
        RErr WouldBlock \<Rightarrow> ROk (0, False, receive_ring)
      | RErr e \<Rightarrow> RErr e
      | ROk (n, r) \<Rightarrow> ROk (n, tr_alertable r \<noteq> 0, r)
      | RPanic \<Rightarrow> RPanic)"

section \<open>Alignment and the arithmetic of positions\<close>

definition align4 :: "nat \<Rightarrow> nat" where
  "align4 n = (n + 3) div 4 * 4"

lemma unat_align_4:
  assumes "unat len < 0x10000"
  shows "unat (align_4 len) = align4 (unat len)"
proof -
  have sum: "unat (len + 3) = unat len + 3" using assms by (intro unat_add_small [THEN trans]) simp_all
  have "align_4 len = (len + 3) AND NOT (mask 2)" by (simp add: align_4_def mask_eq_exp_minus_1)
  also have "\<dots> = push_bit 2 (drop_bit 2 (len + 3))"
  proof (rule bit_word_eqI)
    fix n assume "n < LENGTH(32)"
    moreover have "2 \<le> n \<Longrightarrow> 2 + (n - 2) = n" by simp
    ultimately show "bit ((len + 3) AND NOT (mask 2)) n \<longleftrightarrow> bit (push_bit 2 (drop_bit 2 (len + 3))) n"
      by (auto simp: bit_and_iff bit_not_iff bit_mask_iff bit_push_bit_iff bit_drop_bit_eq simp del: add_2_eq_Suc add_2_eq_Suc')
  qed
  finally have "unat (align_4 len) = unat (push_bit 2 (drop_bit 2 (len + 3)))" by (rule arg_cong)
  also have "\<dots> = take_bit 32 (push_bit 2 (unat (drop_bit 2 (len + 3))))" by (simp only: unsigned_push_bit_eq) simp
  also have "\<dots> = unat (len + 3) div 4 * 4 mod 2 ^ 32"
    by (simp only: take_bit_eq_mod push_bit_eq_mult unat_drop_bit_div) simp
  finally show ?thesis using sum assms by (simp add: align4_def)
qed

lemma align4_bounds: "n \<le> align4 n" "align4 n \<le> n + 3" "4 dvd align4 n"
  by (auto simp: align4_def)

abbreviation (input) CAP :: nat where "CAP \<equiv> 131072"

lemma capacity: "TUN_RING_CAPACITY = 131072"
  by (simp add: TUN_RING_CAPACITY_def)

lemma capacity_word: "(of_nat TUN_RING_CAPACITY :: u32) = 131072"
  by (simp add: capacity)

lemma mod_once: "h < CAP \<Longrightarrow> k \<le> CAP \<Longrightarrow> (h + k) mod CAP = (if h + k < CAP then h + k else h + k - CAP)"
  by (simp add: mod_if)

lemma aligned_room: "4 dvd p \<Longrightarrow> p < CAP \<Longrightarrow> p + 4 \<le> CAP"
  by (elim dvdE) simp

text \<open>Two packets at different offsets do not touch, whether or not one of them wraps.\<close>

lemma apart:
  assumes "h < CAP" "k + s \<le> u" "u + n \<le> CAP" "0 < n"
  shows "(h + k) mod CAP + s \<le> (h + u) mod CAP \<or> (h + u) mod CAP + n \<le> (h + k) mod CAP"
  using assms by (simp add: mod_once) arith

section \<open>Slices and splices\<close>

lemma length_splice [simp]: "a + length xs \<le> length d \<Longrightarrow> length (splice a xs d) = length d"
  by (simp add: splice_def)

lemma splice_same: "a + length xs \<le> length d \<Longrightarrow> slice a (a + length xs) (splice a xs d) = xs"
  by (simp add: splice_def slice_def)

lemma splice_other:
  assumes "b \<le> q \<or> q + length xs \<le> a" "b \<le> length d" "q + length xs \<le> length d"
  shows "slice a b (splice q xs d) = slice a b d"
proof (rule nth_equalityI)
  show "length (slice a b (splice q xs d)) = length (slice a b d)" using assms by (simp add: slice_def)
  fix i assume "i < length (slice a b (splice q xs d))"
  then have "i < b - a" "a + i < length d" using assms by (simp_all add: slice_def)
  then show "slice a b (splice q xs d) ! i = slice a b d ! i"
    using assms by (auto simp: slice_def splice_def nth_append)
qed

section \<open>The contents of a ring\<close>

definition packet_size :: "bytes \<Rightarrow> nat" where
  "packet_size x = 4 + align4 (length x)"

definition used :: "bytes list \<Rightarrow> nat" where
  "used ps = sum_list (map packet_size ps)"

text \<open>The packets from an offset of the head on.\<close>

fun stored :: "bytes \<Rightarrow> nat \<Rightarrow> nat \<Rightarrow> bytes list \<Rightarrow> bool" where
  "stored d h k [] \<longleftrightarrow> True"
| "stored d h k (x # xs) \<longleftrightarrow>
     (let p = (h + k) mod CAP in
      length x < 0x10000 \<and> slice p (p + 4) d = le_bytes 4 (of_nat (length x) :: u32) \<and>
      slice (p + 4) (p + 4 + length x) d = x \<and> stored d h (k + packet_size x) xs)"

definition ring_inv :: "tun_ring \<Rightarrow> bytes list \<Rightarrow> bool" where
  "ring_inv r ps \<longleftrightarrow> length (tr_data r) = CAP + 0x10000 \<and> unat (tr_head r) < CAP \<and> unat (tr_tail r) < CAP \<and>
     4 dvd unat (tr_head r) \<and> 4 dvd unat (tr_tail r) \<and> used ps < CAP \<and>
     unat (tr_tail r) = (unat (tr_head r) + used ps) mod CAP \<and> stored (tr_data r) (unat (tr_head r)) 0 ps"

lemma used_simps [simp]: "used [] = 0" "used (x # xs) = packet_size x + used xs" "used (xs @ ys) = used xs + used ys"
  by (simp_all add: used_def)

lemma packet_size_bounds: "length x < 0x10000 \<Longrightarrow> packet_size x \<le> 0x10004" "4 + length x \<le> packet_size x" "4 dvd packet_size x" "0 < packet_size x"
proof -
  show "4 + length x \<le> packet_size x" "4 dvd packet_size x" "0 < packet_size x"
    using align4_bounds [of "length x"] by (simp_all add: packet_size_def)
  show "length x < 0x10000 \<Longrightarrow> packet_size x \<le> 0x10004" by (simp add: packet_size_def align4_def)
qed

lemma ring_new_inv: "ring_inv ring_new []"
  by (simp add: ring_inv_def ring_new_def capacity)

text \<open>The head moves over the first packet.\<close>

lemma stored_shift: "stored d h (s + k) xs \<Longrightarrow> stored d ((h + s) mod CAP) k xs"
proof (induction xs arbitrary: k)
  case (Cons x xs)
  have "((h + s) mod CAP + k) mod CAP = (h + (s + k)) mod CAP" by (metis add.assoc mod_add_left_eq)
  then show ?case using Cons by (simp add: Let_def add.assoc)
qed simp

text \<open>Writing behind the stored packets leaves them.\<close>

lemma stored_splice:
  assumes "h < CAP" "4 dvd h" "length d = CAP + 0x10000" "length xs \<le> n" "u + n \<le> CAP" "0 < n" "(h + u) mod CAP + length xs \<le> length d"
  shows "stored d h k ps \<Longrightarrow> 4 dvd k \<Longrightarrow> k + used ps \<le> u \<Longrightarrow> stored (splice ((h + u) mod CAP) xs d) h k ps"
proof (induction ps arbitrary: k)
  case (Cons x ps)
  let ?p = "(h + k) mod CAP" and ?q = "(h + u) mod CAP"
  have x: "length x < 0x10000" "4 + length x \<le> packet_size x" using Cons.prems(1) packet_size_bounds(2) by (simp_all add: Let_def)
  have "k + (4 + length x) \<le> u" using Cons.prems(3) x(2) by simp
  from apart [OF assms(1) this assms(5,6)] have ap: "?p + 4 + length x \<le> ?q \<or> ?q + length xs \<le> ?p" using assms(4) by linarith
  have "4 dvd ?p" using assms(2) Cons.prems(2) by (simp add: dvd_mod_iff)
  then have "?p + 4 \<le> CAP" by (intro aligned_room) simp_all
  then have "?p + 4 + length x \<le> length d" using assms(3) x(1) by simp
  then have "slice ?p (?p + 4) (splice ?q xs d) = slice ?p (?p + 4) d"
    "slice (?p + 4) (?p + 4 + length x) (splice ?q xs d) = slice (?p + 4) (?p + 4 + length x) d"
    using ap assms(7) by (auto intro!: splice_other)
  moreover have "stored (splice ?q xs d) h (k + packet_size x) ps"
    using Cons.prems by (intro Cons.IH) (auto simp: Let_def packet_size_bounds(3))
  ultimately show ?case using Cons.prems(1) by (simp add: Let_def)
qed simp

lemma stored_append:
  "stored d h k (xs @ ys) \<longleftrightarrow> stored d h k xs \<and> stored d h (k + used xs) ys"
  by (induction xs arbitrary: k) (auto simp: Let_def add.assoc)

section \<open>Reading and writing\<close>

lemma ring_invD:
  assumes "ring_inv r ps"
  shows "length (tr_data r) = CAP + 0x10000" "unat (tr_head r) < CAP" "unat (tr_tail r) < CAP" "4 dvd unat (tr_head r)" "4 dvd unat (tr_tail r)"
    "used ps < CAP" "unat (tr_tail r) = (unat (tr_head r) + used ps) mod CAP" "stored (tr_data r) (unat (tr_head r)) 0 ps"
  using assms unfolding ring_inv_def by blast+

lemma ring_read_empty: "ring_inv r [] \<Longrightarrow> ring_read n r = RErr WouldBlock"
  by (auto simp: ring_inv_def ring_read_def Let_def word_unat_eq_iff)

lemma ring_read_packet:
  assumes inv: "ring_inv r (x # ps)"
  shows "\<exists>r'. ring_read n r = ROk (take n x, r') \<and> ring_inv r' ps"
proof -
  note r = ring_invD [OF inv]
  let ?h = "unat (tr_head r)" and ?s = "packet_size x"
  have x: "length x < 0x10000" "slice ?h (?h + 4) (tr_data r) = le_bytes 4 (of_nat (length x) :: u32)"
    "slice (?h + 4) (?h + 4 + length x) (tr_data r) = x" "stored (tr_data r) ?h ?s ps"
    using r(2,8) by (simp_all add: Let_def)
  note size = packet_size_bounds(1) [OF x(1)] packet_size_bounds(2-4) [of x]
  have tail: "unat (tr_tail r) = (if ?h + ?s + used ps < CAP then ?h + ?s + used ps else ?h + ?s + used ps - CAP)"
    using r(2,6,7) mod_once [of ?h "?s + used ps"] by (simp add: add.assoc)
  have r6: "?s + used ps < CAP" using r(6) by simp
  have ne: "tr_head r \<noteq> tr_tail r"
  proof
    assume "tr_head r = tr_tail r"
    then have "unat (tr_tail r) = ?h" by simp
    then show False using tail r6 size(4) r(2) by (cases "?h + ?s + used ps < CAP") simp_all
  qed
  have len: "le_word (slice ?h (?h + 4) (tr_data r)) = (of_nat (length x) :: u32)" unfolding x(2) by (rule le_word_bytes) simp
  have ulen: "unat (of_nat (length x) :: u32) = length x" using x(1) by (simp add: unsigned_of_nat take_bit_nat_eq_self)
  have al: "unat (align_4 (of_nat (length x))) = align4 (length x)" using unat_align_4 [of "of_nat (length x)"] ulen x(1) by simp
  have head4: "unat (tr_head r + 4) = ?h + 4" using r(2) by (intro unat_add_small [THEN trans]) simp_all
  have new: "unat (tr_head r + 4 + align_4 (of_nat (length x))) = ?h + ?s"
    using r(2) size(1) al head4 by (intro unat_add_small [THEN trans]) (simp_all add: packet_size_def)
  have tailC: "unat (tr_tail r + 131072) = unat (tr_tail r) + CAP" using r(3) by (intro unat_add_small [THEN trans]) simp_all
  have small: "\<not> 131072 \<le> tr_head r" "\<not> 0x10000 \<le> (of_nat (length x) :: u32)"
    using r(2) x(1) ulen by (simp_all add: word_le_nat_alt)
  have fits: "\<not> (if tr_tail r < tr_head r then tr_tail r + 131072 else tr_tail r) < tr_head r + 4 + align_4 (of_nat (length x))"
    using tail new tailC r(2,6) by (auto simp: word_less_nat_alt)
  have "?h + 4 \<le> CAP" by (rule aligned_room [OF r(4,2)])
  then have room: "\<not> length (tr_data r) < ?h + 4 + min (length x) n" using r(1) x(1) by simp
  have copy: "slice (?h + 4) (?h + 4 + min (length x) n) (tr_data r) = take n x"
    using arg_cong [OF x(3), of "take n"] by (simp add: slice_def min.commute take_take)
  let ?r' = "r\<lparr>tr_head := (tr_head r + 4 + align_4 (of_nat (length x))) mod 131072\<rparr>"
  have uh: "unat ((tr_head r + 4 + align_4 (of_nat (length x))) mod 131072) = (?h + ?s) mod CAP"
    by (simp add: unat_mod new)
  have "ring_read n r = ROk (take n x, ?r')"
    using ne small fits room copy ulen
    unfolding ring_read_def Let_def capacity_word len by (simp split del: if_split)
  moreover have "ring_inv ?r' ps"
  proof -
    have "stored (tr_data r) ((?h + ?s) mod CAP) 0 ps" using stored_shift [of "tr_data r" ?h ?s 0 ps] x(4) by simp
    moreover have "unat (tr_tail r) = ((?h + ?s) mod CAP + used ps) mod CAP"
      using r(7) by (simp add: mod_add_left_eq add.assoc)
    moreover have "4 dvd (?h + ?s) mod CAP" using r(4) size(3) by (simp add: dvd_mod_iff)
    ultimately show ?thesis using r(1,3,5,6) by (simp add: ring_inv_def uh)
  qed
  ultimately show ?thesis by blast
qed

lemma ring_write_large: "0x10000 \<le> length x \<Longrightarrow> ring_write x r = RErr InvalidInput"
  by (simp add: ring_write_def)

lemma ring_write_packet:
  assumes inv: "ring_inv r ps" and len: "length x < 0x10000"
  shows "if used ps + packet_size x < CAP
    then \<exists>r'. ring_write x r = ROk (length x, r') \<and> ring_inv r' (ps @ [x]) \<and> tr_alertable r' = tr_alertable r
    else ring_write x r = RErr WouldBlock"
proof -
  note r = ring_invD [OF inv]
  let ?h = "unat (tr_head r)" and ?t = "unat (tr_tail r)" and ?s = "packet_size x"
  note size = packet_size_bounds(1) [OF len] packet_size_bounds(2-4) [of x]
  have tail: "?t = (if ?h + used ps < CAP then ?h + used ps else ?h + used ps - CAP)"
    using r(2,6,7) mod_once [of ?h "used ps"] by simp
  have ulen: "unat (of_nat (length x) :: u32) = length x" using len by (simp add: unsigned_of_nat take_bit_nat_eq_self)
  have al: "unat (align_4 (of_nat (length x))) = align4 (length x)" using unat_align_4 [of "of_nat (length x)"] ulen len by simp
  have tail4: "unat (tr_tail r + 4) = ?t + 4" using r(3) by (intro unat_add_small [THEN trans]) simp_all
  have new: "unat (tr_tail r + 4 + align_4 (of_nat (length x))) = ?t + ?s"
    using r(3) size(1) al tail4 by (intro unat_add_small [THEN trans]) (simp_all add: packet_size_def)
  have headC: "unat (tr_head r + 131072) = ?h + CAP" using r(2) by (intro unat_add_small [THEN trans]) simp_all
  have small: "\<not> 131072 \<le> tr_tail r" using r(3) by (simp add: word_le_nat_alt)
  have full: "(if tr_tail r < tr_head r then tr_head r else tr_head r + 131072) \<le> tr_tail r + 4 + align_4 (of_nat (length x)) \<longleftrightarrow>
      CAP \<le> used ps + ?s"
    using tail new headC r(2,6) by (auto simp: word_less_nat_alt word_le_nat_alt)
  have "?t + 4 \<le> CAP" by (rule aligned_room [OF r(5,3)])
  then have room: "?t + 4 + length x \<le> length (tr_data r)" using r(1) len by simp
  show ?thesis
  proof (cases "used ps + ?s < CAP")
    case False
    then show ?thesis using small full len unfolding ring_write_def Let_def capacity_word by (simp split del: if_split)
  next
    case True
    let ?d1 = "splice ?t (le_bytes 4 (of_nat (length x) :: u32)) (tr_data r)"
    let ?d = "splice (?t + 4) x ?d1"
    let ?r' = "r\<lparr>tr_data := ?d, tr_tail := (tr_tail r + 4 + align_4 (of_nat (length x))) mod 131072\<rparr>"
    have run: "ring_write x r = ROk (length x, ?r')"
      using True small full len room unfolding ring_write_def Let_def capacity_word by (simp split del: if_split)
    have l1: "length ?d1 = length (tr_data r)" using room by simp
    have d: "?d = splice ?t (le_bytes 4 (of_nat (length x) :: u32) @ x) (tr_data r)"
      using room by (simp add: splice_def ac_simps)
    have old: "stored ?d ?h 0 ps"
      unfolding d unfolding r(7)
      by (rule stored_splice [OF r(2,4,1), where n = ?s]) (use size True r(8) room in \<open>simp_all add: r(7) [symmetric]\<close>)
    have s1: "slice ?t (?t + 4) ?d = le_bytes 4 (of_nat (length x) :: u32)"
      using splice_other [of "?t + 4" "?t + 4" x ?t ?d1] splice_same [of ?t "le_bytes 4 (of_nat (length x) :: u32)" "tr_data r"] room l1
      by simp
    have s2: "slice (?t + 4) (?t + 4 + length x) ?d = x" using splice_same [of "?t + 4" x ?d1] room l1 by simp
    have ut: "unat ((tr_tail r + 4 + align_4 (of_nat (length x))) mod 131072) = (?t + ?s) mod CAP" by (simp add: unat_mod new)
    have "stored ?d ?h 0 (ps @ [x])"
      using old s1 s2 len by (simp add: stored_append Let_def r(7) [symmetric])
    moreover have "(?t + ?s) mod CAP = (?h + (used ps + ?s)) mod CAP" by (simp add: r(7) mod_add_left_eq add.assoc)
    moreover have "4 dvd (?t + ?s) mod CAP" using r(5) size(3) by (simp add: dvd_mod_iff)
    moreover have "length ?d = CAP + 0x10000" using room l1 r(1) by simp
    ultimately have "ring_inv ?r' (ps @ [x])" using r(2,4) True by (simp add: ring_inv_def ut)
    then show ?thesis using run True by simp
  qed
qed

section \<open>The interface of a bounded queue\<close>

text \<open>
  What the users of a ring rely on: a packet that fits is stored behind the others, one that does not
  fit is refused, and packets come out in the order they went in, cut to the buffer.
\<close>

locale bounded_fifo =
  fixes start :: 'q
    and put :: "bytes \<Rightarrow> 'q \<Rightarrow> ('e, nat \<times> 'q) rust_result"
    and get :: "nat \<Rightarrow> 'q \<Rightarrow> ('e, bytes \<times> 'q) rust_result"
    and holds :: "'q \<Rightarrow> bytes list \<Rightarrow> bool"
    and fits :: "bytes list \<Rightarrow> bytes \<Rightarrow> bool"
  assumes start: "holds start []"
    and put_fits: "holds q xs \<Longrightarrow> fits xs x \<Longrightarrow> \<exists>q'. put x q = ROk (length x, q') \<and> holds q' (xs @ [x])"
    and put_refused: "holds q xs \<Longrightarrow> \<not> fits xs x \<Longrightarrow> \<exists>e. put x q = RErr e"
    and get_empty: "holds q [] \<Longrightarrow> \<exists>e. get n q = RErr e"
    and get_first: "holds q (x # xs) \<Longrightarrow> \<exists>q'. get n q = ROk (take n x, q') \<and> holds q' xs"

datatype fifo_op = Put bytes | Get nat

text \<open>Running operations: the packets accepted, those read with the buffer they were read into, and the queue; \<open>None\<close> is a panic.\<close>

fun fifo_run :: "(bytes \<Rightarrow> 'q \<Rightarrow> ('e, nat \<times> 'q) rust_result) \<Rightarrow> (nat \<Rightarrow> 'q \<Rightarrow> ('e, bytes \<times> 'q) rust_result) \<Rightarrow>
    fifo_op list \<Rightarrow> 'q \<Rightarrow> (bytes list \<times> (nat \<times> bytes) list \<times> 'q) option" where
  "fifo_run put get [] q = Some ([], [], q)"
| "fifo_run put get (Put x # ops) q =
     (case put x q of
        ROk (_, q) \<Rightarrow> map_option (\<lambda>(acc, out, q). (x # acc, out, q)) (fifo_run put get ops q)
      | RErr _ \<Rightarrow> fifo_run put get ops q
      | RPanic \<Rightarrow> None)"
| "fifo_run put get (Get n # ops) q =
     (case get n q of
        ROk (y, q) \<Rightarrow> map_option (\<lambda>(acc, out, q). (acc, (n, y) # out, q)) (fifo_run put get ops q)
      | RErr _ \<Rightarrow> fifo_run put get ops q
      | RPanic \<Rightarrow> None)"

context bounded_fifo
begin

lemma run_from:
  "holds q xs \<Longrightarrow> \<exists>acc out q' rest. fifo_run put get ops q = Some (acc, out, q') \<and> holds q' rest \<and>
     length out \<le> length (xs @ acc) \<and> rest = drop (length out) (xs @ acc) \<and>
     map snd out = map2 (\<lambda>(n, _) x. take n x) out (xs @ acc)"
proof (induction ops arbitrary: q xs)
  case Nil
  then show ?case by auto
next
  case (Cons op ops)
  show ?case
  proof (cases op)
    case (Put x)
    show ?thesis
    proof (cases "fits xs x")
      case True
      obtain q1 where q1: "put x q = ROk (length x, q1)" "holds q1 (xs @ [x])" using put_fits [OF Cons.prems True] by blast
      from Cons.IH [OF q1(2)] show ?thesis by (auto simp: Put q1(1))
    next
      case False
      then obtain e where "put x q = RErr e" using put_refused [OF Cons.prems] by blast
      then show ?thesis using Cons.IH [OF Cons.prems] by (simp add: Put)
    qed
  next
    case (Get n)
    show ?thesis
    proof (cases xs)
      case Nil
      then obtain e where "get n q = RErr e" using get_empty Cons.prems by blast
      then show ?thesis using Cons.IH [OF Cons.prems] by (simp add: Get)
    next
      case Cons': (Cons x ys)
      obtain q1 where q1: "get n q = ROk (take n x, q1)" "holds q1 ys" using get_first Cons.prems Cons' by blast
      from Cons.IH [OF q1(2)] show ?thesis by (auto simp: Get q1(1) Cons')
    qed
  qed
qed

end

interpretation ring: bounded_fifo ring_new ring_write ring_read ring_inv
  "\<lambda>xs x. length x < 0x10000 \<and> used xs + packet_size x < CAP"
proof
  show "ring_inv ring_new []" by (rule ring_new_inv)
next
  fix q xs x assume "ring_inv q xs" "length x < 0x10000 \<and> used xs + packet_size x < CAP"
  then show "\<exists>q'. ring_write x q = ROk (length x, q') \<and> ring_inv q' (xs @ [x])" using ring_write_packet [of q xs x] by auto
next
  fix q xs x assume "ring_inv q xs" "\<not> (length x < 0x10000 \<and> used xs + packet_size x < CAP)"
  then show "\<exists>e. ring_write x q = RErr e" using ring_write_packet [of q xs x] ring_write_large [of x q] by (cases "length x < 0x10000") auto
next
  show "ring_inv q [] \<Longrightarrow> \<exists>e. ring_read n q = RErr e" for q n using ring_read_empty by blast
next
  show "ring_inv q (x # xs) \<Longrightarrow> \<exists>q'. ring_read n q = ROk (take n x, q') \<and> ring_inv q' xs" for q x xs n by (rule ring_read_packet)
qed


text \<open>
  The checks of \<open>read\<close> against a driver that corrupts the ring miss one case: with a head that is not
  aligned and close to the capacity, a packet of 65535 bytes passes every check and the copy runs past
  the end of the array, which is a panic.
\<close>

theorem ring_read_unaligned_panics:
  "\<exists>r. length (tr_data r) = CAP + 0x10000 \<and> tr_head r = 131071 \<and> tr_tail r = 70000 \<and> ring_read 65536 r = RPanic"
proof -
  define d where "d = replicate 131071 0 @ [0xff, 0xff, 0, 0] @ replicate 65533 (0 :: u8)"
  define r where "r = \<lparr>tr_head = 131071, tr_tail = 70000, tr_alertable = 0, tr_data = d\<rparr>"
  have len: "length d = 196608" by (simp add: d_def)
  have "slice 131071 (131071 + 4) d = [0xff, 0xff, 0, 0]" by (simp add: d_def slice_def)
  then have l: "(le_word (slice (unat (131071 :: u32)) (unat (131071 :: u32) + 4) d) :: u32) = 0xffff"
    by (simp add: le_word.simps(2))
  have "ring_read 65536 r = RPanic"
    unfolding ring_read_def Let_def r_def tun_ring.simps l capacity_word align_4_def by (simp add: len)
  then show ?thesis by (intro exI [of _ r]) (simp add: r_def len)
qed

end
