(* ===== verification/Cli_Transform.thy ===== *)
theory Cli_Transform
  imports Text_Format
begin

text \<open>
  From \<open>wg\<close> configuration files to TOML: \<open>src/src/cli/transform.rs\<close>. How the crate \<open>toml\<close> writes a
  string and an array of strings is the record \<open>toml_ext\<close>, an argument; \<open>toml_ok\<close> is its documented
  behaviour: a string is quoted, an array is bracketed, and both stay on one line. The
  property is that the conversion is a fixed point: a file that was converted is not changed again.
\<close>

section \<open>Strings of the Rust standard library\<close>

text \<open>ASCII white space of \<open>trim\<close>.\<close>

definition is_space :: "char \<Rightarrow> bool" where
  "is_space c \<longleftrightarrow> c = CHR '' '' \<or> 9 \<le> (of_char c :: nat) \<and> of_char c \<le> (13 :: nat)"

definition trim_start :: "string \<Rightarrow> string" where
  "trim_start s = dropWhile is_space s"

definition trim :: "string \<Rightarrow> string" where
  "trim s = rev (trim_start (rev (trim_start s)))"

text \<open>\<open>lines\<close>: a line that ends with a newline loses one carriage return before it; the text after the last newline is a line if it is not empty.\<close>

definition strip_cr :: "string \<Rightarrow> string" where
  "strip_cr l = (if l \<noteq> [] \<and> last l = CHR 0x0D then butlast l else l)"

fun lines_of :: "string \<Rightarrow> string \<Rightarrow> string list" where
  "lines_of acc [] = (if acc = [] then [] else [acc])"
| "lines_of acc (c # s) = (if c = CHR 0x0A then strip_cr acc # lines_of [] s else lines_of (acc @ [c]) s)"

definition lines :: "string \<Rightarrow> string list" where
  "lines s = lines_of [] s"

text \<open>\<open>split\<close> at a character.\<close>

fun split_at :: "char \<Rightarrow> string \<Rightarrow> string list" where
  "split_at c [] = [[]]"
| "split_at c (x # s) =
     (if x = c then [] # split_at c s
      else (case split_at c s of [] \<Rightarrow> [[x]] | p # ps \<Rightarrow> (x # p) # ps))"

section \<open>The code\<close>

record toml_ext =
  te_string :: "string \<Rightarrow> string"
  te_array :: "string list \<Rightarrow> string"

fun need_transform_lines :: "string list \<Rightarrow> bool" where
  "need_transform_lines [] = True"
| "need_transform_lines (l # ls) =
     (let l = trim l in
      if l = ''[Peer]'' then True
      else if starts_with l ''#'' \<or> starts_with l ''['' then need_transform_lines ls
      else if CHR 0x22 \<in> set l \<or> CHR ''['' \<in> set l then False
      else need_transform_lines ls)"

definition need_transform :: "string \<Rightarrow> bool" where
  "need_transform input = need_transform_lines (lines input)"

definition transform_value :: "toml_ext \<Rightarrow> string \<Rightarrow> string" where
  "transform_value te v =
     (let v = trim v in
      if CHR '','' \<in> set v then te_array te (map trim (split_at CHR '','' v))
      else if list_ex (\<lambda>c. \<not> is_digit c) v then te_string te v
      else v)"

definition transform_line :: "toml_ext \<Rightarrow> string \<Rightarrow> string" where
  "transform_line te l =
     (let l_trim = trim l in
      if l_trim = [] \<or> starts_with l_trim ''[Interface]'' \<or> starts_with l_trim ''#'' then l
      else if starts_with l_trim ''[Peer]'' then ''[[Peer]]''
      else (case splitn2 CHR ''='' l of
              (k, Some v) \<Rightarrow> trim k @ '' = '' @ transform_value te v
            | (k, None) \<Rightarrow> l))"

definition maybe_transform :: "toml_ext \<Rightarrow> string \<Rightarrow> string" where
  "maybe_transform te input =
     (if \<not> need_transform input then input
      else concat (map (\<lambda>l. transform_line te l @ [CHR 0x0A]) (lines input)))"

text \<open>
  The documented behaviour: quoted strings on one line, and brackets around arrays.
\<close>

definition toml_ok :: "toml_ext \<Rightarrow> bool" where
  "toml_ok te \<longleftrightarrow> (\<forall>s. CHR 0x22 \<in> set (te_string te s) \<and> CHR 0x0A \<notin> set (te_string te s) \<and> CHR 0x0D \<notin> set (te_string te s)) \<and>
     (\<forall>ss. CHR ''['' \<in> set (te_array te ss) \<and> CHR 0x0A \<notin> set (te_array te ss) \<and> CHR 0x0D \<notin> set (te_array te ss))"

section \<open>Trimming and lines\<close>

lemma trim_start_sub: "set (trim_start s) \<subseteq> set s"
  unfolding trim_start_def using set_dropWhileD by fastforce

lemma set_trim: "set (trim s) \<subseteq> set s"
  unfolding trim_def using trim_start_sub [of s] trim_start_sub [of "rev (trim_start s)"] by simp

lemma trim_start_id: "s = [] \<or> \<not> is_space (hd s) \<Longrightarrow> trim_start s = s"
  by (cases s) (auto simp: trim_start_def)

lemma trim_start_hd: "trim_start s \<noteq> [] \<Longrightarrow> \<not> is_space (hd (trim_start s))"
  unfolding trim_start_def by (rule hd_dropWhile)

lemma trim_prefix: "\<exists>p. trim_start s = trim s @ p"
  unfolding trim_def trim_start_def [of "rev (trim_start s)"]
  by (metis rev_append rev_rev_ident takeWhile_dropWhile_id)

lemma trim_hd_eq: "trim s \<noteq> [] \<Longrightarrow> trim_start s \<noteq> [] \<and> hd (trim s) = hd (trim_start s)"
  using trim_prefix [of s] by auto

lemma trim_hd: "trim s \<noteq> [] \<Longrightarrow> \<not> is_space (hd (trim s))"
  using trim_hd_eq trim_start_hd by metis

lemma trim_start_mem: "c \<in> set s \<Longrightarrow> \<not> is_space c \<Longrightarrow> c \<in> set (trim_start s)"
  unfolding trim_start_def by (induction s) auto

lemma trim_mem: "c \<in> set s \<Longrightarrow> \<not> is_space c \<Longrightarrow> c \<in> set (trim s)"
  unfolding trim_def using trim_start_mem [of c s] trim_start_mem [of c "rev (trim_start s)"] by simp

lemma trim_start_append: "trim_start s \<noteq> [] \<Longrightarrow> trim_start (s @ t) = trim_start s @ t"
  unfolding trim_start_def by (induction s) (auto split: if_splits)

lemma trim_nonempty: "trim_start s \<noteq> [] \<Longrightarrow> trim s \<noteq> []"
proof
  assume s: "trim_start s \<noteq> []" "trim s = []"
  have "hd (trim_start s) \<in> set s" using s(1) trim_start_sub hd_in_set by blast
  then have "hd (trim_start s) \<in> set (trim s)" using trim_mem trim_start_hd [OF s(1)] by blast
  then show False using s(2) by simp
qed

text \<open>The first character of a line does not depend on what follows its first word.\<close>

lemma trim_append_hd: "trim s \<noteq> [] \<Longrightarrow> trim (s @ t) \<noteq> [] \<and> hd (trim (s @ t)) = hd (trim s)"
proof -
  assume ne: "trim s \<noteq> []"
  then have st: "trim_start s \<noteq> []" using trim_hd_eq by blast
  have app: "trim_start (s @ t) = trim_start s @ t" by (rule trim_start_append [OF st])
  then have "trim (s @ t) \<noteq> []" using trim_nonempty [of "s @ t"] st by simp
  then show ?thesis using trim_hd_eq [of "s @ t"] trim_hd_eq [OF ne] app by simp
qed

lemma trim_last: "trim s \<noteq> [] \<Longrightarrow> \<not> is_space (last (trim s))"
  using trim_start_hd [of "rev (trim_start s)"] by (simp add: trim_def last_rev)

lemma trim_id: "s = [] \<or> (\<not> is_space (hd s) \<and> \<not> is_space (last s)) \<Longrightarrow> trim s = s"
  by (cases "s = []") (simp_all add: trim_def trim_start_id hd_rev)

lemma trim_trim [simp]: "trim (trim s) = trim s"
  using trim_hd [of s] trim_last [of s] by (intro trim_id) blast

lemma lines_of_append:
  "CHR 0x0A \<notin> set l \<Longrightarrow> lines_of acc (l @ CHR 0x0A # s) = strip_cr (acc @ l) # lines_of [] s"
  by (induction l arbitrary: acc) auto

lemma strip_cr_id: "CHR 0x0D \<notin> set l \<Longrightarrow> strip_cr l = l"
  by (metis last_in_set strip_cr_def)

lemma lines_unlines:
  "\<forall>l \<in> set ls. CHR 0x0A \<notin> set l \<and> CHR 0x0D \<notin> set l \<Longrightarrow> lines (concat (map (\<lambda>l. l @ [CHR 0x0A]) ls)) = ls"
  by (induction ls) (simp_all add: lines_def lines_of_append strip_cr_id)

lemma lines_of_no_newline: "CHR 0x0A \<notin> set acc \<Longrightarrow> l \<in> set (lines_of acc s) \<Longrightarrow> CHR 0x0A \<notin> set l"
  by (induction acc s rule: lines_of.induct) (auto simp: strip_cr_def split: if_splits dest: in_set_butlastD)

lemma lines_of_sub: "l \<in> set (lines_of acc s) \<Longrightarrow> set l \<subseteq> set acc \<union> set s"
proof (induction acc s rule: lines_of.induct)
  case (2 acc c s)
  have "set (strip_cr acc) \<subseteq> set acc" by (auto simp: strip_cr_def dest: in_set_butlastD)
  then show ?case using 2 by (auto split: if_splits)
qed (simp split: if_splits)

section \<open>A converted file is not changed\<close>

text \<open>
  Files without carriage returns in which no line that starts with a bracket has an equals sign: every
  section header is alone on its line.
\<close>

definition plain_file :: "string \<Rightarrow> bool" where
  "plain_file s \<longleftrightarrow> CHR 0x0D \<notin> set s \<and> (\<forall>l \<in> set (lines s). starts_with (trim l) ''['' \<longrightarrow> CHR ''='' \<notin> set l)"

lemma starts_with_Cons: "starts_with s [c] \<longleftrightarrow> s \<noteq> [] \<and> hd s = c"
  by (cases s) (auto simp: starts_with_def)

lemma starts_with_longer: "starts_with s (c # p) \<Longrightarrow> s \<noteq> [] \<and> hd s = c"
  by (cases s) (auto simp: starts_with_def)

text \<open>The lines of a key and a value, and what the conversion makes of them.\<close>

lemma splitn2_Some: "splitn2 c l = (k, Some v) \<Longrightarrow> l = k @ c # v \<and> c \<notin> set k"
proof -
  assume s: "splitn2 c l = (k, Some v)"
  then obtain d where d: "dropWhile (\<lambda>x. x \<noteq> c) l = d # v" and k: "k = takeWhile (\<lambda>x. x \<noteq> c) l"
    by (auto simp: splitn2_def split: list.splits)
  have "d = c" using hd_dropWhile [of "\<lambda>x. x \<noteq> c" l] d by simp
  moreover have "l = k @ d # v" using takeWhile_dropWhile_id [of "\<lambda>x. x \<noteq> c" l] by (simp add: k d)
  moreover have "c \<notin> set k" unfolding k using set_takeWhileD by fastforce
  ultimately show ?thesis by simp
qed

lemma digits_no_space: "list_all is_digit v \<Longrightarrow> trim v = v"
proof (rule trim_id)
  assume d: "list_all is_digit v"
  have "\<not> is_space c" if "is_digit c" for c
    using that by (auto simp: is_digit_def is_space_def)
  then show "v = [] \<or> \<not> is_space (hd v) \<and> \<not> is_space (last v)"
    using d by (cases "v = []") (auto simp: list_all_iff)
qed

lemma transform_value_cases:
  assumes "toml_ok te"
  shows "CHR 0x0A \<notin> set (transform_value te v) \<and> CHR 0x0D \<notin> set (transform_value te v) \<and>
    (CHR 0x22 \<in> set (transform_value te v) \<or> CHR ''['' \<in> set (transform_value te v) \<or>
     list_all is_digit (transform_value te v))"
proof -
  have "CHR 0x0A \<notin> set v" "CHR 0x0D \<notin> set v" if "list_all is_digit v" for v
    using that by (auto simp: list_all_iff is_digit_def)
  then show ?thesis
    using assms by (auto simp: transform_value_def toml_ok_def Let_def list_ex_iff list_all_iff)
qed

lemma transform_value_digits: "list_all is_digit v \<Longrightarrow> transform_value te ('' '' @ v) = v"
proof -
  assume d: "list_all is_digit v"
  have "trim ('' '' @ v) = trim v" by (simp add: trim_def trim_start_def is_space_def)
  then have "trim ('' '' @ v) = v" using digits_no_space [OF d] by simp
  moreover have "CHR '','' \<notin> set v" using d by (auto simp: list_all_iff is_digit_def)
  ultimately show ?thesis using d by (auto simp: transform_value_def list_ex_iff list_all_iff)
qed

lemma trim_space: "trim (trim k @ '' '') = trim k"
proof (cases "trim k = []")
  case True
  have "trim '' '' = []" by (simp add: trim_def trim_start_def is_space_def)
  then show ?thesis by (simp only: True append_Nil)
next
  case False
  let ?t = "trim k"
  have 1: "trim_start (?t @ '' '') = ?t @ '' ''" using trim_hd [OF False] False by (intro trim_start_id) simp
  have "trim_start (rev (?t @ '' '')) = trim_start (rev ?t)" by (simp add: trim_start_def is_space_def)
  also have "\<dots> = rev ?t" using trim_last [OF False] False by (intro trim_start_id) (simp add: hd_rev)
  finally show ?thesis using 1 by (simp add: trim_def [of "?t @ '' ''"])
qed

lemma line_key_value:
  assumes te: "toml_ok te" and l: "splitn2 CHR ''='' l = (k, Some v)"
    and start: "\<not> starts_with (trim l) ''[''" "\<not> starts_with (trim l) ''#''" "trim l \<noteq> []"
  defines "l' \<equiv> trim k @ '' = '' @ transform_value te v"
  shows "\<not> starts_with (trim l') ''[''" "\<not> starts_with (trim l') ''#''" "trim l' \<noteq> []"
    and "CHR 0x22 \<notin> set (trim l') \<Longrightarrow> CHR ''['' \<notin> set (trim l') \<Longrightarrow> transform_line te l' = l'"
proof -
  note kv = splitn2_Some [OF l]
  have hd: "trim l' \<noteq> [] \<and> hd (trim l') \<noteq> CHR ''['' \<and> hd (trim l') \<noteq> CHR ''#''"
  proof (cases "trim k = []")
    case True
    then have "trim_start l' = ''= '' @ transform_value te v" by (simp add: l'_def trim_start_def is_space_def)
    then show ?thesis using trim_nonempty [of l'] trim_hd_eq [of l'] by simp
  next
    case False
    have "trim (trim k) \<noteq> []" using False by simp
    then have "trim l' \<noteq> [] \<and> hd (trim l') = hd (trim k)"
      using trim_append_hd [of "trim k" "'' = '' @ transform_value te v"] by (simp add: l'_def)
    moreover have "hd (trim l) = hd (trim k)" using trim_append_hd [OF False, of "CHR ''='' # v"] kv by simp
    ultimately show ?thesis using start by (simp add: starts_with_Cons)
  qed
  then show "\<not> starts_with (trim l') ''[''" "\<not> starts_with (trim l') ''#''" "trim l' \<noteq> []"
    by (simp_all add: starts_with_Cons)
  assume no: "CHR 0x22 \<notin> set (trim l')" "CHR ''['' \<notin> set (trim l')"
  have sub: "set (transform_value te v) \<subseteq> set l'" by (auto simp: l'_def)
  have "\<not> is_space CHR 0x22" "\<not> is_space CHR ''[''" by (simp_all add: is_space_def)
  then have "CHR 0x22 \<notin> set l'" "CHR ''['' \<notin> set l'" using no trim_mem by blast+
  then have "CHR 0x22 \<notin> set (transform_value te v)" "CHR ''['' \<notin> set (transform_value te v)" using sub by blast+
  then have digits: "list_all is_digit (transform_value te v)" using transform_value_cases [OF te, of v] by blast
  have "CHR ''='' \<notin> set (trim k @ '' '')" using kv set_trim [of k] by auto
  then have split: "splitn2 CHR ''='' l' = (trim k @ '' '', Some ('' '' @ transform_value te v))"
    using splitn2_append [of "CHR ''=''" "trim k @ '' ''" "'' '' @ transform_value te v"] by (simp add: l'_def)
  have "\<not> starts_with (trim l') ''[Interface]''" "\<not> starts_with (trim l') ''[Peer]''"
    using hd starts_with_longer [of "trim l'" "CHR ''[''"] by blast+
  then show "transform_line te l' = l'"
    using hd transform_value_digits [OF digits] trim_space
    by (simp add: transform_line_def split starts_with_Cons) (simp add: l'_def)
qed

text \<open>A line of the converted file, read again.\<close>

lemma line_again:
  assumes te: "toml_ok te" and l: "CHR 0x0A \<notin> set l" "CHR 0x0D \<notin> set l"
    and plain: "starts_with (trim l) ''['' \<longrightarrow> CHR ''='' \<notin> set l"
  defines "l' \<equiv> transform_line te l"
  shows "CHR 0x0A \<notin> set l' \<and> CHR 0x0D \<notin> set l' \<and> trim l' \<noteq> ''[Peer]'' \<and>
    (starts_with (trim l') ''#'' \<or> starts_with (trim l') ''['' \<or> (CHR 0x22 \<notin> set (trim l') \<and> CHR ''['' \<notin> set (trim l')) \<longrightarrow>
       transform_line te l' = l')"
proof -
  have peer: "starts_with ''[Peer]'' ''[Peer]''" "\<not> starts_with ''[Peer]'' ''[Interface]''" "\<not> starts_with ''[Peer]'' ''#''"
    by (simp_all add: starts_with_def)
  have peers: "trim ''[[Peer]]'' = ''[[Peer]]''" by (simp add: trim_def trim_start_def is_space_def)
  have peers_fixed: "transform_line te ''[[Peer]]'' = ''[[Peer]]''"
    by (simp add: transform_line_def peers starts_with_def splitn2_def Let_def)
  consider (same) "trim l = [] \<or> starts_with (trim l) ''[Interface]'' \<or> starts_with (trim l) ''#''"
    | (peer) "\<not> (trim l = [] \<or> starts_with (trim l) ''[Interface]'' \<or> starts_with (trim l) ''#'')" "starts_with (trim l) ''[Peer]''"
    | (line) "\<not> (trim l = [] \<or> starts_with (trim l) ''[Interface]'' \<or> starts_with (trim l) ''#'')" "\<not> starts_with (trim l) ''[Peer]''"
    by blast
  then show ?thesis
  proof cases
    case same
    then have l': "l' = l" by (simp add: l'_def transform_line_def Let_def)
    have "trim l \<noteq> ''[Peer]''" using same peer by auto
    moreover have "transform_line te l = l" using same by (simp add: transform_line_def Let_def)
    ultimately show ?thesis using l by (simp add: l')
  next
    case peer
    then have l': "l' = ''[[Peer]]''" by (simp add: l'_def transform_line_def Let_def)
    show ?thesis unfolding l' peers peers_fixed by simp
  next
    case line
    then have body: "l' = (case splitn2 CHR ''='' l of (k, Some v) \<Rightarrow> trim k @ '' = '' @ transform_value te v | (k, None) \<Rightarrow> l)"
      by (simp add: l'_def transform_line_def Let_def split: option.split prod.split)
    show ?thesis
    proof (cases "splitn2 CHR ''='' l")
      case (Pair k vo)
      show ?thesis
      proof (cases vo)
        case None
        then have l': "l' = l" using body Pair by simp
        have "trim l \<noteq> ''[Peer]''" using line(2) peer by auto
        moreover have "transform_line te l = l" using line Pair None by (simp add: transform_line_def Let_def)
        ultimately show ?thesis using l by (simp add: l')
      next
        case (Some v)
        have split: "splitn2 CHR ''='' l = (k, Some v)" using Pair Some by simp
        have l': "l' = trim k @ '' = '' @ transform_value te v" using body split by simp
        note kv = splitn2_Some [OF split]
        have start: "\<not> starts_with (trim l) ''[''" "\<not> starts_with (trim l) ''#''" "trim l \<noteq> []" using line plain kv by auto
        note again = line_key_value [OF te split start, folded l']
        have "set l' \<subseteq> set k \<union> set '' = '' \<union> set (transform_value te v)" using set_trim [of k] by (auto simp: l')
        then have chars: "CHR 0x0A \<notin> set l'" "CHR 0x0D \<notin> set l'" using transform_value_cases [OF te, of v] l kv by auto
        have "trim l' \<noteq> ''[Peer]''" using again(1) by (auto simp: starts_with_def)
        then show ?thesis using chars again by blast
      qed
    qed
  qed
qed

lemma need_transform_lines_again:
  "need_transform_lines ls \<Longrightarrow> \<forall>l \<in> set ls. trim l \<noteq> ''[Peer]'' \<Longrightarrow> l \<in> set ls \<Longrightarrow>
    starts_with (trim l) ''#'' \<or> starts_with (trim l) ''['' \<or> (CHR 0x22 \<notin> set (trim l) \<and> CHR ''['' \<notin> set (trim l))"
proof (induction ls)
  case (Cons m ls)
  let ?ok = "\<lambda>l. starts_with (trim l) ''#'' \<or> starts_with (trim l) ''['' \<or> (CHR 0x22 \<notin> set (trim l) \<and> CHR ''['' \<notin> set (trim l))"
  have "trim m \<noteq> ''[Peer]''" using Cons.prems(2) by simp
  then have m: "?ok m \<and> need_transform_lines ls" using Cons.prems(1) by (auto simp only: need_transform_lines.simps Let_def split: if_splits)
  show ?case
  proof (cases "l = m")
    case True
    then show ?thesis using m by blast
  next
    case False
    show ?thesis by (rule Cons.IH) (use m Cons.prems(2,3) False in simp_all)
  qed
qed simp

lemma lines_chars: "l \<in> set (lines s) \<Longrightarrow> CHR 0x0A \<notin> set l \<and> set l \<subseteq> set s"
  using lines_of_no_newline [of "[]" l s] lines_of_sub [of l "[]" s] by (simp add: lines_def)


text \<open>A key without a value, which \<open>wg\<close> accepts for the allowed IPs, is not made a string.\<close>

lemma empty_value_stays_empty: "transform_line te ''AllowedIPs ='' = ''AllowedIPs = ''"
  by (simp add: transform_line_def transform_value_def trim_def trim_start_def is_space_def starts_with_def splitn2_def)

text \<open>Writers of strings without escapes, for texts without quotes and newlines, and a file.\<close>

definition plain_toml :: toml_ext where
  "plain_toml = \<lparr>te_string = (\<lambda>s. CHR 0x22 # filter (\<lambda>c. c \<noteq> CHR 0x0A \<and> c \<noteq> CHR 0x0D) s @ [CHR 0x22]),
     te_array = (\<lambda>ss. CHR ''['' # filter (\<lambda>c. c \<noteq> CHR 0x0A \<and> c \<noteq> CHR 0x0D) (concat ss) @ '']'')\<rparr>"

lemma plain_toml_ok: "toml_ok plain_toml"
  by (simp add: toml_ok_def plain_toml_def)

definition example_wg_file :: string where
  "example_wg_file = ''[Interface]'' @ [CHR 0x0A] @ ''ListenPort = 7777'' @ [CHR 0x0A] @ ''[Peer]'' @ [CHR 0x0A] @ ''Endpoint = host:1'' @ [CHR 0x0A]"


end
