(* ===== verification/Tun_Pool.thy ===== *)
theory Tun_Pool
  imports Cli_Transform
begin

text \<open>
  The adapters of the Windows tunnel driver: what \<open>src/src/wireguard/tun_windows/pool.rs\<close> decides from
  the answers of the setup interface, deleting an adapter (\<open>interface.rs\<close>), and how \<open>AsyncTun\<close> of
  \<open>src/src/wireguard/tun_windows.rs\<close> uses both. What the system answers is a record: the devices of the
  network class with their registry properties and drivers, in the order of enumeration, a failed call
  being \<open>None\<close> or \<open>False\<close>. A list that is enumerated comes with a flag that says whether it ended with
  \<open>ERROR_NO_MORE_ITEMS\<close> or with another error. How the crate \<open>widestring\<close> reads wide characters is the
  argument \<open>lossy\<close>. The main property is that opening or closing a tunnel removes no adapter but one
  of the same pool and name.
\<close>

section \<open>Strings\<close>

text \<open>
  \<open>to_lowercase\<close> of ASCII text. Comparing with \<open>HARDWARE_ID\<close> needs no more: no other character
  has one of its letters as its lower case.
\<close>

definition to_lowercase :: "string \<Rightarrow> string" where
  "to_lowercase s = map (\<lambda>c. if 65 \<le> (of_char c :: nat) \<and> of_char c \<le> (90 :: nat) then char_of (of_char c + 32 :: nat) else c) s"

definition trim_end_matches :: "(char \<Rightarrow> bool) \<Rightarrow> string \<Rightarrow> string" where
  "trim_end_matches P s = rev (dropWhile P (rev s))"

definition ends_with :: "string \<Rightarrow> string \<Rightarrow> bool" where
  "ends_with s p \<longleftrightarrow> starts_with (rev s) (rev p)"

definition remove_numbered_suffix :: "string \<Rightarrow> string" where
  "remove_numbered_suffix x =
     (let removed = trim_end_matches is_digit x in
      if removed \<noteq> x \<and> removed \<noteq> [] \<and> ends_with removed '' '' then take (length removed - 1) removed else x)"

definition HARDWARE_ID :: string where "HARDWARE_ID = ''Wintun''"

section \<open>Registry properties\<close>

datatype pool_error = OsError | MissingNul | UnknownType u32 | UnexpectedType | AlreadyExists | NoDriver | NameNotValid | DeviceNotFound | InterfaceNone

datatype my_registry_value = MultiSz "string list" | Sz string

datatype reg_type = REG_SZ | REG_MULTI_SZ | REG_OTHER u32

record reg_property =
  rp_type :: reg_type
  rp_data :: "u16 list"

text \<open>The buffer the value is finally read into: zeroed, 256 bytes at first, else of the size the system asks for.\<close>

definition property_buffer :: "u16 list \<Rightarrow> u16 list" where
  "property_buffer data = (if 2 * length data \<le> 256 then data @ replicate (128 - length data) 0 else data)"

definition get_device_registry_property :: "(u16 list \<Rightarrow> string) \<Rightarrow> reg_property option \<Rightarrow> (pool_error, my_registry_value) rust_result" where
  "get_device_registry_property lossy property =
     (case property of
        None \<Rightarrow> RErr OsError
      | Some p \<Rightarrow>
          let req_size = 2 * length (rp_data p); buffer = property_buffer (rp_data p) in
          (case rp_type p of
             REG_MULTI_SZ \<Rightarrow>
               let strings = lossy (take (req_size div 2) buffer);
                   strings = (if ends_with strings [CHR 0x00, CHR 0x00] then take (length strings - 2) strings else strings)
               in ROk (MultiSz (split_at (CHR 0x00) strings))
           | REG_SZ \<Rightarrow> if 0 \<notin> set buffer then RErr MissingNul else ROk (Sz (lossy (takeWhile (\<lambda>w. w \<noteq> 0) buffer)))
           | REG_OTHER t \<Rightarrow> RErr (UnknownType t)))"

section \<open>Drivers\<close>

text \<open>\<open>SP_DRVINFO_DETAIL_DATA_W\<close>; the first field is the memory from \<open>HardwareID\<close> on.\<close>

record driver_info_detail =
  dd_hardware_id :: "u16 list"
  dd_compat_ids_offset :: u32
  dd_compat_ids_length :: u32

definition detail_hardware_id :: "(u16 list \<Rightarrow> string) \<Rightarrow> driver_info_detail \<Rightarrow> string" where
  "detail_hardware_id lossy d =
     (if 1 < dd_compat_ids_offset d then lossy (takeWhile (\<lambda>w. w \<noteq> 0) (dd_hardware_id d)) else '''')"

definition detail_compat_ids :: "(u16 list \<Rightarrow> string) \<Rightarrow> driver_info_detail \<Rightarrow> string list" where
  "detail_compat_ids lossy d =
     split_at (CHR 0x00) (lossy (take (unat (dd_compat_ids_length d)) (drop (unat (dd_compat_ids_offset d)) (dd_hardware_id d))))"

definition is_compatible :: "(u16 list \<Rightarrow> string) \<Rightarrow> driver_info_detail \<Rightarrow> string \<Rightarrow> bool" where
  "is_compatible lossy d hardware_id =
     (let hardware_id = to_lowercase hardware_id in
      to_lowercase (detail_hardware_id lossy d) = hardware_id \<or>
      list_ex (\<lambda>c. to_lowercase c = hardware_id) (detail_compat_ids lossy d))"

text \<open>A driver: its date and version, its detail and whether \<open>SetupDiSetSelectedDriverW\<close> accepts it.\<close>

record driver_info =
  dr_date_high :: u32
  dr_date_low :: u32
  dr_version :: u64
  dr_detail :: "driver_info_detail option"
  dr_selectable :: bool

type_synonym driver_key = "u32 \<times> u32 \<times> u64"

definition driver_key :: "driver_info \<Rightarrow> driver_key" where
  "driver_key d = (dr_date_high d, dr_date_low d, dr_version d)"

text \<open>The comparison of tuples, which is lexicographic.\<close>

definition key_greater :: "driver_key \<Rightarrow> driver_key \<Rightarrow> bool" where
  "key_greater x y =
     (case (x, y) of ((a, b, c), (a', b', c')) \<Rightarrow> a' < a \<or> a' = a \<and> (b' < b \<or> b' = b \<and> c' < c))"

text \<open>The loop of \<open>create_interface\<close> that selects the newest driver, with its position in the list.\<close>

fun select_loop :: "(u16 list \<Rightarrow> string) \<Rightarrow> bool \<Rightarrow> driver_info list \<Rightarrow> nat \<Rightarrow> driver_key \<Rightarrow> nat option \<Rightarrow>
    (pool_error, driver_key \<times> nat option) rust_result" where
  "select_loop lossy ended [] index best selected = (if ended then ROk (best, selected) else RErr OsError)"
| "select_loop lossy ended (d # ds) index best selected =
     (if key_greater (driver_key d) best then
        (case dr_detail d of
           None \<Rightarrow> RErr OsError
         | Some detail \<Rightarrow>
             if is_compatible lossy detail HARDWARE_ID then
               if dr_selectable d then select_loop lossy ended ds (Suc index) (driver_key d) (Some index)
               else RErr OsError
             else select_loop lossy ended ds (Suc index) best selected)
      else select_loop lossy ended ds (Suc index) best selected)"

definition select_driver :: "(u16 list \<Rightarrow> string) \<Rightarrow> bool \<Rightarrow> driver_info list \<Rightarrow> (pool_error, nat option) rust_result" where
  "select_driver lossy ended ds =
     and_then (select_loop lossy ended ds 0 (0, 0, 0) None) (\<lambda>((_, _, best_driver_version), selected).
       if best_driver_version = 0 then RErr NoDriver else ROk selected)"

section \<open>Adapters\<close>

record guid =
  guid_data1 :: u32
  guid_data2 :: u16
  guid_data3 :: u16
  guid_data4 :: bytes

definition guid_eq :: "guid \<Rightarrow> guid \<Rightarrow> bool" where
  "guid_eq x y \<longleftrightarrow>
     (guid_data1 x, guid_data2 x, guid_data3 x, guid_data4 x) = (guid_data1 y, guid_data2 y, guid_data3 y, guid_data4 y)"

record tun_interface =
  ti_net_cfg_instance_id :: guid
  ti_net_luid_index :: u32
  ti_if_type :: u32
  ti_dev_instance_id :: string

text \<open>
  A device of the network class: its properties, what \<open>Interface::new\<close> and \<open>name\<close> read of it, whether
  its list of drivers can be built, the list and how it ended.
\<close>

record pool_device =
  pd_hardware_id :: "reg_property option"
  pd_device_desc :: "reg_property option"
  pd_friendly_name :: "reg_property option"
  pd_interface :: "tun_interface option"
  pd_name :: "string option"
  pd_builds :: bool
  pd_drivers :: "driver_info list"
  pd_drivers_ended :: bool

text \<open>The system: whether the mutex of the pool and the device list are available, the devices, and whether a device can be removed.\<close>

record pool_system =
  sy_mutex :: bool
  sy_class_devs :: bool
  sy_devices :: "pool_device list"
  sy_devices_ended :: bool
  sy_removes :: bool

record pool =
  pool_name :: string

definition WINTUN_POOL :: pool where "WINTUN_POOL = \<lparr>pool_name = ''WireGuard''\<rparr>"

definition device_type_name :: "pool \<Rightarrow> string" where
  "device_type_name p = pool_name p @ '' Tunnel''"

text \<open>A string property; any other type of value is an error.\<close>

definition sz_property :: "(u16 list \<Rightarrow> string) \<Rightarrow> reg_property option \<Rightarrow> (pool_error, string) rust_result" where
  "sz_property lossy property =
     and_then (get_device_registry_property lossy property) (\<lambda>v. case v of Sz v \<Rightarrow> ROk v | _ \<Rightarrow> RErr UnexpectedType)"

definition is_member :: "(u16 list \<Rightarrow> string) \<Rightarrow> pool \<Rightarrow> pool_device \<Rightarrow> (pool_error, bool) rust_result" where
  "is_member lossy p d =
     and_then (sz_property lossy (pd_device_desc d)) (\<lambda>device_desc.
     and_then (sz_property lossy (pd_friendly_name d)) (\<lambda>friendly_name.
       let type_name = device_type_name p in
       ROk (device_desc = type_name \<or> friendly_name = type_name \<or>
         remove_numbered_suffix device_desc = type_name \<or> remove_numbered_suffix friendly_name = type_name)))"

text \<open>The inner loop of \<open>get_interface\<close>: \<open>True\<close> is the return of the adapter, \<open>False\<close> the end of the list.\<close>

fun driver_loop :: "(u16 list \<Rightarrow> string) \<Rightarrow> pool \<Rightarrow> pool_device \<Rightarrow> driver_info list \<Rightarrow> (pool_error, bool) rust_result" where
  "driver_loop lossy p dev [] = (if pd_drivers_ended dev then ROk False else RErr OsError)"
| "driver_loop lossy p dev (d # ds) =
     (case dr_detail d of
        None \<Rightarrow> RErr OsError
      | Some detail \<Rightarrow>
          if is_compatible lossy detail HARDWARE_ID then
            and_then (is_member lossy p dev) (\<lambda>m. if m then ROk True else RErr AlreadyExists)
          else driver_loop lossy p dev ds)"

text \<open>The check of the hardware identifier, which \<open>get_interface\<close> and \<open>delete\<close> share.\<close>

definition has_hardware_id :: "(u16 list \<Rightarrow> string) \<Rightarrow> pool_device \<Rightarrow> bool" where
  "has_hardware_id lossy d =
     (case get_device_registry_property lossy (pd_hardware_id d) of
        ROk (MultiSz hwids) \<Rightarrow> HARDWARE_ID \<in> set hwids
      | _ \<Rightarrow> False)"

fun get_interface_loop :: "(u16 list \<Rightarrow> string) \<Rightarrow> pool \<Rightarrow> bool \<Rightarrow> string \<Rightarrow> pool_device list \<Rightarrow>
    (pool_error, tun_interface option) rust_result" where
  "get_interface_loop lossy p ended ifname [] = (if ended then ROk None else RErr OsError)"
| "get_interface_loop lossy p ended ifname (d # ds) =
     (if \<not> has_hardware_id lossy d then get_interface_loop lossy p ended ifname ds
      else (case pd_interface d of
        None \<Rightarrow> get_interface_loop lossy p ended ifname ds
      | Some wintun \<Rightarrow>
          (case pd_name d of
             None \<Rightarrow> RErr OsError
           | Some ifname2 \<Rightarrow>
               if ifname = ifname2 \<or> ifname = remove_numbered_suffix ifname2 then
                 if pd_builds d then
                   and_then (driver_loop lossy p d (pd_drivers d)) (\<lambda>found.
                     if found then ROk (Some wintun) else get_interface_loop lossy p ended ifname ds)
                 else RErr OsError
               else get_interface_loop lossy p ended ifname ds)))"

definition get_interface :: "(u16 list \<Rightarrow> string) \<Rightarrow> pool \<Rightarrow> pool_system \<Rightarrow> string option \<Rightarrow>
    (pool_error, tun_interface option) rust_result" where
  "get_interface lossy p sys ifname =
     (if \<not> sy_mutex sys \<or> \<not> sy_class_devs sys then RErr OsError
      else (case ifname of
        None \<Rightarrow> RErr NameNotValid
      | Some ifname \<Rightarrow> get_interface_loop lossy p (sy_devices_ended sys) (to_lowercase ifname) (sy_devices sys)))"

text \<open>\<open>Interface::delete\<close>: the position of the adapter with the same instance, which is then removed.\<close>

fun delete_loop :: "(u16 list \<Rightarrow> string) \<Rightarrow> bool \<Rightarrow> tun_interface \<Rightarrow> pool_device list \<Rightarrow> (pool_error, nat) rust_result" where
  "delete_loop lossy ended it [] = RErr (if ended then DeviceNotFound else OsError)"
| "delete_loop lossy ended it (d # ds) =
     (let continue_loop = and_then (delete_loop lossy ended it ds) (\<lambda>i. ROk (Suc i)) in
      if \<not> has_hardware_id lossy d then continue_loop
      else (case pd_interface d of
        None \<Rightarrow> continue_loop
      | Some w \<Rightarrow> if guid_eq (ti_net_cfg_instance_id w) (ti_net_cfg_instance_id it) then ROk 0 else continue_loop))"

definition interface_delete :: "(u16 list \<Rightarrow> string) \<Rightarrow> tun_interface \<Rightarrow> pool_system \<Rightarrow> (pool_error, pool_system) rust_result" where
  "interface_delete lossy it sys =
     (if \<not> sy_class_devs sys then RErr OsError
      else and_then (delete_loop lossy (sy_devices_ended sys) it (sy_devices sys)) (\<lambda>i.
        if sy_removes sys then ROk (sys\<lparr>sy_devices := take i (sy_devices sys) @ drop (Suc i) (sy_devices sys)\<rparr>)
        else RErr OsError))"

section \<open>Opening and closing a tunnel\<close>

text \<open>\<open>AsyncTun::open\<close>, up to the creation of the new adapter.\<close>

definition tun_open_existing :: "(u16 list \<Rightarrow> string) \<Rightarrow> pool_system \<Rightarrow> string option \<Rightarrow> (pool_error, pool_system) rust_result" where
  "tun_open_existing lossy sys name_os =
     (if name_os = None then RErr NameNotValid
      else and_then (get_interface lossy WINTUN_POOL sys name_os) (\<lambda>interface.
        case interface of None \<Rightarrow> ROk sys | Some interface \<Rightarrow> interface_delete lossy interface sys))"

text \<open>\<open>AsyncTun::close\<close>, up to the deletion of the network profile.\<close>

definition tun_close :: "(u16 list \<Rightarrow> string) \<Rightarrow> pool_system \<Rightarrow> string \<Rightarrow> (pool_error, pool_system) rust_result" where
  "tun_close lossy sys name =
     and_then (get_interface lossy WINTUN_POOL sys (Some name)) (\<lambda>it.
       case it of None \<Rightarrow> RErr InterfaceNone | Some it \<Rightarrow> interface_delete lossy it sys)"

section \<open>Selecting a driver\<close>

definition compatible_driver :: "(u16 list \<Rightarrow> string) \<Rightarrow> driver_info \<Rightarrow> bool" where
  "compatible_driver lossy d \<longleftrightarrow> (\<exists>detail. dr_detail d = Some detail \<and> is_compatible lossy detail HARDWARE_ID)"

lemma key_greater_trans: "key_greater x y \<Longrightarrow> key_greater y z \<Longrightarrow> key_greater x z"
  by (auto simp: key_greater_def split: prod.splits)

lemma key_greater_irrefl [simp]: "\<not> key_greater x x"
  by (auto simp: key_greater_def split: prod.splits)

text \<open>What the loop maintains: the best key is that of the selected driver, and no compatible driver seen so far is newer.\<close>

definition selection_ok :: "(u16 list \<Rightarrow> string) \<Rightarrow> driver_info list \<Rightarrow> driver_key \<Rightarrow> nat option \<Rightarrow> bool" where
  "selection_ok lossy seen best selected \<longleftrightarrow>
     (case selected of
        None \<Rightarrow> best = (0, 0, 0)
      | Some i \<Rightarrow> i < length seen \<and> compatible_driver lossy (seen ! i) \<and> dr_selectable (seen ! i) \<and> best = driver_key (seen ! i)) \<and>
     (\<forall>d\<in>set seen. compatible_driver lossy d \<longrightarrow> \<not> key_greater (driver_key d) best)"

lemma selection_ok_skip:
  "selection_ok lossy seen best sel \<Longrightarrow> \<not> (compatible_driver lossy d \<and> key_greater (driver_key d) best) \<Longrightarrow>
   selection_ok lossy (seen @ [d]) best sel"
  by (auto simp: selection_ok_def nth_append split: option.splits)

lemma selection_ok_take:
  "selection_ok lossy seen best sel \<Longrightarrow> compatible_driver lossy d \<Longrightarrow> dr_selectable d \<Longrightarrow> key_greater (driver_key d) best \<Longrightarrow>
   selection_ok lossy (seen @ [d]) (driver_key d) (Some (length seen))"
  unfolding selection_ok_def by (auto simp: nth_append dest: key_greater_trans)

lemma select_loop_ok:
  "select_loop lossy ended ds (length seen) best sel = ROk (best', sel') \<Longrightarrow> selection_ok lossy seen best sel \<Longrightarrow>
   selection_ok lossy (seen @ ds) best' sel'"
proof (induction ds arbitrary: seen best sel)
  case (Cons d ds)
  note IH = Cons.IH [of "seen @ [d]", simplified]
  have "compatible_driver lossy d" if "dr_detail d = Some x" "is_compatible lossy x HARDWARE_ID" for x
    using that by (auto simp: compatible_driver_def)
  moreover have "\<not> compatible_driver lossy d" if "dr_detail d = Some x" "\<not> is_compatible lossy x HARDWARE_ID" for x
    using that by (auto simp: compatible_driver_def)
  ultimately show ?case
    using Cons.prems IH selection_ok_take [OF Cons.prems(2)] selection_ok_skip [OF Cons.prems(2)]
    by (auto split: if_splits option.splits)
qed (auto split: if_splits)

text \<open>C31: \<open>create_interface\<close> selects a compatible driver such that no compatible driver of the list is newer, by date and then by version.\<close>

theorem select_driver_newest:
  assumes "select_driver lossy ended ds = ROk selected"
  shows "\<exists>i<length ds. selected = Some i \<and> compatible_driver lossy (ds ! i) \<and> dr_version (ds ! i) \<noteq> 0 \<and>
    (\<forall>d\<in>set ds. compatible_driver lossy d \<longrightarrow> \<not> key_greater (driver_key d) (driver_key (ds ! i)))"
proof -
  obtain a b v where run: "select_loop lossy ended ds (length ([] :: driver_info list)) (0, 0, 0) None = ROk ((a, b, v), selected)" "v \<noteq> 0"
    using assms by (auto simp: select_driver_def and_then_ROk_iff split: if_splits)
  have "selection_ok lossy ([] @ ds) (a, b, v) selected"
    by (rule select_loop_ok [OF run(1)]) (simp add: selection_ok_def)
  then show ?thesis using run(2) by (auto simp: selection_ok_def driver_key_def split: option.splits)
qed

text \<open>Without errors of the system and with a compatible driver that has a version number, the selection succeeds, unless the newest has none.\<close>

lemma select_loop_total:
  "(\<forall>d\<in>set ds. dr_detail d \<noteq> None \<and> dr_selectable d) \<Longrightarrow> \<exists>r. select_loop lossy True ds index best sel = ROk r"
  by (induction ds arbitrary: index best sel) (auto split: option.split simp del: split_paired_Ex split_paired_All)

lemma select_driver_total:
  assumes "\<forall>d\<in>set ds. dr_detail d \<noteq> None \<and> dr_selectable d"
    and "\<forall>d\<in>set ds. dr_version d \<noteq> 0" "\<exists>d\<in>set ds. compatible_driver lossy d"
  shows "\<exists>i. select_driver lossy True ds = ROk (Some i)"
proof -
  obtain best sel where run: "select_loop lossy True ds (length ([] :: driver_info list)) (0, 0, 0) None = ROk (best, sel)"
    using select_loop_total [OF assms(1), where best = "(0, 0, 0)" and sel = None] by force
  have ok: "selection_ok lossy ([] @ ds) best sel" by (rule select_loop_ok [OF run]) (simp add: selection_ok_def)
  have "sel \<noteq> None"
  proof
    assume none: "sel = None"
    obtain d where d: "d \<in> set ds" "compatible_driver lossy d" using assms(3) by blast
    then have "\<not> key_greater (driver_key d) (0, 0, 0)" "dr_version d \<noteq> 0" using ok none assms(2) by (auto simp: selection_ok_def)
    then show False by (auto simp: key_greater_def driver_key_def word_neq_0_conv)
  qed
  moreover have "snd (snd best) \<noteq> 0" using calculation ok assms(2) by (auto simp: selection_ok_def driver_key_def)
  ultimately show ?thesis using run by (cases best) (auto simp: select_driver_def)
qed

section \<open>Which adapter is removed\<close>

text \<open>An adapter of the pool: the driver's hardware identifier, a compatible driver, and the pool in its description or name.\<close>

definition pool_adapter :: "(u16 list \<Rightarrow> string) \<Rightarrow> pool \<Rightarrow> pool_device \<Rightarrow> bool" where
  "pool_adapter lossy p d \<longleftrightarrow> has_hardware_id lossy d \<and> list_ex (compatible_driver lossy) (pd_drivers d) \<and> is_member lossy p d = ROk True"

definition named_as :: "string \<Rightarrow> pool_device \<Rightarrow> bool" where
  "named_as ifname d \<longleftrightarrow> (\<exists>n. pd_name d = Some n \<and> (to_lowercase ifname = n \<or> to_lowercase ifname = remove_numbered_suffix n))"

text \<open>Instance identifiers are unique among the adapters that have the hardware identifier.\<close>

definition instances_unique :: "(u16 list \<Rightarrow> string) \<Rightarrow> pool_device list \<Rightarrow> bool" where
  "instances_unique lossy ds \<longleftrightarrow>
     (\<forall>i<length ds. \<forall>j<length ds. \<forall>v w. has_hardware_id lossy (ds ! i) \<and> has_hardware_id lossy (ds ! j) \<and>
       pd_interface (ds ! i) = Some v \<and> pd_interface (ds ! j) = Some w \<and>
       guid_eq (ti_net_cfg_instance_id v) (ti_net_cfg_instance_id w) \<longrightarrow> i = j)"

lemma driver_loop_True:
  "driver_loop lossy p dev ds = ROk True \<Longrightarrow> list_ex (compatible_driver lossy) ds \<and> is_member lossy p dev = ROk True"
  by (induction ds) (auto simp: and_then_ROk_iff compatible_driver_def split: if_splits option.splits)

lemma get_interface_loop_Some:
  "get_interface_loop lossy p ended (to_lowercase ifname) ds = ROk (Some w) \<Longrightarrow>
   \<exists>i<length ds. pool_adapter lossy p (ds ! i) \<and> named_as ifname (ds ! i) \<and> pd_interface (ds ! i) = Some w"
proof (induction ds)
  case (Cons d ds)
  show ?case
  proof (cases "get_interface_loop lossy p ended (to_lowercase ifname) ds = ROk (Some w)")
    case True
    then show ?thesis using Cons.IH by fastforce
  next
    case False
    then have "pool_adapter lossy p d \<and> named_as ifname d \<and> pd_interface d = Some w"
      using Cons.prems driver_loop_True
      by (auto simp: and_then_ROk_iff pool_adapter_def named_as_def split: if_splits option.splits)
    then show ?thesis by force
  qed
qed (auto split: if_splits)

lemma get_interface_Some:
  assumes "get_interface lossy p sys (Some ifname) = ROk (Some w)"
  shows "\<exists>i<length (sy_devices sys). pool_adapter lossy p (sy_devices sys ! i) \<and> named_as ifname (sy_devices sys ! i) \<and>
    pd_interface (sy_devices sys ! i) = Some w"
  using assms get_interface_loop_Some by (auto simp: get_interface_def split: if_splits)

lemma delete_loop_ROk:
  "delete_loop lossy ended it ds = ROk i \<Longrightarrow>
   i < length ds \<and> has_hardware_id lossy (ds ! i) \<and>
   (\<exists>w. pd_interface (ds ! i) = Some w \<and> guid_eq (ti_net_cfg_instance_id w) (ti_net_cfg_instance_id it))"
  by (induction ds arbitrary: i) (auto simp: Let_def and_then_ROk_iff split: if_splits option.splits)

text \<open>The adapter that \<open>get_interface\<close> returns is the one that \<open>delete\<close> removes.\<close>

lemma delete_found:
  assumes "get_interface lossy p sys (Some ifname) = ROk (Some w)" "interface_delete lossy w sys = ROk sys'"
    and "instances_unique lossy (sy_devices sys)"
  shows "\<exists>i<length (sy_devices sys). sys' = sys\<lparr>sy_devices := take i (sy_devices sys) @ drop (Suc i) (sy_devices sys)\<rparr> \<and>
    pool_adapter lossy p (sy_devices sys ! i) \<and> named_as ifname (sy_devices sys ! i)"
proof -
  obtain i where i: "i < length (sy_devices sys)" "pool_adapter lossy p (sy_devices sys ! i)"
    "named_as ifname (sy_devices sys ! i)" "pd_interface (sy_devices sys ! i) = Some w"
    using get_interface_Some [OF assms(1)] by blast
  obtain j where j: "delete_loop lossy (sy_devices_ended sys) w (sy_devices sys) = ROk j"
    "sys' = sys\<lparr>sy_devices := take j (sy_devices sys) @ drop (Suc j) (sy_devices sys)\<rparr>"
    using assms(2) by (auto simp: interface_delete_def and_then_ROk_iff split: if_splits)
  have "j = i"
    using delete_loop_ROk [OF j(1)] i assms(3) unfolding instances_unique_def pool_adapter_def by blast
  then show ?thesis using i j(2) by blast
qed

text \<open>
  C30: Opening a tunnel removes nothing, or one adapter, and that is one of the pool \<open>WireGuard\<close> whose
  name, up to a numbered suffix, is the requested one; the same adapter is the one closing removes.
\<close>

theorem tunnel_removes_own_adapter:
  assumes "instances_unique lossy (sy_devices sys)"
    and "tun_open_existing lossy sys (Some name) = ROk sys' \<and> sys' \<noteq> sys \<or> tun_close lossy sys name = ROk sys'"
  shows "\<exists>i<length (sy_devices sys). sys' = sys\<lparr>sy_devices := take i (sy_devices sys) @ drop (Suc i) (sy_devices sys)\<rparr> \<and>
    pool_adapter lossy WINTUN_POOL (sy_devices sys ! i) \<and> named_as name (sy_devices sys ! i)"
proof -
  obtain w where "get_interface lossy WINTUN_POOL sys (Some name) = ROk (Some w)" "interface_delete lossy w sys = ROk sys'"
    using assms(2) by (auto simp: tun_open_existing_def tun_close_def and_then_ROk_iff split: option.splits)
  then show ?thesis using delete_found assms(1) by blast
qed

section \<open>Names with capital letters\<close>

definition has_capital :: "string \<Rightarrow> bool" where
  "has_capital s \<longleftrightarrow> list_ex (\<lambda>c. 65 \<le> (of_char c :: nat) \<and> of_char c \<le> (90 :: nat)) s"

lemma to_lowercase_no_capital: "\<not> has_capital (to_lowercase s)"
  by (auto simp: has_capital_def to_lowercase_def list_ex_iff)

lemma set_remove_numbered_suffix: "set (remove_numbered_suffix x) \<subseteq> set x"
proof -
  have "set (trim_end_matches is_digit x) \<subseteq> set x"
    unfolding trim_end_matches_def by (auto dest: set_dropWhileD)
  then show ?thesis by (auto simp: remove_numbered_suffix_def Let_def dest: in_set_takeD)
qed

lemma named_as_no_capital:
  assumes "named_as ifname d"
  shows "\<exists>n. pd_name d = Some n \<and> \<not> has_capital (remove_numbered_suffix n)"
proof -
  obtain n where n: "pd_name d = Some n" "to_lowercase ifname = n \<or> to_lowercase ifname = remove_numbered_suffix n"
    using assms by (auto simp: named_as_def)
  have "\<not> has_capital (remove_numbered_suffix n)"
    using n(2) to_lowercase_no_capital [of ifname] set_remove_numbered_suffix [of n] by (auto simp: has_capital_def list_ex_iff)
  then show ?thesis using n(1) by blast
qed

text \<open>
  The requested name is converted to lower case and compared with the name of the adapter as it is: when
  the names of the adapters have capital letters, opening finds none of them and closing always fails,
  whatever name is given, that of an adapter included.
\<close>

theorem capital_adapter_not_found:
  assumes "\<forall>d\<in>set (sy_devices sys). \<forall>n. pd_name d = Some n \<longrightarrow> has_capital (remove_numbered_suffix n)"
  shows "tun_close lossy sys name \<noteq> ROk sys'" "tun_open_existing lossy sys (Some name) = ROk sys' \<Longrightarrow> sys' = sys"
proof -
  have none: "get_interface lossy WINTUN_POOL sys (Some name) \<noteq> ROk (Some w)" for w
  proof
    assume "get_interface lossy WINTUN_POOL sys (Some name) = ROk (Some w)"
    then obtain i where "i < length (sy_devices sys)" "named_as name (sy_devices sys ! i)"
      using get_interface_Some by blast
    then show False using named_as_no_capital assms nth_mem by blast
  qed
  show "tun_close lossy sys name \<noteq> ROk sys'" "tun_open_existing lossy sys (Some name) = ROk sys' \<Longrightarrow> sys' = sys"
    using none by (auto simp: tun_close_def tun_open_existing_def and_then_ROk_iff split: option.splits)
qed

section \<open>Examples\<close>

definition narrow :: "u16 list \<Rightarrow> string" where
  "narrow = map (\<lambda>w. char_of (unat w))"

definition widen :: "string \<Rightarrow> u16 list" where
  "widen = map (\<lambda>c. word_of_nat (of_char c))"

definition example_detail :: driver_info_detail where
  "example_detail = \<lparr>dd_hardware_id = widen ''wintun'' @ [0], dd_compat_ids_offset = 7, dd_compat_ids_length = 0\<rparr>"

definition example_driver :: "u64 \<Rightarrow> driver_info" where
  "example_driver version =
     \<lparr>dr_date_high = 30000000, dr_date_low = 1, dr_version = version, dr_detail = Some example_detail, dr_selectable = True\<rparr>"

definition example_interface :: "u32 \<Rightarrow> tun_interface" where
  "example_interface i =
     \<lparr>ti_net_cfg_instance_id = \<lparr>guid_data1 = i, guid_data2 = 0, guid_data3 = 0, guid_data4 = replicate 8 0\<rparr>,
      ti_net_luid_index = i, ti_if_type = 53, ti_dev_instance_id = ''''\<rparr>"

definition example_device :: "u32 \<Rightarrow> string \<Rightarrow> pool_device" where
  "example_device i name =
     \<lparr>pd_hardware_id = Some \<lparr>rp_type = REG_MULTI_SZ, rp_data = widen ''Wintun'' @ [0, 0]\<rparr>,
      pd_device_desc = Some \<lparr>rp_type = REG_SZ, rp_data = widen ''WireGuard Tunnel'' @ [0]\<rparr>,
      pd_friendly_name = Some \<lparr>rp_type = REG_SZ, rp_data = widen ''WireGuard Tunnel 2'' @ [0]\<rparr>,
      pd_interface = Some (example_interface i), pd_name = Some name, pd_builds = True,
      pd_drivers = [example_driver 1], pd_drivers_ended = True\<rparr>"

definition example_system :: "pool_device list \<Rightarrow> pool_system" where
  "example_system ds = \<lparr>sy_mutex = True, sy_class_devs = True, sy_devices = ds, sy_devices_ended = True, sy_removes = True\<rparr>"

lemma compatible_example: "compatible_driver narrow (example_driver version)"
proof -
  have "is_compatible narrow example_detail HARDWARE_ID" by code_simp
  then show ?thesis by (simp add: compatible_driver_def example_driver_def)
qed

lemma select_driver_newest_witness:
  "compatible_driver narrow (example_driver 5) \<and> \<not> key_greater (driver_key (example_driver 3)) (driver_key (example_driver 5))"
proof -
  have run: "select_driver narrow True [example_driver 3, example_driver 5, example_driver 4] = ROk (Some 1)" by code_simp
  show ?thesis using select_driver_newest [OF run] compatible_example by simp
qed

lemma tunnel_removes_own_adapter_witness:
  "\<exists>i<2. [example_device 1 ''other''] =
      take i [example_device 1 ''other'', example_device 2 ''tun0''] @ drop (Suc i) [example_device 1 ''other'', example_device 2 ''tun0''] \<and>
    named_as ''tun0'' ([example_device 1 ''other'', example_device 2 ''tun0''] ! i)"
proof -
  define ds where "ds = [example_device 1 ''other'', example_device 2 ''tun0'']"
  have sy: "sy_devices (example_system xs) = xs" "(example_system xs)\<lparr>sy_devices := ys\<rparr> = example_system ys" for xs ys
    by (simp_all add: example_system_def)
  have run: "tun_close narrow (example_system ds) ''tun0'' = ROk (example_system [example_device 1 ''other''])"
    unfolding ds_def by code_simp
  have "instances_unique narrow (sy_devices (example_system ds))"
    by (simp add: ds_def sy instances_unique_def All_less_Suc guid_eq_def example_device_def example_interface_def)
  then obtain i where i: "i < length ds" "example_system [example_device 1 ''other''] = example_system (take i ds @ drop (Suc i) ds)"
    "named_as ''tun0'' (ds ! i)"
    using tunnel_removes_own_adapter [of narrow "example_system ds" "''tun0''" "example_system [example_device 1 ''other'']"] run
    unfolding sy by blast
  have "[example_device 1 ''other''] = take i ds @ drop (Suc i) ds" using arg_cong [OF i(2), of sy_devices] unfolding sy .
  moreover have "i < 2" using i(1) unfolding ds_def by simp
  ultimately show ?thesis using i(3) unfolding ds_def by blast
qed

text \<open>An adapter that is named \<open>Tun0\<close> is not closed by that name.\<close>

lemma capital_adapter_example: "tun_close narrow (example_system [example_device 1 ''Tun0'']) ''Tun0'' \<noteq> ROk sys'"
proof (rule capital_adapter_not_found(1))
  have "has_capital (remove_numbered_suffix ''Tun0'')" by code_simp
  then show "\<forall>d\<in>set (sy_devices (example_system [example_device 1 ''Tun0''])). \<forall>n. pd_name d = Some n \<longrightarrow> has_capital (remove_numbered_suffix n)"
    by (simp add: example_system_def example_device_def)
qed

end
