(* ===== verification/Cli_Config.thy ===== *)
theory Cli_Config
  imports Cli_Reload Cli_Transform
begin

text \<open>
  Loading a configuration file: \<open>src/src/cli/config.rs\<close>. The TOML reader of the crate \<open>toml\<close> is an
  argument; the conversions the file gives it for keys, lists of allowed IPs and addresses are modelled
  on the values they visit. Resolving a host name is an argument: it fails because the text is not an
  address, or because the name is not found, or gives addresses.
\<close>

section \<open>Values\<close>

datatype toml_value = TomlString string | TomlArray "string list" | TomlOther

datatype config_error = DecodeFailed | WrongLength | InvalidAddress | PrefixTooLarge | UnexpectedType
  | DuplicatePeer bytes | InvalidEndpoint string | NotToml | NoFileStem

text \<open>Module \<open>base64_u8_array\<close>, for arrays of the given length.\<close>

definition key_serialize :: "text_ext \<Rightarrow> bytes \<Rightarrow> string" where
  "key_serialize tx t = tx_base64 tx t"

definition key_deserialize :: "text_ext \<Rightarrow> nat \<Rightarrow> string \<Rightarrow> (config_error, bytes) rust_result" where
  "key_deserialize tx n s =
     and_then (ok_or DecodeFailed (tx_base64_decode tx s)) (\<lambda>v. if length v \<noteq> n then RErr WrongLength else ROk v)"

text \<open>Module \<open>ip_prefix_len\<close>: a host address is written without its length.\<close>

definition serialize_allowed_ip :: "text_ext \<Rightarrow> ip_addr \<times> nat \<Rightarrow> string" where
  "serialize_allowed_ip tx r =
     (case r of (ip, prefix_len) \<Rightarrow>
        let max_prefix_len = ip_width ip in
        if prefix_len = max_prefix_len then tx_ip_fmt tx ip else tx_ip_fmt tx ip @ ''/'' @ dec prefix_len)"

definition serialize_allowed_ips :: "text_ext \<Rightarrow> (ip_addr \<times> nat) set \<Rightarrow> toml_value" where
  "serialize_allowed_ips tx t = TomlArray (map (serialize_allowed_ip tx) (sorted_list_of_set t))"

definition deserialize_allowed_ip :: "text_ext \<Rightarrow> string \<Rightarrow> (config_error, ip_addr \<times> nat) rust_result" where
  "deserialize_allowed_ip tx v =
     (let (ip, rest) = splitn2 CHR ''/'' v in
      and_then (ok_or InvalidAddress (tx_ip_parse tx ip)) (\<lambda>ip.
      let max_prefix_len = ip_width ip in
      and_then (case rest of None \<Rightarrow> ROk (of_nat max_prefix_len) | Some x \<Rightarrow> ok_or InvalidAddress (parse_uint x :: u32 option)) (\<lambda>prefix_len.
        if max_prefix_len < unat prefix_len then RErr PrefixTooLarge else ROk (ip, unat prefix_len))))"

fun collect :: "('a \<Rightarrow> ('e, 'b) rust_result) \<Rightarrow> 'a list \<Rightarrow> 'b list \<Rightarrow> ('e, 'b list) rust_result" where
  "collect f [] acc = ROk acc"
| "collect f (x # xs) acc = and_then (f x) (\<lambda>y. collect f xs (acc @ [y]))"

definition deserialize_allowed_ips :: "text_ext \<Rightarrow> toml_value \<Rightarrow> (config_error, (ip_addr \<times> nat) set) rust_result" where
  "deserialize_allowed_ips tx d =
     (case d of
        TomlString v \<Rightarrow> and_then (deserialize_allowed_ip tx v) (\<lambda>v. ROk {v})
      | TomlArray vs \<Rightarrow> and_then (collect (deserialize_allowed_ip tx) vs []) (\<lambda>vs. ROk (set vs))
      | TomlOther \<Rightarrow> RErr UnexpectedType)"

text \<open>Module \<open>ip_addr_vec\<close>.\<close>

definition serialize_ips :: "text_ext \<Rightarrow> ip_addr list \<Rightarrow> toml_value" where
  "serialize_ips tx t = TomlArray (map (tx_ip_fmt tx) t)"

definition deserialize_ips :: "text_ext \<Rightarrow> toml_value \<Rightarrow> (config_error, ip_addr list) rust_result" where
  "deserialize_ips tx d =
     (case d of
        TomlString v \<Rightarrow> and_then (ok_or InvalidAddress (tx_ip_parse tx v)) (\<lambda>a. ROk [a])
      | TomlArray vs \<Rightarrow> collect (\<lambda>v. ok_or InvalidAddress (tx_ip_parse tx v)) vs []
      | TomlOther \<Rightarrow> RErr UnexpectedType)"

section \<open>Checking and resolving\<close>

datatype resolved = InvalidInputSyntax | ResolutionFailed | Addresses "socket_addr list"

definition resolve_address :: "(string \<Rightarrow> resolved) \<Rightarrow> string \<Rightarrow> (bool, socket_addr) rust_result" where
  "resolve_address to_socket_addrs addr =
     (case to_socket_addrs addr of
        InvalidInputSyntax \<Rightarrow> RErr True
      | ResolutionFailed \<Rightarrow> RErr False
      | Addresses [] \<Rightarrow> RErr False
      | Addresses (a # _) \<Rightarrow> ROk a)"

text \<open>Invalid syntax is an error, any other failure gives no endpoint.\<close>

definition resolve_endpoint :: "(string \<Rightarrow> resolved) \<Rightarrow> string option \<Rightarrow> (config_error, socket_addr option) rust_result" where
  "resolve_endpoint to_socket_addrs e =
     (case e of
        None \<Rightarrow> ROk None
      | Some endpoint \<Rightarrow>
          (case resolve_address to_socket_addrs endpoint of
             ROk addr \<Rightarrow> ROk (Some addr)
           | RErr invalid_input \<Rightarrow> if invalid_input then RErr (InvalidEndpoint endpoint) else ROk None
           | RPanic \<Rightarrow> RPanic))"

definition resolve_peer :: "(string \<Rightarrow> resolved) \<Rightarrow> string peer_config \<Rightarrow> (config_error, socket_addr peer_config) rust_result" where
  "resolve_peer to_socket_addrs p =
     and_then (resolve_endpoint to_socket_addrs (pc_endpoint p)) (\<lambda>endpoint.
     and_then (resolve_endpoint to_socket_addrs (pc_true_endpoint p)) (\<lambda>true_endpoint.
       ROk \<lparr>pc_public_key = pc_public_key p, pc_preshared_key = pc_preshared_key p, pc_endpoint = endpoint,
            pc_true_endpoint = true_endpoint, pc_allowed_ips = pc_allowed_ips p, pc_keepalive = pc_keepalive p\<rparr>))"

definition resolve_addresses :: "(string \<Rightarrow> resolved) \<Rightarrow> string config \<Rightarrow> (config_error, socket_addr config) rust_result" where
  "resolve_addresses to_socket_addrs c =
     and_then (collect (resolve_peer to_socket_addrs) (cf_peers c) []) (\<lambda>peers.
       ROk \<lparr>cf_general = cf_general c, cf_interface = cf_interface c, cf_peers = peers\<rparr>)"

text \<open>The routes that are warned about, in order, and the ones seen so far.\<close>

fun check_routes :: "(ip_addr \<times> nat) list \<Rightarrow> (ip_addr \<times> nat) set \<Rightarrow> (ip_addr \<times> nat) list \<times> (ip_addr \<times> nat) set" where
  "check_routes [] previous_routes = ([], previous_routes)"
| "check_routes (route # rs) previous_routes =
     (if route \<in> previous_routes
      then (let (warned, seen) = check_routes rs previous_routes in (route # warned, seen))
      else check_routes rs (insert route previous_routes))"

fun check_duplicates :: "'e peer_config list \<Rightarrow> bytes set \<Rightarrow> (ip_addr \<times> nat) set \<Rightarrow> (config_error, (ip_addr \<times> nat) list) rust_result" where
  "check_duplicates [] previous_peers previous_routes = ROk []"
| "check_duplicates (p # ps) previous_peers previous_routes =
     (if pc_public_key p \<in> previous_peers then RErr (DuplicatePeer (pc_public_key p))
      else
        let (warned, seen) = check_routes (sorted_list_of_set (pc_allowed_ips p)) previous_routes
        in and_then (check_duplicates ps (insert (pc_public_key p) previous_peers) seen) (\<lambda>more. ROk (warned @ more)))"

text \<open>
  \<open>load_config_from_file\<close> on the text of the file, with the TOML reader and writer as arguments: the
  configuration and the warnings about routes.
\<close>

definition load_config_from_file :: "toml_ext \<Rightarrow> (string \<Rightarrow> string config option) \<Rightarrow> (string \<Rightarrow> resolved) \<Rightarrow> string \<Rightarrow>
    (config_error, (ip_addr \<times> nat) list \<times> socket_addr config) rust_result" where
  "load_config_from_file te from_str to_socket_addrs file_content =
     and_then (ok_or NotToml (from_str (maybe_transform te file_content))) (\<lambda>config.
     and_then (check_duplicates (cf_peers config) {} {}) (\<lambda>warned.
     and_then (resolve_addresses to_socket_addrs config) (\<lambda>config. ROk (warned, config))))"

text \<open>The name of the interface is the stem of the file name; the path is kept on Unix.\<close>

definition load_config_from_path :: "toml_ext \<Rightarrow> (string \<Rightarrow> string config option) \<Rightarrow> (string \<Rightarrow> resolved) \<Rightarrow>
    string \<Rightarrow> string option \<Rightarrow> string \<Rightarrow> (config_error, (ip_addr \<times> nat) list \<times> socket_addr config) rust_result" where
  "load_config_from_path te from_str to_socket_addrs p file_stem file_content =
     and_then (load_config_from_file te from_str to_socket_addrs file_content) (\<lambda>(warned, config).
     and_then (ok_or NoFileStem file_stem) (\<lambda>stem.
       ROk (warned, config\<lparr>cf_interface := (cf_interface config)\<lparr>ic_name := Some stem\<rparr>,
                           cf_general := (cf_general config)\<lparr>gc_config_file_path := Some p\<rparr>\<rparr>)))"

section \<open>Properties\<close>

lemma collect_ok:
  "(\<And>x. x \<in> set xs \<Longrightarrow> f (g x) = ROk x) \<Longrightarrow> collect f (map g xs) acc = ROk (acc @ xs)"
  by (induction xs arbitrary: acc) simp_all

text \<open>
  C34: Writing the allowed IPs of a peer, the DNS servers or a key to a configuration file and reading
  them back gives the same value, for all valid prefix lengths.
\<close>

theorem config_values_roundtrip:
  assumes "text_ok tx" "finite ips" "\<forall>(a, l) \<in> ips. l \<le> ip_width a"
  shows "deserialize_allowed_ips tx (serialize_allowed_ips tx ips) = ROk ips \<and>
    deserialize_ips tx (serialize_ips tx dns) = ROk dns \<and>
    key_deserialize tx (length k) (key_serialize tx k) = ROk k"
proof -
  have one: "deserialize_allowed_ip tx (serialize_allowed_ip tx (a, l)) = ROk (a, l)" if "(a, l) \<in> ips" for a l
  proof -
    have l: "l \<le> ip_width a" using assms(3) that by blast
    have w: "ip_width a \<le> 128" by (cases a) simp_all
    have u: "unat (of_nat l :: u32) = l" using l w by (simp add: unsigned_of_nat take_bit_nat_eq_self)
    have ip: "tx_ip_parse tx (tx_ip_fmt tx a) = Some a" "CHR ''/'' \<notin> set (tx_ip_fmt tx a)" using assms(1) by (simp_all add: text_ok_def)
    have "parse_uint (dec l) = Some (of_nat l :: u32)" using l w by (intro parse_uint_dec_nat) simp
    then show ?thesis
      using l u ip by (cases "l = ip_width a")
        (simp_all add: serialize_allowed_ip_def deserialize_allowed_ip_def splitn2_None Let_def splitn2_append [of "CHR ''/''", simplified])
  qed
  have "collect (deserialize_allowed_ip tx) (map (serialize_allowed_ip tx) (sorted_list_of_set ips)) [] = ROk ([] @ sorted_list_of_set ips)"
    by (rule collect_ok) (use one assms(2) in auto)
  moreover have "collect (\<lambda>v. ok_or InvalidAddress (tx_ip_parse tx v)) (map (tx_ip_fmt tx) dns) [] = ROk ([] @ dns)"
    by (rule collect_ok) (use assms(1) in \<open>simp add: text_ok_def\<close>)
  ultimately show ?thesis
    using assms(1,2)
    by (simp add: deserialize_allowed_ips_def serialize_allowed_ips_def deserialize_ips_def serialize_ips_def
        key_deserialize_def key_serialize_def text_ok_def)
qed

theorem config_values_roundtrip_witness:
  "deserialize_allowed_ips plain_text (serialize_allowed_ips plain_text {(IpV4 1, 32), (IpV6 0, 0)}) = ROk {(IpV4 1, 32), (IpV6 0, 0)}"
  using config_values_roundtrip [OF plain_text_ok, of "{(IpV4 1, 32), (IpV6 0, 0)}"] by simp

lemma check_duplicates_ok:
  "(\<exists>ws. check_duplicates ps K R = ROk ws) \<longleftrightarrow> distinct (map pc_public_key ps) \<and> pc_public_key ` set ps \<inter> K = {}"
  "check_duplicates ps K R \<noteq> RPanic"
proof (induction ps arbitrary: K R)
  case (Cons p ps)
  { case 1
    show ?case using Cons(1) [of "insert (pc_public_key p) K"] Cons(2)
      by (auto simp: and_then_ROk_iff split: prod.split) }
  { case 2
    show ?case using Cons(2) by (auto simp: and_then_RPanic_iff split: prod.split) }
qed auto

lemma collect_resolved:
  "collect (resolve_peer f) ps acc = ROk qs \<Longrightarrow>
    \<exists>rs. qs = acc @ rs \<and> map pc_public_key rs = map pc_public_key ps \<and> map pc_allowed_ips rs = map pc_allowed_ips ps \<and>
      map pc_preshared_key rs = map pc_preshared_key ps \<and> map pc_keepalive rs = map pc_keepalive ps"
proof (induction ps arbitrary: acc)
  case (Cons p ps)
  then obtain r where r: "resolve_peer f p = ROk r" "collect (resolve_peer f) ps (acc @ [r]) = ROk qs"
    by (auto simp: and_then_ROk_iff)
  from Cons.IH [OF r(2)] r(1) show ?case by (auto simp: resolve_peer_def and_then_ROk_iff)
qed simp


definition example_file :: "string config" where
  "example_file = \<lparr>cf_general = cf_general example_config, cf_interface = cf_interface example_config,
     cf_peers = [\<lparr>pc_public_key = replicate 32 5, pc_preshared_key = None, pc_endpoint = Some ''host:1'', pc_true_endpoint = None,
       pc_allowed_ips = {(IpV4 0x0A000000, 8)}, pc_keepalive = None\<rparr>]\<rparr>"


end
