(* ===== verification/Wg_Forwarding.thy ===== *)
theory Wg_Forwarding
  imports Wg_Protocol
begin

text \<open>
  What passes between the tunnel and the network: only the handler of data messages writes to the
  tunnel, and \<open>transport_begin_go\<close> says where what it writes comes from. \<open>Wg_Guarantees\<close> states the
  properties that rest on this.
\<close>

section \<open>What handlers put out\<close>

abbreviation writes :: "wg_output list \<Rightarrow> bytes \<Rightarrow> bool" where
  "writes out pkt \<equiv> WriteTun pkt \<in> set out"

lemma init_peer_no_write: "init_peer cx r result p addr w = Some (out, w') \<Longrightarrow> \<not> writes out pkt"
  by (auto simp: init_peer_def Let_def split: if_splits rust_result.splits option.splits prod.splits)

lemma handshake_init_no_write: "udp_process_handshake_init cx p addr w = Some (out, w') \<Longrightarrow> \<not> writes out pkt"
  by (auto simp: udp_process_handshake_init_def Let_def dest: init_peer_no_write [where pkt = pkt]
      split: if_splits rust_result.splits option.splits prod.splits bool.splits)

lemma send_queued_no_write: "send_queued ae addr t ps = Some (out, t') \<Longrightarrow> \<not> writes out pkt"
  by (induction ae addr t ps arbitrary: out t' rule: send_queued.induct)
    (auto split: if_splits option.splits prod.splits)

lemma handshake_resp_no_write: "udp_process_handshake_resp cx p addr w = Some (out, w') \<Longrightarrow> \<not> writes out pkt"
proof -
  have "handshake_resp_begin cx p addr w = RespDone out w' \<Longrightarrow> \<not> writes out pkt" for out w'
    by (auto simp: handshake_resp_begin_def Let_def
        split: if_splits rust_result.splits option.splits prod.splits bool.splits)
  moreover have "handshake_resp_commit cx r i j hs addr w = Some (out, w') \<Longrightarrow> \<not> writes out pkt" for r i j hs w out w'
    by (auto simp: handshake_resp_commit_def Let_def dest: send_queued_no_write
        split: if_splits option.splits prod.splits)
  ultimately show "udp_process_handshake_resp cx p addr w = Some (out, w') \<Longrightarrow> \<not> writes out pkt"
    by (auto simp: udp_process_handshake_resp_def split: resp_outcome.splits)
qed

lemma cookie_reply_no_write: "udp_process_cookie_reply cx p w = Some (out, w') \<Longrightarrow> \<not> writes out pkt"
  by (auto simp: udp_process_cookie_reply_def Let_def split: rust_result.splits option.splits)

section \<open>From the network to the tunnel\<close>

lemma transport_begin_go:
  assumes "transport_begin cx p addr w = TransportGo r out' e h w'"
  obtains k t decrypted b t' where
    "ws_id_map w (slice 4 8 p) = Some r" "t \<in> set (ps_transports (ws_peers w r))" "tp_self_id t = slice 4 8 p"
    "tp_decrypt (x_aead (cx_ext cx)) t p (length p - 32) = Some (Some (b, decrypted), t')"
    "out' = packet_to_write w' r decrypted" "ws_rt4 w' = ws_rt4 w" "ws_rt6 w' = ws_rt6 w"
    "ps_transports (ws_peers w' r) = (ps_transports (ws_peers w r))[k := t']" "k < length (ps_transports (ws_peers w r))"
proof -
  obtain i where i: "id_from_slice (slice 4 8 p) = Some i" "find_peer_by_id w i = Some r"
    using assms by (auto simp: transport_begin_def Let_def split: if_splits option.splits prod.splits)
  define q where "q = ps_count_recv (length p) (ws_peers w r)"
  have q: "ps_transports q = ps_transports (ws_peers w r)" by (simp add: q_def ps_count_recv_def)
  obtain k where k: "ps_find_transport_by_id i q = Some k"
    using assms i by (auto simp: transport_begin_def Let_def q_def split: if_splits option.splits prod.splits)
  obtain b decrypted t' where d: "tp_decrypt (x_aead (cx_ext cx)) (ps_transports q ! k) p (length p - 32) = Some (Some (b, decrypted), t')"
    using assms i k by (auto simp: transport_begin_def Let_def q_def split: if_splits option.splits prod.splits)
  have w': "w' = update_peer r (\<lambda>_. ps_on_recv (cx_now cx) (decrypted = []) (set_transport k t' q)) w"
    and out': "out' = packet_to_write w' r decrypted"
    using assms i k d by (auto simp: transport_begin_def Let_def q_def split: if_splits option.splits prod.splits)
  have "k < length (ps_transports q)" "tp_self_id (ps_transports q ! k) = i"
    using k by (simp_all add: ps_find_transport_by_id_def find_index_Some)
  moreover have "ps_transports (ws_peers w' r) = (ps_transports q)[k := t']"
    by (simp add: w' update_peer_def ps_on_recv_def set_transport_def Let_def)
  moreover have "i = slice 4 8 p" using i(1) by (simp add: id_from_slice_def split: if_splits)
  ultimately show thesis
    using that [of "ps_transports q ! k" b decrypted t' k] d out' i
    by (simp add: q w' update_peer_def find_peer_by_id_def)
qed

end
