(* ===== verification/Wg_Sessions.thy ===== *)
theory Wg_Sessions
  imports Wg_Forwarding
begin

text \<open>
  The sessions of an interface. The interface \<open>session_predicate\<close> says what a property of
  sessions must satisfy to hold of every session of every peer in every reachable state: it holds of
  a new session and is kept by the three operations the handlers use. It is interpreted with the
  property of being a run of a session in the sense of \<open>Transport\<close>, so that everything proved there
  about one session holds for the sessions of an interface: no nonce and no packet twice.
\<close>

definition all_sessions :: "(transport \<Rightarrow> bool) \<Rightarrow> 'h wg_state \<Rightarrow> bool" where
  "all_sessions P w \<longleftrightarrow> (\<forall>r \<in> live w. \<forall>t \<in> set (ps_transports (ws_peers w r)). P t)"

lemma all_sessionsD: "all_sessions P w \<Longrightarrow> r \<in> live w \<Longrightarrow> t \<in> set (ps_transports (ws_peers w r)) \<Longrightarrow> P t"
  by (simp add: all_sessions_def)

section \<open>The sessions of a peer after an operation\<close>

named_theorems sessions_of \<open>sessions after an operation on a peer\<close>

lemma transports_of [sessions_of]:
  "ps_transports (ps_count_recv n p) = ps_transports p" "ps_transports (ps_count_send n p) = ps_transports p"
  "ps_transports (ps_on_recv now b p) = ps_transports p" "ps_transports (ps_adjust_persistent now p) = ps_transports p"
  "ps_transports (ps_on_send_transport now p) = ps_transports p"
  "ps_transports (ps_on_send_keepalive now p) = ps_transports p"
  "ps_transports (ps_enqueue_packet now pkt p) = ps_transports p"
  "ps_transports (set_transport i t p) = (ps_transports p)[i := t]"
  by (simp_all add: ps_count_recv_def ps_count_send_def ps_on_recv_def ps_adjust_persistent_def ps_on_send_transport_def
      ps_on_send_keepalive_def ps_enqueue_packet_def set_transport_def Let_def split: option.split)

lemma transports_endpoint: "learn_endpoint addr p = Some p' \<Longrightarrow> ps_transports p' = ps_transports p"
  "ps_set_endpoint addr p = Some p' \<Longrightarrow> ps_transports p' = ps_transports p"
  by (auto simp: learn_endpoint_def ps_set_endpoint_def split: if_splits)

lemma transports_push:
  assumes "ps_push_transport now t p = (dropped, p')"
  shows "set (ps_transports p') \<subseteq> insert t (set (ps_transports p))"
proof -
  have "ps_transports p' = t # (if MAX_TRANSPORTS \<le> length (ps_transports p) then butlast (ps_transports p) else ps_transports p)"
    using assms by (auto simp: ps_push_transport_def ps_on_new_transport_def)
  moreover have "set (butlast (ps_transports p)) \<subseteq> set (ps_transports p)" by (auto dest: in_set_butlastD)
  ultimately show ?thesis by (simp add: subset_insertI2)
qed

lemma transports_pushD:
  "u \<in> set (ps_transports p') \<Longrightarrow> ps_push_transport now t p = (dropped, p') \<Longrightarrow> u = t \<or> u \<in> set (ps_transports p)"
  using transports_push by blast

lemma transports_clear: "ps_clear_all p = (d, p') \<Longrightarrow> ps_transports p' = []"
  by (auto simp: ps_clear_all_def)

lemma transports_dequeue: "ps_dequeue_all p = (q, p') \<Longrightarrow> ps_transports p' = ps_transports p"
  by (auto simp: ps_dequeue_all_def)

lemma transports_fold_send: "ps_transports (fold (\<lambda>q. ps_count_send (length q + 32)) qs p) = ps_transports p"
  by (induction qs arbitrary: p) (simp_all add: sessions_of)

lemma all_sessions_update:
  assumes "all_sessions P w" "\<And>t. r \<in> live w \<Longrightarrow> t \<in> set (ps_transports (f (ws_peers w r))) \<Longrightarrow> P t"
  shows "all_sessions P (update_peer r f w)"
  using assms by (auto simp: all_sessions_def)

lemma all_sessions_cong:
  "all_sessions P w \<Longrightarrow> live w' = live w \<Longrightarrow> ws_peers w' = ws_peers w \<Longrightarrow> all_sessions P w'"
  by (simp add: all_sessions_def)

lemma all_sessions_drop_guards [simp]: "all_sessions P (drop_guards ids w) = all_sessions P w"
  by (simp add: all_sessions_def)

lemma all_sessions_id_map [simp]: "all_sessions P (w\<lparr>ws_id_map := m\<rparr>) = all_sessions P w"
  by (simp add: all_sessions_def live_def)

lemma all_sessions_update_id_map [simp]:
  "all_sessions P (update_peer r f (drop_guards ids (w\<lparr>ws_id_map := m\<rparr>))) = all_sessions P (update_peer r f w)"
  by (simp add: all_sessions_def update_peer_def drop_guards_def live_def)

lemma all_sessions_same:
  assumes "all_sessions P w" "set (ps_transports (f (ws_peers w r))) \<subseteq> set (ps_transports (ws_peers w r))"
  shows "all_sessions P (update_peer r f w)"
  using assms by (intro all_sessions_update) (auto simp: all_sessions_def)

lemma do_handshake_sessions: "all_sessions P w \<Longrightarrow> all_sessions P (do_handshake now r w)"
  by (auto simp: do_handshake_def Let_def intro: all_sessions_same)

section \<open>Properties of sessions that every interface keeps\<close>

locale session_predicate =
  fixes ae :: aead and P :: "transport \<Rightarrow> bool"
  assumes new: "length j = 4 \<Longrightarrow> P (tp_new_from_hs i j initiator ks now)"
    and encrypt: "P t \<Longrightarrow> tp_get_should_send t \<Longrightarrow> tp_encrypt ae t msg (length msg + 32) = Some (res, t') \<Longrightarrow> P t'"
    and decrypt: "P t \<Longrightarrow> tp_decrypt ae t msg (length msg - 32) = Some (out, t') \<Longrightarrow> P t'"
    and tick: "P t \<Longrightarrow> P (tp_tick now t)"
begin

lemma set_transport_sessions:
  assumes "all_sessions P w" "r \<in> live w" "P t'" "u \<in> set ((ps_transports (ws_peers w r))[i := t'])"
  shows "P u"
  using assms set_update_subset_insert all_sessionsD by fast

lemma encrypt_sessions:
  assumes "all_sessions P w" "r \<in> live w" "ps_find_transport_to_send (ws_peers w r) = Some i"
    "tp_encrypt ae (ps_transports (ws_peers w r) ! i) msg n = Some (res, t')" "n = length msg + 32"
    "u \<in> set ((ps_transports (ws_peers w r))[i := t'])"
  shows "P u"
proof -
  have "i < length (ps_transports (ws_peers w r))" "tp_get_should_send (ps_transports (ws_peers w r) ! i)"
    using assms(3) by (simp_all add: ps_find_transport_to_send_def find_index_Some)
  then have "P t'" using encrypt [OF _ _ assms(4) [unfolded assms(5)]] all_sessionsD [OF assms(1,2)] by simp
  then show ?thesis using set_transport_sessions assms(1,2,6) by blast
qed

lemma keepalive_sessions:
  assumes "all_sessions P w" "do_keepalive1 cx r w = Some (b, out, w')" "x_aead (cx_ext cx) = ae"
  shows "all_sessions P w'"
proof -
  have enc: "r \<in> live w \<Longrightarrow> ps_find_transport_to_send (ws_peers w r) = Some i \<Longrightarrow>
      tp_encrypt ae (ps_transports (ws_peers w r) ! i) [] 32 = Some (res, t') \<Longrightarrow>
      u \<in> set ((ps_transports (ws_peers w r))[i := t']) \<Longrightarrow> P u" for i res t' u
    using encrypt_sessions [OF assms(1), of r i "[]" 32 res t' u] by simp
  show ?thesis
    using assms
    by (auto simp: do_keepalive1_def Let_def sessions_of split: option.splits prod.splits
        intro!: all_sessions_update intro: enc)
qed

lemma run_timer_sessions:
  assumes w: "all_sessions P w" and run: "run_timer cx k r w = Some (out, w')" and ae: "x_aead (cx_ext cx) = ae"
  shows "all_sessions P w'"
proof -
  have timer: "all_sessions P (update_peer r f w)" if "\<And>p. ps_transports (f p) = ps_transports p" for f
    using w that by (intro all_sessions_same) simp_all
  have alive: "all_sessions P v"
    if "do_keepalive1 cx r (update_peer r f w) = Some (b, out, v)" "\<And>p. ps_transports (f p) = ps_transports p" for f b out v
    using keepalive_sessions [OF timer [OF that(2)] that(1) ae] .
  show ?thesis
  proof (cases k)
    case TClear
    then show ?thesis
      using run w all_sessionsD [OF w, of r]
      by (auto simp: run_timer_def action_clear_def Let_def split: if_splits prod.splits
          intro!: all_sessions_update dest!: transports_clear)
  next
    case TPersistentKeepalive
    have adjust: "all_sessions P (update_peer r (ps_adjust_persistent now) v)" if "all_sessions P v" for v now
      using that by (rule all_sessions_same) (simp add: sessions_of)
    show ?thesis
      using run TPersistentKeepalive timer
      by (auto simp: run_timer_def action_persistent_keepalive_def Let_def split: if_splits prod.splits option.splits
          intro!: do_handshake_sessions adjust intro: alive)
  qed (use run timer in \<open>auto simp: run_timer_def action_rekey_no_recv_def action_keepalive_def action_stop_handshake_def
        Let_def split: if_splits prod.splits option.splits intro!: do_handshake_sessions intro: alive all_sessions_same\<close>)
qed

lemma handshake_send_sessions:
  "all_sessions P w \<Longrightarrow> handshake_send cx r w = Some (out, w') \<Longrightarrow> all_sessions P w'"
  by (auto simp: handshake_send_def Let_def sessions_of split: option.splits rust_result.splits intro!: all_sessions_update)
    (auto simp: all_sessions_def live_def)

lemma handshake_loop_sessions:
  "all_sessions P w \<Longrightarrow> handshake_loop cx r w = Some (out, w') \<Longrightarrow> all_sessions P w'"
  by (auto simp: handshake_loop_def split: option.splits if_splits prod.splits
      intro!: all_sessions_same intro: handshake_send_sessions)

lemma check_load_sessions: "check_handshake_load cx w = (load, v) \<Longrightarrow> all_sessions P v = all_sessions P w"
  using check_handshake_load_inv(2,6) [of cx w load v] by (simp add: all_sessions_def)

lemma responde_peer_id: "responde x result i e = ROk (m, result') \<Longrightarrow> ir_peer_id result' = ir_peer_id result"
  by (auto simp: responde_def and_then_ROk_iff Let_def split: option.splits)

lemma init_peer_sessions:
  assumes w: "all_sessions P (w :: 'h wg_state)" and run: "init_peer cx r result p addr w = Some (out, w')" and j: "length (ir_peer_id result) = 4"
  shows "all_sessions P w'"
proof -
  note old = all_sessionsD [OF w, of r]
  have pushed: "P u"
    if "ps_push_transport now (tp_new_from_hs i (ir_peer_id result) b ks now) q = (d, q')" "r \<in> live w"
      "ps_transports q = ps_transports (ws_peers w r)" "u \<in> set (ps_transports q')" for now i b ks d u and q q' :: "'h peer_state"
    using transports_pushD [OF that(4,1)] that(2,3) old new [OF j] by metis
  show ?thesis
    using run w
    by (auto simp: init_peer_def Let_def sessions_of split: if_splits rust_result.splits option.splits prod.splits
        intro!: all_sessions_update intro: old dest!: transports_endpoint(1) responde_peer_id)
      (rule pushed, assumption+)+
qed

lemma handshake_init_sessions:
  assumes w: "all_sessions P w" and run: "udp_process_handshake_init cx p addr w = Some (out, w')"
  shows "all_sessions P w'"
proof -
  have j: "length (ir_peer_id result) = 4" if "process_initiation x wg p = ROk result" for x wg result
    using that by (auto simp: process_initiation_def id_from_slice_def and_then_ROk_iff Let_def split: if_splits option.splits)
  show ?thesis
    using run w
    by (auto simp: udp_process_handshake_init_def Let_def split: if_splits rust_result.splits option.splits prod.splits bool.splits
        dest: check_load_sessions j intro: init_peer_sessions)
qed

lemma handshake_resp_begin_sessions:
  assumes w: "all_sessions P w"
  shows "case handshake_resp_begin cx p addr w of
      RespPanic \<Rightarrow> True | RespDone out w' \<Rightarrow> all_sessions P w' | RespCommit r i j hs w' \<Rightarrow> all_sessions P w' \<and> length j = 4"
proof -
  have j: "length j = 4" if "process_response x h p = ROk (j, h')" for x h j h'
    using that by (auto simp: process_response_def id_from_slice_def and_then_ROk_iff split: if_splits option.splits)
  have cnt: "all_sessions P (update_peer r (ps_count_recv n) v)" if "all_sessions P v" for v r n
    using that by (rule all_sessions_same) (simp add: sessions_of)
  show ?thesis
    using w check_load_sessions
    by (auto simp: handshake_resp_begin_def Let_def split: if_splits rust_result.splits option.splits prod.splits bool.splits
        intro!: cnt dest: j)
qed

lemma send_queued_sessions:
  "P t \<Longrightarrow> tp_get_should_send t \<Longrightarrow> send_queued ae addr t ps = Some (out, t') \<Longrightarrow> P t'"
proof (induction ps arbitrary: t out t')
  case (Cons p ps)
  obtain e h u out' where u: "tp_encrypt ae t p (length p + 32) = Some ((Some e, h), u)" "send_queued ae addr u ps = Some (out', t')"
    using Cons.prems(3) by (auto split: if_splits option.splits prod.splits)
  have "tp_get_should_send u" using u(1) Cons.prems(2) by (auto simp: tp_encrypt_eq tp_get_should_send_def split: if_splits)
  then show ?case using Cons.IH u(2) encrypt [OF Cons.prems(1,2) u(1)] by blast
qed simp

lemma handshake_resp_commit_sessions:
  assumes w: "all_sessions P w" and run: "handshake_resp_commit cx r i j hs addr w = Some (out, w')"
    and j: "length j = 4" and ae: "x_aead (cx_ext cx) = ae"
    and init: "ns_is_initiator (x_noise (cx_ext cx)) hs"
  shows "all_sessions P w'"
proof -
  let ?p = "(ws_peers w r)\<lparr>ps_resend_scope := None\<rparr>"
  obtain h ks where h: "ps_handshake ?p = Some h" "ns_get_ciphers (x_noise (cx_ext cx)) hs = Some ks"
    using run by (auto simp: handshake_resp_commit_def Let_def split: option.splits)
  let ?t = "tp_new_from_hs (hk_self_id h) j True ks (cx_now cx)"
  have t: "P ?t" "tp_get_should_send ?t" using new [OF j] by (simp_all add: tp_get_should_send_def)
  obtain d p1 where push: "ps_push_transport (cx_now cx) ?t (?p\<lparr>ps_handshake := None\<rparr>) = (d, p1)" by fastforce
  obtain p2 where endpoint: "learn_endpoint addr p1 = Some p2"
    using run h init push by (auto simp: handshake_resp_commit_def Let_def split: option.splits)
  obtain q p3 where q: "ps_dequeue_all p2 = (q, p3)" by fastforce
  have p3: "set (ps_transports p3) \<subseteq> insert ?t (set (ps_transports (ws_peers w r)))"
    using transports_push [OF push] transports_endpoint(1) [OF endpoint] transports_dequeue [OF q] by simp
  have upd: "all_sessions P (update_peer r (\<lambda>_. p4) w)"
    if "set (ps_transports p4) \<subseteq> insert t' (set (ps_transports p3))" "P t'" for p4 t'
    using w that t(1) p3 all_sessionsD [OF w, of r] by (intro all_sessions_update) blast+
  show ?thesis
  proof (cases "q = []")
    case True
    then show ?thesis
      using run h init push endpoint q t
      by (auto simp: handshake_resp_commit_def Let_def intro!: upd)
  next
    case False
    let ?p4 = "ps_on_send_transport (cx_now cx) (fold (\<lambda>p. ps_count_send (length p + 32)) q p3)"
    obtain t' where t': "send_queued ae addr ?t q = Some (out, t')"
      and w': "w' = update_peer r (\<lambda>_. set_transport 0 t' ?p4) (drop_guards d (w\<lparr>ws_id_map := (ws_id_map w)(i \<mapsto> r)\<rparr>))"
      using run h init push endpoint q False ae
      by (auto simp: handshake_resp_commit_def Let_def split: option.splits)
    have "set (ps_transports (set_transport 0 t' ?p4)) \<subseteq> insert t' (set (ps_transports p3))"
      using set_update_subset_insert [of "ps_transports p3" 0 t'] by (simp add: sessions_of transports_fold_send)
    then have "all_sessions P (update_peer r (\<lambda>_. set_transport 0 t' ?p4) w)"
      using send_queued_sessions [OF t t'] by (rule upd)
    then show ?thesis by (simp add: w')
  qed
qed

lemma handshake_resp_sessions:
  assumes w: "all_sessions P w" and run: "udp_process_handshake_resp cx p addr w = Some (out, w')"
    and inv: "full_inv (cx_ext cx) w" "ctx_ok cx w" and ae: "x_aead (cx_ext cx) = ae"
  shows "all_sessions P w'"
  using handshake_resp_begin_sessions [OF w, of cx p addr] handshake_resp_begin_inv [OF inv refl, of p addr] run
    handshake_resp_commit_sessions [OF _ _ _ ae]
  by (cases "handshake_resp_begin cx p addr w") (auto simp: udp_process_handshake_resp_def)

lemma cookie_reply_sessions:
  assumes "all_sessions P w" "udp_process_cookie_reply cx p w = Some (out, w')"
  shows "all_sessions P w'"
  using assms
  by (auto simp: udp_process_cookie_reply_def Let_def split: rust_result.splits option.splits
      intro!: all_sessions_same simp: sessions_of)

lemma transport_sessions:
  assumes w: "all_sessions P w" and run: "udp_process_transport cx p addr w = Some (out, w')" and ae: "x_aead (cx_ext cx) = ae"
  shows "all_sessions P w'"
proof -
  note old = all_sessionsD [OF w]
  have dec: "P u"
    if "r \<in> live w" "ps_find_transport_by_id i (ps_count_recv n (ws_peers w r)) = Some k"
      "tp_decrypt ae (ps_transports (ws_peers w r) ! k) p (length p - 32) = Some (res, t')"
      "u \<in> set ((ps_transports (ws_peers w r))[k := t'])" for r i n k res t' u
  proof -
    have "k < length (ps_transports (ws_peers w r))"
      using that(2) by (simp add: ps_find_transport_by_id_def find_index_Some sessions_of)
    then have "P t'" using decrypt [OF _ that(3)] old [OF that(1)] by simp
    then show ?thesis using set_transport_sessions [OF w that(1) _ that(4)] by blast
  qed
  have "case transport_begin cx p addr w of
      TransportPanic \<Rightarrow> True | TransportDone v \<Rightarrow> all_sessions P v | TransportGo r m e h v \<Rightarrow> all_sessions P v"
    using w ae
    by (auto simp: transport_begin_def Let_def sessions_of split: if_splits option.splits prod.splits
        intro!: all_sessions_update intro: dec old)
  moreover have "all_sessions P v'" if "all_sessions P v" "transport_commit cx r m e h addr v = Some (out, v')" for r m e h v v'
    using that
    by (auto simp: transport_commit_def split: if_splits option.splits intro!: do_handshake_sessions all_sessions_same
        dest!: transports_endpoint(2))
  ultimately show ?thesis
    using run by (cases "transport_begin cx p addr w") (auto simp: udp_process_transport_def)
qed

lemma tun_packet_sessions:
  assumes w: "all_sessions P w" and run: "tun_packet_processing cx pkt w = Some (out, w')" and ae: "x_aead (cx_ext cx) = ae"
  shows "all_sessions P w'"
proof -
  note old = all_sessionsD [OF w]
  show ?thesis
    using run w ae
    by (auto simp: tun_packet_processing_def Let_def sessions_of split: if_splits option.splits prod.splits
        intro!: do_handshake_sessions all_sessions_update intro: old encrypt_sessions [OF w])
qed

lemma config_sessions:
  assumes w: "all_sessions P w" and inv: "wg_inv w" and step: "config_step o' now c w = ROk w'" "config_op_ok c"
  shows "all_sessions P w'"
proof -
  have "P t" if "q \<in> live w'" "t \<in> set (ps_transports (ws_peers w' q))" for q t
    using reconfiguresE [OF config_step_reconfigures [OF inv step(2,1)] that(1)]
  proof cases
    case 1
    then show ?thesis using that(2) all_sessionsD [OF w] by (auto simp: drops_to_def)
  next
    case (2 pk now)
    then show ?thesis using that(2) by simp
  qed
  then show ?thesis by (simp add: all_sessions_def)
qed

lemma step_sessions:
  assumes w: "all_sessions P w" and run: "wg_step o' cx e w = Some (out, w')" and ae: "x_aead (cx_ext cx) = ae"
    and inv: "full_inv (cx_ext cx) w" "ctx_ok cx w" and e: "event_ok e"
  shows "all_sessions P w'"
proof (cases e)
  case (EvDatagram p addr)
  then show ?thesis
    using run w handshake_init_sessions [OF w] handshake_resp_sessions [OF w _ inv ae] cookie_reply_sessions [OF w]
      transport_sessions [OF w _ ae]
    by (auto simp: wg_step_def udp_processing_def Let_def split: if_splits)
next
  case (EvConfig c)
  then show ?thesis
    using run w e config_sessions [OF w full_invD(1) [OF inv(1)]]
    by (auto simp: wg_step_def split: rust_result.splits)
next
  case (EvSessionTasks r)
  have "all_sessions P (update_peer r (\<lambda>p. p\<lparr>ps_transports := map (tp_tick now) (ps_transports p)\<rparr>) w)" for now
    using w tick all_sessionsD [OF w, of r] by (intro all_sessions_update) auto
  then show ?thesis using run EvSessionTasks by (auto simp: wg_step_def)
next
  case (EvPacket pkt)
  then show ?thesis using run tun_packet_sessions [OF w _ ae] by (simp add: wg_step_def)
next
  case (EvTimer k r)
  then show ?thesis using run w run_timer_sessions [OF w _ ae] by (auto simp: wg_step_def split: if_splits)
next
  case (EvHandshakeLoop r)
  then show ?thesis using run w handshake_loop_sessions [OF w] by (auto simp: wg_step_def split: if_splits)
qed (use run in \<open>auto simp: wg_step_def task_update_cookie_secret_def task_update_mtu_def task_rx_start_def
      rx_replace_socket_def Let_def live_def intro!: all_sessions_cong [OF w] split: if_splits option.splits list.splits\<close>)

theorem reachable_sessions:
  assumes "wg_reachable o' x w" "x_aead x = ae"
  shows "all_sessions P w"
  using assms
proof (induction rule: wg_reachable.induct)
  case (start key cookie mtu now w)
  then have "ws_pubkey_map w = []"
    by (cases "prepare_socket o' 0 0"; cases mtu) (auto simp: wg_new_def split: prod.splits)
  then show ?case by (simp add: all_sessions_def live_def)
next
  case (step w cx e out w')
  then show ?case using step_sessions [OF _ step.hyps(5)] reachable_full_inv [OF step.hyps(1)] by simp
qed

end

section \<open>Runs of sessions\<close>

definition session_run :: "aead \<Rightarrow> transport \<Rightarrow> bool" where
  "session_run ae t \<longleftrightarrow> (\<exists>i j b ks now es. length j = 4 \<and> t = tp_run ae (tp_new_from_hs i j b ks now) es)"

lemma tp_run_snoc: "tp_run ae t (es @ [e]) = tp_step ae (tp_run ae t es) e"
  by (induction es arbitrary: t) simp_all

lemma session_run_step: "session_run ae t \<Longrightarrow> session_run ae (tp_step ae t e)"
  unfolding session_run_def by (metis tp_run_snoc)

interpretation sessions: session_predicate ae "session_run ae" for ae
proof
  show "session_run ae (tp_new_from_hs i j b ks now)" if "length j = 4" for i j b ks now
    using that unfolding session_run_def by (metis tp_run.simps(1))
  show "session_run ae t'"
    if "session_run ae t" "tp_get_should_send t" "tp_encrypt ae t msg (length msg + 32) = Some (res, t')" for t msg res t'
    using session_run_step [OF that(1), of "TpSend msg"] that(2,3) by (simp add: tp_step_def)
  show "session_run ae t'"
    if "session_run ae t" "tp_decrypt ae t msg (length msg - 32) = Some (out, t')" for t msg out t'
    using session_run_step [OF that(1), of "TpReceive msg"] that(2) by (simp add: tp_step_def)
  show "session_run ae (tp_tick now t)" if "session_run ae t" for t now
    using session_run_step [OF that, of "TpTick now"] by (simp add: tp_step_def)
qed

lemma tp_run_represents:
  assumes "ar_represents (tp_recv_ar t) S"
  shows "ar_represents (tp_recv_ar (tp_run ae t es)) (S \<union> unat ` fst ` set (tp_deliveries ae t es))"
  using assms
proof (induction es arbitrary: t S)
  case (Cons e es)
  let ?t = "tp_step ae t e"
  show ?case
  proof (cases "tp_delivered ae t e")
    case None
    then show ?thesis using Cons.IH [of ?t S] Cons.prems tp_not_delivered_step [OF None] by simp
  next
    case (Some d)
    obtain c out where d: "d = (c, out)" by (cases d)
    have "ar_check (tp_recv_ar t) c" "tp_recv_ar ?t = ar_update (tp_recv_ar t) c"
      using tp_delivered_step Some d by blast+
    then have "ar_represents (tp_recv_ar ?t) (insert (unat c) S)" using ar.records [OF Cons.prems] by simp
    from Cons.IH [OF this] show ?thesis by (simp add: Some d)
  qed
qed simp

lemma fresh_counter:
  assumes "ar_check (tp_recv_ar (tp_run ae (tp_new_from_hs i j b ks now) es)) c"
  shows "c \<notin> fst ` set (tp_deliveries ae (tp_new_from_hs i j b ks now) es)"
  using ar.refuses_seen [OF tp_run_represents [of "tp_new_from_hs i j b ks now" "{}" ae es], of c] assms ar_new_represents
  by auto

text \<open>
  C11: Every session of every peer of an interface, in every reachable state, is a run of the session
  machine from a new session. So what holds of runs holds of it: no two packets it ever sent share a
  nonce, and no two it ever delivered share a counter.
\<close>

theorem sessions_are_runs:
  assumes "wg_reachable o' x w" "r \<in> live w" "t \<in> set (ps_transports (ws_peers w r))"
  shows "\<exists>i j b ks now es. t = tp_run (x_aead x) (tp_new_from_hs i j b ks now) es \<and>
    distinct (map packet_nonce (tp_wire (x_aead x) (tp_new_from_hs i j b ks now) es)) \<and>
    distinct (map fst (tp_deliveries (x_aead x) (tp_new_from_hs i j b ks now) es))"
proof -
  have "session_run (x_aead x) t"
    using all_sessionsD [OF sessions.reachable_sessions [OF assms(1) refl] assms(2,3)] .
  then obtain i j b ks now es where t: "length j = 4" "t = tp_run (x_aead x) (tp_new_from_hs i j b ks now) es"
    unfolding session_run_def by blast
  have "ar_represents (tp_recv_ar (tp_new_from_hs i j b ks now)) {}" using ar_new_represents by simp
  then show ?thesis
    using t tp_wire_nonces [of "tp_new_from_hs i j b ks now"] tp_deliveries_fresh by (metis tp_new_sel(2))
qed

end
