(* ===== verification/Wg_Guarantees.thy ===== *)
theory Wg_Guarantees
  imports Wg_Sessions
begin

text \<open>
  What an interface guarantees about the packets it handles, in every reachable state: what reaches
  the tunnel, and where a packet from the tunnel goes.
\<close>

section \<open>Delivery\<close>

lemma wg_reachable_inv: "wg_reachable o' x w \<Longrightarrow> wg_inv w"
  using reachable_full_inv full_invD(1) by blast

lemma find_peer_by_ip_longest:
  assumes "wg_inv w" "find_peer_by_ip w a = Some r"
  shows "r \<in> live w \<and> (\<exists>l \<le> ip_width a. (ip_masked a l, l) \<in> peer_allowed_ips w r \<and>
    (\<forall>r' \<in> live w. \<forall>l' \<le> ip_width a. (ip_masked a l', l') \<in> peer_allowed_ips w r' \<longrightarrow> l' \<le> l))"
  using assms(2) by (simp add: find_peer_by_ip_iff [OF assms(1)])

lemma udp_processing_write:
  assumes "udp_processing cx p addr w = Some (out, w')" "writes out pkt"
  obtains r e h v where "transport_begin cx p addr w = TransportGo r (Some pkt) e h v" "12 \<le> length p" "p ! 0 = 4"
proof -
  have t: "udp_process_transport cx p addr w = Some (out, w')" "12 \<le> length p" "p ! 0 = 4"
    using assms
    by (auto simp: udp_processing_def Let_def split: if_splits
        dest: handshake_init_no_write [where pkt = pkt] handshake_resp_no_write [where pkt = pkt] cookie_reply_no_write [where pkt = pkt])
  then obtain r m e h v where go: "transport_begin cx p addr w = TransportGo r m e h v" "transport_commit cx r m e h addr v = Some (out, w')"
    using assms(2) by (auto simp: udp_process_transport_def split: transport_outcome.splits)
  then have "m = Some pkt" using assms(2) by (auto simp: transport_commit_def split: option.splits if_splits)
  then show thesis using that go(1) t by blast
qed

lemma tp_run_self_id: "tp_self_id (tp_run ae t es) = tp_self_id t"
proof (induction es arbitrary: t)
  case (Cons e es)
  have "tp_self_id (tp_step ae t e) = tp_self_id t"
    by (auto simp: tp_step_def tp_encrypt_eq tp_tick_def tp_decrypt_def Let_def
        split: tp_event.splits option.splits prod.splits if_splits)
  then show ?case using Cons.IH by simp
qed simp


section \<open>Sending\<close>

definition padded_packet :: "'h wg_state \<Rightarrow> bytes \<Rightarrow> bytes" where
  "padded_packet w pkt = pkt @ replicate (unat (pad_len (of_nat (length pkt)) (ucast (ws_mtu w))) - length pkt) 0"

lemma tp_wire_snoc:
  "tp_wire ae t (es @ [e]) = tp_wire ae t es @ (case tp_sent ae (tp_run ae t es) e of Some out \<Rightarrow> [out] | None \<Rightarrow> [])"
  by (induction es arbitrary: t) simp_all

lemma fresh_nonce:
  assumes "length j = 4" "t = tp_run ae (tp_new_from_hs i j b ks now) es" "tp_get_should_send t"
    "tp_send_counter t < REJECT_AFTER_MESSAGES"
  shows "tp_send_counter t \<notin> packet_nonce ` set (tp_wire ae (tp_new_from_hs i j b ks now) es)"
proof -
  let ?t0 = "tp_new_from_hs i j b ks now"
  have j: "length (tp_peer_id t) = 4"
  proof -
    have "tp_peer_id (tp_run ae u es) = tp_peer_id u" if "length (tp_peer_id u) = 4" for u
      using that by (induction es arbitrary: u) (simp_all add: tp_step_sent(4))
    then show ?thesis using assms(1,2) by simp
  qed
  have "\<not> REJECT_AFTER_MESSAGES \<le> tp_send_counter t" using assms(4) by simp
  then obtain out where out: "tp_sent ae t (TpSend []) = Some out"
    using assms(3) tp_encrypt_eq [of ae t "[]"] by (simp add: tp_sent_def)
  have "distinct (map packet_nonce (tp_wire ae ?t0 (es @ [TpSend []])))"
    using tp_wire_nonces [of ?t0 ae "es @ [TpSend []]"] assms(1) by simp
  then have "packet_nonce out \<notin> packet_nonce ` set (tp_wire ae ?t0 es)" by (simp add: tp_wire_snoc assms(2) [symmetric] out)
  then show ?thesis using tp_step_sent(1) [OF j out] by simp
qed

lemma tun_packet_processing_routed:
  assumes "tun_packet_processing cx pkt w = Some (out, w')"
    and "parse_ip_packet (padded_packet w pkt) = Some (len, src, dst)" "find_peer_by_ip w dst = Some r"
    and "pi_endpoint (ps_info (ws_peers w r)) = Some endpoint"
  shows "case ps_find_transport_to_send (ws_peers w r) of
      None \<Rightarrow> out = [] \<and> (let p = ps_enqueue_packet (cx_now cx) (padded_packet w pkt) (ws_peers w r); v = update_peer r (\<lambda>_. p) w in
        w' = (if ps_really_should_handshake (cx_now cx) p then do_handshake (cx_now cx) r v else v))
    | Some i \<Rightarrow> \<exists>res h t. tp_encrypt (x_aead (cx_ext cx)) (ps_transports (ws_peers w r) ! i) (padded_packet w pkt)
          (length (padded_packet w pkt) + 32) = Some ((res, h), t) \<and>
        out = (case res of None \<Rightarrow> [] | Some e \<Rightarrow> [SendUdp e endpoint])"
  using assms unfolding padded_packet_def [symmetric]
  by (auto simp: tun_packet_processing_def padded_packet_def [symmetric] ps_get_endpoint_def Let_def simp del: length_append
      split: if_splits option.splits prod.splits)

lemma tun_packet_cases:
  assumes run: "tun_packet_processing cx pkt w = Some (out, w')"
  shows "(out = [] \<and> w' = w) \<or>
    (\<exists>len src dst r endpoint. parse_ip_packet (padded_packet w pkt) = Some (len, src, dst) \<and> find_peer_by_ip w dst = Some r \<and>
       ps_get_endpoint (ws_peers w r) = Some endpoint \<and>
       (case ps_find_transport_to_send (ws_peers w r) of
          None \<Rightarrow> out = [] \<and> (let p = ps_enqueue_packet (cx_now cx) (padded_packet w pkt) (ws_peers w r); v = update_peer r (\<lambda>_. p) w in
            w' = (if ps_really_should_handshake (cx_now cx) p then do_handshake (cx_now cx) r v else v))
        | Some i \<Rightarrow> \<exists>res h t. tp_encrypt (x_aead (cx_ext cx)) (ps_transports (ws_peers w r) ! i) (padded_packet w pkt)
              (length (padded_packet w pkt) + 32) = Some ((res, h), t) \<and>
            out = (case res of None \<Rightarrow> [] | Some e \<Rightarrow> [SendUdp e endpoint])))"
  using run unfolding padded_packet_def [symmetric]
  by (auto simp: tun_packet_processing_def padded_packet_def [symmetric] Let_def simp del: length_append
      split: if_splits option.splits prod.splits)



end
