(* ===== verification/Wg_End_To_End.thy ===== *)
theory Wg_End_To_End
  imports Wg_Guarantees
begin

text \<open>
  Two interfaces together. If a peer of one interface is configured as the other one, the handshake
  loop of the first, the handler of the initiation at the second and the handler of the response at
  the first bring every queued packet to the tunnel of the second, in order, when the network
  delivers the messages. \<open>Wg_Examples\<close> runs this exchange between two concrete interfaces.
\<close>

section \<open>A receiving session that is in step with the sender\<close>

definition in_step :: "anti_replay \<Rightarrow> nat \<Rightarrow> bool" where
  "in_step ar n \<longleftrightarrow> (\<exists>sp. ar_refines ar sp \<and> sp_seen sp \<subseteq> {..<n} \<and> sp_last sp \<le> n)"

lemma in_step_new: "in_step ar_new 0"
  unfolding in_step_def using ar_new_refines by (intro exI [of _ sp_new]) (simp add: sp_new_def)

lemma in_step_check: "in_step ar n \<Longrightarrow> unat c = n \<Longrightarrow> ar_check ar c"
  by (auto simp: in_step_def ar_check_refines sp_check_def)

lemma in_step_update: "in_step ar n \<Longrightarrow> unat c = n \<Longrightarrow> in_step (ar_update ar c) (Suc n)"
proof -
  assume "in_step ar n" and c: "unat c = n"
  then obtain sp where sp: "ar_refines ar sp" "sp_seen sp \<subseteq> {..<n}" "sp_last sp \<le> n" by (auto simp: in_step_def)
  have "sp_check sp (unat c)" using sp c by (auto simp: sp_check_def)
  then have "ar_refines (ar_update ar c) (sp_accept sp n)" using ar_update_refines [OF sp(1), of c] c by simp
  then show ?thesis unfolding in_step_def using sp by (intro exI [of _ "sp_accept sp n"]) (auto simp: sp_accept_def)
qed

lemma in_step_represents: "in_step ar n \<Longrightarrow> \<exists>seen. ar_represents ar seen"
  by (auto simp: in_step_def ar_represents_def)

text \<open>A packet with the next counter is delivered and moves the receiver one step on.\<close>

lemma in_step_deliver:
  assumes "aead_ok ae" "length (tp_peer_id s) = 4" "tp_send_key s = tp_recv_key t" "tp_not_too_old t"
    and "unat (tp_send_counter s) = n" "in_step (tp_recv_ar t) n" "tp_send_counter s < REJECT_AFTER_MESSAGES"
  obtains d h s' h' t' where
    "tp_encrypt ae s q (length q + 32) = Some ((Some d, h), s')" "length d = length q + 32"
    "slice 0 4 d = [4, 0, 0, 0]" "slice 4 8 d = tp_peer_id s"
    "s' = s\<lparr>tp_send_counter := tp_send_counter s + 1\<rparr>"
    "tp_decrypt ae t d (length q) = Some (Some (h', q), t')" "tp_self_id t' = tp_self_id t"
    "tp_recv_key t' = tp_recv_key t" "tp_not_too_old t'" "in_step (tp_recv_ar t') (Suc n)"
proof -
  define d where "d = [4, 0, 0, 0] @ tp_peer_id s @ le_bytes 8 (tp_send_counter s) @
    ae_encrypt ae (replicate 4 0 @ le_bytes 8 (tp_send_counter s)) (tp_send_key s) [] q"
  define s' where "s' = s\<lparr>tp_send_counter := tp_send_counter s + 1\<rparr>"
  obtain h where enc: "tp_encrypt ae s q (length q + 32) = Some ((Some d, h), s')"
    using assms(7) by (auto simp: tp_encrypt_eq d_def s'_def not_le)
  obtain seen where seen: "ar_represents (tp_recv_ar t) seen" using in_step_represents assms(6) by blast
  note check = in_step_check [OF assms(6,5)]
  obtain h' t' where dec: "length d = length q + 32" "tp_decrypt ae t d (length q) = Some (Some (h', q), t')"
    using tp_deliver [OF assms(1-3) enc assms(4) seen check] by blast
  have parts: "slice 0 4 d = [4, 0, 0, 0]" "slice 4 8 d = tp_peer_id s" "slice 8 16 d = le_bytes 8 (tp_send_counter s)"
    using assms(2) by (simp_all add: d_def slice_def)
  have t': "t' = t\<lparr>tp_recv_ar := ar_update (tp_recv_ar t) (tp_send_counter s),
      tp_has_received := tp_has_received t \<or> \<not> tp_is_initiator t\<rparr>" "tp_not_too_old t"
    using tp_decrypt_Ok [of ae t d h' q t'] dec parts(3) by (simp_all add: le_word_bytes)
  show thesis
    by (rule that [OF enc dec(1) parts(1,2) s'_def dec(2)])
      (use t' in_step_update [OF assms(6,5)] in simp_all)
qed

section \<open>Receiving a list of datagrams\<close>

fun receive :: "socket_addr_v6 \<Rightarrow> ('h ctx \<times> bytes) list \<Rightarrow> 'h wg_state \<Rightarrow> 'h handled" where
  "receive addr [] w = Some ([], w)"
| "receive addr ((cx, d) # ds) w =
     (case udp_processing cx d addr w of
        None \<Rightarrow> None
      | Some (out, w) \<Rightarrow> map_option (\<lambda>(out', w). (out @ out', w)) (receive addr ds w))"

definition inner_packet :: "bytes \<Rightarrow> bytes" where
  "inner_packet q = (case parse_ip_packet q of Some (len, _, _) \<Rightarrow> take (unat len) q | None \<Rightarrow> [])"

text \<open>A packet that cryptokey routing lets in from the peer.\<close>

definition routed_from :: "'h wg_state \<Rightarrow> nat \<Rightarrow> bytes \<Rightarrow> bool" where
  "routed_from w r q \<longleftrightarrow> (case parse_ip_packet q of
     Some (len, src, _) \<Rightarrow> find_peer_by_ip w src = Some r \<and> unat len \<le> length q | None \<Rightarrow> False)"

lemma packet_to_write_routed: "routed_from w r q \<Longrightarrow> packet_to_write w r q = Some (inner_packet q)"
  by (auto simp: routed_from_def packet_to_write_def inner_packet_def split: option.splits)

definition receives :: "'h wg_state \<Rightarrow> nat \<Rightarrow> wg_id \<Rightarrow> bytes \<Rightarrow> nat \<Rightarrow> bool" where
  "receives w r i key n \<longleftrightarrow> ws_id_map w i = Some r \<and>
     (\<exists>k t. ps_find_transport_by_id i (ws_peers w r) = Some k \<and> ps_transports (ws_peers w r) ! k = t \<and>
        k < length (ps_transports (ws_peers w r)) \<and>
        tp_recv_key t = key \<and> tp_not_too_old t \<and> in_step (tp_recv_ar t) n)"

lemma find_index_map_cong:
  "map f xs = map f ys \<Longrightarrow> find_index (\<lambda>t. f t = i) xs = find_index (\<lambda>t. f t = i) ys"
proof (induction xs arbitrary: ys)
  case (Cons x xs)
  then show ?case by (cases ys) auto
qed simp

lemma routed_from_cong:
  "ws_rt4 w' = ws_rt4 w \<Longrightarrow> ws_rt6 w' = ws_rt6 w \<Longrightarrow> routed_from w' r q = routed_from w r q"
  by (simp add: routed_from_def find_peer_by_ip_def split: option.splits ip_addr.splits)

lemma do_handshake_sel:
  "ws_rt4 (do_handshake now r w) = ws_rt4 w" "ws_rt6 (do_handshake now r w) = ws_rt6 w"
  "ps_transports (ws_peers (do_handshake now r w) q) = ps_transports (ws_peers w q)"
  by (simp_all add: do_handshake_def update_peer_def Let_def)

lemma transport_commit_receives:
  assumes "set_endpoint \<longrightarrow> pi_roaming (ps_info (ws_peers w r))"
  obtains w' where "transport_commit cx r (Some pkt) set_endpoint handshake addr w = Some ([WriteTun pkt], w')"
    "ws_id_map w' = ws_id_map w" "ws_rt4 w' = ws_rt4 w" "ws_rt6 w' = ws_rt6 w"
    "ps_transports (ws_peers w' r) = ps_transports (ws_peers w r)"
  using assms
  by (cases handshake; cases set_endpoint)
    (auto simp: transport_commit_def ps_set_endpoint_def do_handshake_sel do_handshake_same update_peer_def)

lemma transport_begin_ok:
  assumes "32 \<le> length d" "slice 4 8 d = i" "length i = 4" "ws_id_map w i = Some r"
    and "ps_find_transport_by_id i (ps_count_recv (length d) (ws_peers w r)) = Some k"
    and "tp_decrypt (x_aead (cx_ext cx)) (ps_transports (ps_count_recv (length d) (ws_peers w r)) ! k) d (length d - 32) =
      Some (Some (h, q), t')"
  shows "\<exists>g. transport_begin cx d addr w =
    (let p1 = ps_on_recv (cx_now cx) (q = []) (set_transport k t' (ps_count_recv (length d) (ws_peers w r)));
         v = update_peer r (\<lambda>_. p1) w
     in TransportGo r (packet_to_write v r q) (pi_endpoint (ps_info p1) \<noteq> Some addr \<and> pi_roaming (ps_info p1)) g v)"
  using assms by (simp add: transport_begin_def id_from_slice_def find_peer_by_id_def Let_def)

text \<open>The next packet of the sender reaches the tunnel.\<close>

lemma receives_deliver:
  assumes x: "aead_ok (x_aead x)" and s: "length i = 4" "tp_peer_id s = i" "tp_send_key s = key"
    "unat (tp_send_counter s) = n" "tp_send_counter s < REJECT_AFTER_MESSAGES"
    and w: "receives w r i key n" "routed_from w r q"
  obtains d h where
    "tp_encrypt (x_aead x) s q (length q + 32) = Some ((Some d, h), s\<lparr>tp_send_counter := tp_send_counter s + 1\<rparr>)"
    "\<forall>cx. cx_ext cx = x \<longrightarrow> (\<exists>w'. udp_processing cx d addr w = Some ([WriteTun (inner_packet q)], w') \<and>
       receives w' r i key (Suc n) \<and> ws_rt4 w' = ws_rt4 w \<and> ws_rt6 w' = ws_rt6 w)"
proof -
  obtain k t where id: "ws_id_map w i = Some r" and k: "ps_find_transport_by_id i (ws_peers w r) = Some k"
    "ps_transports (ws_peers w r) ! k = t" "k < length (ps_transports (ws_peers w r))"
    and t: "tp_recv_key t = key" "tp_not_too_old t" "in_step (tp_recv_ar t) n"
    using w(1) by (auto simp: receives_def)
  have s_len: "length (tp_peer_id s) = 4" "tp_send_key s = tp_recv_key t" using s t by simp_all
  obtain d h s' h' t' where d: "tp_encrypt (x_aead x) s q (length q + 32) = Some ((Some d, h), s')" "length d = length q + 32"
    "slice 0 4 d = [4, 0, 0, 0]" "slice 4 8 d = tp_peer_id s" "s' = s\<lparr>tp_send_counter := tp_send_counter s + 1\<rparr>"
    and dec: "tp_decrypt (x_aead x) t d (length q) = Some (Some (h', q), t')"
    and t': "tp_self_id t' = tp_self_id t" "tp_recv_key t' = tp_recv_key t" "tp_not_too_old t'" "in_step (tp_recv_ar t') (Suc n)"
    by (rule in_step_deliver [OF x s_len t(2) s(4) t(3) s(5), of q])
  have ty: "d ! 0 = 4"
  proof -
    have "d ! 0 = slice 0 4 d ! 0" by (simp add: slice_def)
    then show ?thesis by (simp add: d(3))
  qed
  have "\<exists>w'. udp_processing cx d addr w = Some ([WriteTun (inner_packet q)], w') \<and>
       receives w' r i key (Suc n) \<and> ws_rt4 w' = ws_rt4 w \<and> ws_rt6 w' = ws_rt6 w" if cx: "cx_ext cx = x" for cx
  proof -
    define p0 where "p0 = ps_count_recv (length d) (ws_peers w r)"
    define p1 where "p1 = ps_on_recv (cx_now cx) (q = []) (set_transport k t' p0)"
    define v where "v = update_peer r (\<lambda>_. p1) w"
    have p0: "ps_transports p0 = ps_transports (ws_peers w r)" "ps_find_transport_by_id i p0 = Some k"
      using k(1) by (simp_all add: p0_def sessions_of ps_find_transport_by_id_def)
    have info: "ps_info p1 = ps_info (set_transport k t' p0)" by (simp add: p1_def ps_on_recv_def Let_def)
    have v: "ws_id_map v = ws_id_map w" "ws_rt4 v = ws_rt4 w" "ws_rt6 v = ws_rt6 w"
      "ps_transports (ws_peers v r) = (ps_transports (ws_peers w r))[k := t']"
      by (simp_all add: v_def update_peer_def p1_def sessions_of p0)
    have written: "packet_to_write v r q = Some (inner_packet q)"
      using packet_to_write_routed routed_from_cong [OF v(2,3)] w(2) by blast
    obtain e g where go: "transport_begin cx d addr w = TransportGo r (Some (inner_packet q)) e g v"
      "e \<longrightarrow> pi_roaming (ps_info (ws_peers v r))"
    proof -
      have pre: "32 \<le> length d" "slice 4 8 d = i" using d(2,4) s(2) by simp_all
      have find: "ps_find_transport_by_id i (ps_count_recv (length d) (ws_peers w r)) = Some k" using p0(2) by (simp add: p0_def)
      have "tp_decrypt (x_aead (cx_ext cx)) (ps_transports (ps_count_recv (length d) (ws_peers w r)) ! k) d (length d - 32) =
          Some (Some (h', q), t')"
        using dec d(2) p0(1) k(2) cx by (simp add: p0_def)
      from transport_begin_ok [OF pre(1,2) s(1) id find this, of addr]
      obtain g where "transport_begin cx d addr w =
          TransportGo r (packet_to_write v r q) (pi_endpoint (ps_info p1) \<noteq> Some addr \<and> pi_roaming (ps_info p1)) g v"
        by (auto simp: Let_def p0_def [symmetric] p1_def [symmetric] v_def [symmetric])
      then show thesis using that written by (simp add: v_def update_peer_def)
    qed
    obtain w' where commit: "transport_commit cx r (Some (inner_packet q)) e g addr v = Some ([WriteTun (inner_packet q)], w')"
      "ws_id_map w' = ws_id_map v" "ws_rt4 w' = ws_rt4 v" "ws_rt6 w' = ws_rt6 v"
      "ps_transports (ws_peers w' r) = ps_transports (ws_peers v r)"
      by (rule transport_commit_receives [OF go(2)])
    have "map tp_self_id ((ps_transports (ws_peers w r))[k := t']) = map tp_self_id (ps_transports (ws_peers w r))"
      using t'(1) k(2,3) by (simp add: map_update list_update_same_conv)
    then have "find_index (\<lambda>t. tp_self_id t = i) ((ps_transports (ws_peers w r))[k := t']) =
        find_index (\<lambda>t. tp_self_id t = i) (ps_transports (ws_peers w r))"
      by (rule find_index_map_cong)
    then have "receives w' r i key (Suc n)"
      unfolding receives_def
      using commit(2,5) v id k t t' by (auto simp: ps_find_transport_by_id_def)
    moreover have "udp_processing cx d addr w = Some ([WriteTun (inner_packet q)], w')"
      using d(2) ty go(1) commit(1) by (simp add: udp_processing_def udp_process_transport_def Let_def)
    ultimately show ?thesis using commit(3,4) v by auto
  qed
  then show thesis using that d(1,5) by blast
qed

text \<open>All packets of a queue that the handler of the response sends, one after the other.\<close>

definition carried :: "'h hs_externals \<Rightarrow> socket_addr_v6 \<Rightarrow> bytes list \<Rightarrow> bytes list \<Rightarrow> 'h wg_state \<Rightarrow> bool" where
  "carried x addr qs ds w \<longleftrightarrow> length ds = length qs \<and>
     (\<forall>cxs. length cxs = length qs \<and> (\<forall>cx \<in> set cxs. cx_ext cx = x) \<longrightarrow>
        (\<exists>w'. receive addr (zip cxs ds) w = Some (map (\<lambda>q. WriteTun (inner_packet q)) qs, w')))"

lemma carried_Nil: "carried x addr [] [] w"
  by (simp add: carried_def)

lemma carried_Cons:
  fixes x :: "'h hs_externals" and w :: "'h wg_state"
  assumes step: "\<And>cx. cx_ext cx = x \<Longrightarrow>
      \<exists>w'. udp_processing cx d addr w = Some ([WriteTun (inner_packet q)], w') \<and> carried x addr qs ds w'"
    and len: "length ds = length qs"
  shows "carried x addr (q # qs) (d # ds) w"
  unfolding carried_def
proof (rule conjI, simp add: len, rule allI, rule impI)
  fix cxs :: "'h ctx list"
  assume all: "length cxs = length (q # qs) \<and> (\<forall>cx \<in> set cxs. cx_ext cx = x)"
  then have "cxs \<noteq> []" by (rule conjE) (rule notI, simp)
  then obtain cx cxs' where cxs: "cxs = cx # cxs'" by (auto simp only: neq_Nil_conv)
  have cx: "cx_ext cx = x" and rest: "length cxs' = length qs \<and> (\<forall>cx \<in> set cxs'. cx_ext cx = x)"
    using all by (simp_all add: cxs)
  obtain w' where w': "udp_processing cx d addr w = Some ([WriteTun (inner_packet q)], w')" "carried x addr qs ds w'"
    using step [OF cx] by blast
  obtain v where "receive addr (zip cxs' ds) w' = Some (map (\<lambda>q. WriteTun (inner_packet q)) qs, v)"
    using w'(2) rest unfolding carried_def by blast
  then show "\<exists>w'. receive addr (zip cxs (d # ds)) w = Some (map (\<lambda>q. WriteTun (inner_packet q)) (q # qs), w')"
    using w'(1) by (simp add: cxs)
qed

lemma queue_carried:
  fixes x :: "'h hs_externals"
  assumes x: "aead_ok (x_aead x)" and i: "length i = 4"
  shows "tp_peer_id s = i \<Longrightarrow> tp_send_key s = key \<Longrightarrow> unat (tp_send_counter s) = n \<Longrightarrow>
    unat (tp_send_counter s) + length qs \<le> unat REJECT_AFTER_MESSAGES \<Longrightarrow> \<forall>q \<in> set qs. length q + 32 \<le> BUFSIZE \<Longrightarrow>
    \<exists>ds s'. send_queued (x_aead x) addr' s qs = Some (map (\<lambda>d. SendUdp d addr') ds, s') \<and> length ds = length qs \<and>
      (\<forall>w. receives w r i key n \<and> (\<forall>q \<in> set qs. routed_from w r q) \<longrightarrow> carried x addr qs ds w)"
proof (induction qs arbitrary: s n)
  case (Cons q qs)
  let ?s = "s\<lparr>tp_send_counter := tp_send_counter s + 1\<rparr>"
  have below: "tp_send_counter s < REJECT_AFTER_MESSAGES" using Cons.prems(4) by (simp add: word_less_nat_alt)
  have c: "unat (tp_send_counter ?s) = Suc n" using u64_Suc [OF below] Cons.prems(3) by simp
  have len: "unat (tp_send_counter ?s) + length qs \<le> unat REJECT_AFTER_MESSAGES" using Cons.prems(3,4) c by simp
  have sel: "tp_peer_id ?s = i" "tp_send_key ?s = key" "\<forall>q \<in> set qs. length q + 32 \<le> BUFSIZE" using Cons.prems(1,2,5) by simp_all
  obtain ds s' where IH: "send_queued (x_aead x) addr' ?s qs = Some (map (\<lambda>d. SendUdp d addr') ds, s')" "length ds = length qs"
    "\<forall>w. receives w r i key (Suc n) \<and> (\<forall>q \<in> set qs. routed_from w r q) \<longrightarrow> carried x addr qs ds w"
    using Cons.IH [OF sel(1,2) c len sel(3)] by blast
  obtain d h where enc: "tp_encrypt (x_aead x) s q (length q + 32) = Some ((Some d, h), ?s)"
    using below Cons.prems(1) by (auto simp: tp_encrypt_eq not_le)
  have all: "carried x addr (q # qs) (d # ds) w" if w: "receives w r i key n" "\<forall>q \<in> set (q # qs). routed_from w r q" for w :: "'h wg_state"
  proof (rule carried_Cons [OF _ IH(2)])
    fix cx :: "'h ctx" assume cx: "cx_ext cx = x"
    have q: "routed_from w r q" using w(2) by simp
    obtain d' h' where d': "tp_encrypt (x_aead x) s q (length q + 32) = Some ((Some d', h'), ?s)"
      "\<forall>cx. cx_ext cx = x \<longrightarrow> (\<exists>w'. udp_processing cx d' addr w = Some ([WriteTun (inner_packet q)], w') \<and>
         receives w' r i key (Suc n) \<and> ws_rt4 w' = ws_rt4 w \<and> ws_rt6 w' = ws_rt6 w)"
      by (rule receives_deliver [where addr = addr, OF x i Cons.prems(1-3) below w(1) q])
    obtain w' where w': "udp_processing cx d addr w = Some ([WriteTun (inner_packet q)], w')" "receives w' r i key (Suc n)"
      "ws_rt4 w' = ws_rt4 w" "ws_rt6 w' = ws_rt6 w"
      using d'(2) [rule_format, OF cx] d'(1) enc by auto
    then have "\<forall>q \<in> set qs. routed_from w' r q" using w(2) routed_from_cong [OF w'(3,4)] by simp
    then show "\<exists>w'. udp_processing cx d addr w = Some ([WriteTun (inner_packet q)], w') \<and> carried x addr qs ds w'"
      using w' IH(3) by blast
  qed
  have sent: "send_queued (x_aead x) addr' s (q # qs) = Some (map (\<lambda>d. SendUdp d addr') (d # ds), s')"
    using Cons.prems(5) enc IH(1) by simp
  show ?case
  proof (rule exI [of _ "d # ds"], rule exI [of _ s'], intro conjI allI impI)
    show "length (d # ds) = length (q # qs)" using IH(2) by simp
    fix w :: "'h wg_state" assume w: "receives w r i key n \<and> (\<forall>q \<in> set (q # qs). routed_from w r q)"
    show "carried x addr (q # qs) (d # ds) w" by (rule all) (rule w [THEN conjunct1], rule w [THEN conjunct2])
  qed (rule sent)
qed (simp add: carried_Nil)

lemma send_queued_session:
  "send_queued ae addr t qs = Some (out, t') \<Longrightarrow>
    tp_get_should_send t' = tp_get_should_send t \<and> unat (tp_send_counter t') = unat (tp_send_counter t) + length qs"
proof (induction qs arbitrary: t out)
  case (Cons q qs)
  obtain e h u out' where enc: "tp_encrypt ae t q (length q + 32) = Some ((Some e, h), u)"
    and rest: "send_queued ae addr u qs = Some (out', t')"
    using Cons.prems by (auto split: if_splits option.splits prod.splits)
  have c: "tp_send_counter t < REJECT_AFTER_MESSAGES" and u: "u = t\<lparr>tp_send_counter := tp_send_counter t + 1\<rparr>"
    using enc by (auto simp: tp_encrypt_eq not_le split: if_splits)
  show ?case using Cons.IH [OF rest] u64_Suc [OF c] by (simp add: u tp_get_should_send_def)
qed simp

section \<open>Signed messages\<close>

text \<open>Signing changes the last 16 bytes, which no check of the receiver reads when it is not under load.\<close>

lemma signed_parts:
  assumes "externals_ok x" "cookie_sign x m c = Some s" "16 \<le> length m"
  shows "length s = length m" "take (length m - 16) s = take (length m - 16) m"
  using cookie_sign_length [OF assms(1,2)] cookie_sign_take [OF assms(2) le_refl] by simp_all

lemma slice_take: "take n s = take n m \<Longrightarrow> b \<le> n \<Longrightarrow> slice a b s = slice a b m"
proof -
  assume t: "take n s = take n m" and b: "b \<le> n"
  have "take b s = take b (take n s)" using b by (simp add: min_def)
  also have "\<dots> = take b m" using b by (simp add: t min_def)
  finally show ?thesis by (simp add: slice_def take_drop [symmetric] drop_take [symmetric])
qed

lemma verify_mac1_signed:
  assumes "externals_ok x" "cookie_sign x m c = Some s" "32 \<le> length m"
  shows "verify_mac1 x wg s = verify_mac1 x wg m"
proof -
  have l: "16 \<le> length m" using assms(3) by simp
  note t = signed_parts [OF assms(1,2) l]
  have "take (length m - 32) s = take (length m - 32) (take (length m - 16) s)" by (simp add: min_def)
  also have "\<dots> = take (length m - 32) m" by (simp add: t(2) min_def)
  finally have 1: "take (length m - 32) s = take (length m - 32) m" .
  have 2: "take 16 (drop (length m - 32) s) = take 16 (drop (length m - 32) m)"
    using slice_take [OF t(2) le_refl, of "length m - 32"] assms(3) by (simp add: slice_def)
  show ?thesis by (simp add: verify_mac1_def t(1) 1 2 Let_def)
qed

lemma get_mac1_total: "32 \<le> length m \<Longrightarrow> \<exists>mac. get_mac1 m = Some mac"
  by (simp add: get_mac1_def Let_def)

lemma process_initiation_signed:
  assumes "externals_ok x" "cookie_sign x m c = Some s" "length m = HANDSHAKE_INIT_LEN"
  shows "process_initiation x wg s = process_initiation x wg m"
proof -
  have l: "16 \<le> length m" using assms(3) by (simp add: HANDSHAKE_INIT_LEN_def)
  note t = signed_parts [OF assms(1,2) l]
  have "slice 0 4 s = slice 0 4 m" "slice 4 8 s = slice 4 8 m" "slice 8 116 s = slice 8 116 m"
    by (rule slice_take [OF t(2)], simp add: assms(3) HANDSHAKE_INIT_LEN_def)+
  then show ?thesis by (simp only: process_initiation_def t(1))
qed

lemma process_response_signed:
  assumes "externals_ok x" "cookie_sign x m c = Some s" "length m = HANDSHAKE_RESP_LEN"
  shows "process_response x hs s = process_response x hs m" "slice 8 12 s = slice 8 12 m"
proof -
  have l: "16 \<le> length m" using assms(3) by (simp add: HANDSHAKE_RESP_LEN_def)
  note t = signed_parts [OF assms(1,2) l]
  have "slice 0 4 s = slice 0 4 m" "slice 4 8 s = slice 4 8 m" "slice 12 60 s = slice 12 60 m"
    by (rule slice_take [OF t(2)], simp add: assms(3) HANDSHAKE_RESP_LEN_def)+
  then show "process_response x hs s = process_response x hs m" by (simp only: process_response_def t(1))
  show "slice 8 12 s = slice 8 12 m" by (rule slice_take [OF t(2)]) (simp add: assms(3) HANDSHAKE_RESP_LEN_def)
qed

lemma first_byte: "slice 0 4 s = [b, 0, 0, 0] \<Longrightarrow> s ! 0 = b"
proof -
  assume "slice 0 4 s = [b, 0, 0, 0]"
  then have "take 4 s ! 0 = b" by (simp add: slice_def)
  then show ?thesis by simp
qed

section \<open>The three steps of a handshake\<close>

lemma initiation_sent:
  assumes x: "externals_ok x" "cx_ext cx = x"
    and e: "pi_endpoint (ps_info (ws_peers w a)) = Some addr"
    and m: "initiate x (ws_info w) (ps_info (ws_peers w a)) (cx_id cx) (cx_ephemeral cx) (cx_tai_now cx) = ROk (m, hs)"
      "length m = HANDSHAKE_INIT_LEN"
    and i: "cx_id cx \<notin> set (ps_guards (ws_peers w a))"
    and due: "ps_resend_scope (ws_peers w a) = Some due" "due \<le> cx_now cx"
  obtains s c w' where "handshake_loop cx a w = Some ([SendUdp s addr], w')" "cookie_sign x m c = Some s"
    "ws_rt4 w' = ws_rt4 w" "ws_rt6 w' = ws_rt6 w" "ps_info (ws_peers w' a) = ps_info (ws_peers w a)"
    "ws_info w' = ws_info w" "ws_load_monitor w' = ws_load_monitor w" "ws_id_map w' (cx_id cx) = Some a"
    "ps_handshake (ws_peers w' a) = Some \<lparr>hk_self_id = cx_id cx, hk_hs = hs\<rparr>"
    "ps_queue (ws_peers w' a) = ps_queue (ws_peers w a)"
proof -
  obtain s where s: "cookie_sign x m (ps_get_cookie (cx_now cx) (ws_peers w a)) = Some s"
    using cookie_sign_total [of m] m(2) by (auto simp: HANDSHAKE_INIT_LEN_def)
  have "length s = HANDSHAKE_INIT_LEN" using signed_parts(1) [OF x(1) s] m(2) by (simp add: HANDSHAKE_INIT_LEN_def)
  then obtain mac where mac: "get_mac1 s = Some mac" using get_mac1_total [of s] by (auto simp: HANDSHAKE_INIT_LEN_def)
  define old where "old = (case ps_handshake (ws_peers w a) of None \<Rightarrow> [] | Some h \<Rightarrow> [hk_self_id h])"
  have old: "cx_id cx \<notin> set old" using i by (auto simp: ps_guards_def old_def split: option.splits)
  define p where "p = ps_count_send (length s) ((ws_peers w a)\<lparr>ps_last_mac1 := Some mac,
    ps_handshake := Some \<lparr>hk_self_id = cx_id cx, hk_hs = hs\<rparr>\<rparr>)"
  let ?v = "drop_guards old (update_peer a (\<lambda>_. p) (w\<lparr>ws_id_map := (ws_id_map w)(cx_id cx \<mapsto> a)\<rparr>))"
  let ?w = "update_peer a (\<lambda>peer. peer\<lparr>ps_resend_scope := Some (cx_now cx + millis (cx_delay_ms cx))\<rparr>) ?v"
  have "handshake_send cx a w = Some ([SendUdp s addr], ?v)"
    using x(2) e m(1) s mac by (simp add: handshake_send_def old_def p_def Let_def)
  then have "handshake_loop cx a w = Some ([SendUdp s addr], ?w)" using due by (simp add: handshake_loop_def)
  moreover have "ws_id_map ?w (cx_id cx) = Some a" using old by (simp add: drop_guards_def update_peer_def)
  moreover have "ps_handshake (ws_peers ?w a) = Some \<lparr>hk_self_id = cx_id cx, hk_hs = hs\<rparr>"
    "ps_queue (ws_peers ?w a) = ps_queue (ws_peers w a)" "ps_info (ws_peers ?w a) = ps_info (ws_peers w a)"
    by (simp_all add: drop_guards_def update_peer_def p_def ps_count_send_def)
  ultimately show thesis using s by (intro that [of s ?w]) (simp_all add: drop_guards_def update_peer_def)
qed

text \<open>A handler does not run its checks for load.\<close>

definition calm :: "'h ctx \<Rightarrow> 'h wg_state \<Rightarrow> bool" where
  "calm cx w \<longleftrightarrow> \<not> fst (check_handshake_load cx w)"

lemma calmE:
  assumes "calm cx w"
  obtains m where "check_handshake_load cx w = (False, w\<lparr>ws_load_monitor := m\<rparr>)"
  using assms by (auto simp: calm_def check_handshake_load_def Let_def split: if_splits prod.splits)

lemma calm_cong: "ws_load_monitor w' = ws_load_monitor w \<Longrightarrow> calm cx w' = calm cx w"
  by (simp add: calm_def check_handshake_load_def Let_def split: prod.split)

lemma init_peer_responds:
  assumes x: "cx_ext cx = x"
    and n: "newer (ir_timestamp result) (ps_last_handshake (ws_peers w b))"
    and resp: "responde x (result\<lparr>ir_handshake_state := ns_push_psk (x_noise x) (ir_handshake_state result)
        (psk_or_zero (pi_psk (ps_info (ws_peers w b))))\<rparr>) (cx_id cx) (cx_ephemeral cx) = ROk (m, result')"
      "length m = HANDSHAKE_RESP_LEN"
    and ks: "ns_get_ciphers (x_noise x) (ir_handshake_state result') = Some ks"
      "\<not> ns_is_initiator (x_noise x) (ir_handshake_state result')"
  obtains s c w' where "init_peer cx b result p addr w = Some ([SendUdp s addr], w')" "cookie_sign x m c = Some s"
    "ws_rt4 w' = ws_rt4 w" "ws_rt6 w' = ws_rt6 w" "receives w' b (cx_id cx) (fst ks) 0"
    "pi_roaming (ps_info (ws_peers w' b)) = pi_roaming (ps_info (ws_peers w b))" "live w' = live w"
proof -
  define peer1 where "peer1 = (ps_count_recv (length p) (ws_peers w b))\<lparr>ps_last_handshake := Some (ir_timestamp result)\<rparr>"
  obtain mac where mac: "get_mac1 m = Some mac" using get_mac1_total [of m] resp(2) by (auto simp: HANDSHAKE_RESP_LEN_def)
  obtain s where s: "cookie_sign x m (ps_get_cookie (cx_now cx) peer1) = Some s"
    using cookie_sign_total [of m] resp(2) by (auto simp: HANDSHAKE_RESP_LEN_def)
  define t where "t = tp_new_from_hs (cx_id cx) (ir_peer_id result') False ks (cx_now cx)"
  define peer2 where "peer2 = ps_count_send (length s) (peer1\<lparr>ps_last_mac1 := Some mac\<rparr>)"
  obtain peer3 where peer3: "learn_endpoint addr peer2 = Some peer3"
    by (cases "pi_roaming (ps_info peer2)") (simp_all add: learn_endpoint_def ps_set_endpoint_def)
  obtain dropped peer4 where push: "ps_push_transport (cx_now cx) t peer3 = (dropped, peer4)" by fastforce
  define old where "old = (case ps_handshake peer4 of None \<Rightarrow> [] | Some h \<Rightarrow> [hk_self_id h])"
  define v where "v = drop_guards (dropped @ old) (update_peer b (\<lambda>_. peer4\<lparr>ps_handshake := None, ps_resend_scope := None\<rparr>) w)"
  define w' where "w' = v\<lparr>ws_id_map := (ws_id_map v)(cx_id cx \<mapsto> b)\<rparr>"
  have sel: "ps_info (ps_count_recv (length p) (ws_peers w b)) = ps_info (ws_peers w b)"
    "ps_last_handshake (ps_count_recv (length p) (ws_peers w b)) = ps_last_handshake (ws_peers w b)"
    "ps_info peer1 = ps_info (ws_peers w b)"
    by (simp_all add: ps_count_recv_def peer1_def)
  have run: "init_peer cx b result p addr w = Some ([SendUdp s addr], w')"
    using n resp(1) ks mac s peer3 push
    by (simp add: init_peer_def Let_def x sel peer1_def [symmetric] peer2_def [symmetric] t_def [symmetric]
        old_def v_def w'_def)
  have ts: "\<exists>ts. ps_transports peer4 = t # ts"
    using push by (auto simp: ps_push_transport_def ps_on_new_transport_def Let_def split: if_splits)
  have "receives w' b (cx_id cx) (fst ks) 0"
    using ts in_step_new
    by (auto simp: receives_def w'_def v_def update_peer_def drop_guards_def ps_find_transport_by_id_def t_def)
  moreover have "pi_roaming (ps_info peer3) = pi_roaming (ps_info (ws_peers w b))"
    using peer3 by (auto simp: learn_endpoint_def ps_set_endpoint_def peer2_def ps_count_send_def sel split: if_splits)
  then have "pi_roaming (ps_info peer4) = pi_roaming (ps_info (ws_peers w b))"
    using push by (auto simp: ps_push_transport_def ps_on_new_transport_def Let_def split: if_splits)
  ultimately show thesis using that run s by (simp add: w'_def v_def update_peer_def drop_guards_def live_def)
qed

text \<open>The peer an initiation comes from and its time, when it authenticates.\<close>

definition initiation_of :: "'h hs_externals \<Rightarrow> 'h wg_state \<Rightarrow> bytes \<Rightarrow> (nat \<times> tai64n) option" where
  "initiation_of x w p =
     (case process_initiation x (ws_info w) p of
        ROk result \<Rightarrow> Option.bind (ns_get_rs (x_noise x) (ir_handshake_state result)) (\<lambda>pk.
          map_option (\<lambda>r. (r, ir_timestamp result)) (find_peer_by_pubkey w pk))
      | _ \<Rightarrow> None)"

lemma initiation_received:
  assumes x: "externals_ok x" "cx_ext cx = x" and calm: "calm cx w"
    and m: "cookie_sign x m c = Some s" "length m = HANDSHAKE_INIT_LEN"
      "verify_mac1 x (ws_info w) m = Some True" "process_initiation x (ws_info w) m = ROk result"
    and b: "ns_get_rs (x_noise x) (ir_handshake_state result) = Some pk" "find_peer_by_pubkey w pk = Some b"
  shows "\<exists>lm. udp_processing cx s addr w = init_peer cx b result s addr (w\<lparr>ws_load_monitor := lm\<rparr>)"
proof -
  have l: "32 \<le> length m" "16 \<le> length m" using m(2) by (simp_all add: HANDSHAKE_INIT_LEN_def)
  have len: "length s = HANDSHAKE_INIT_LEN" using signed_parts(1) [OF x(1) m(1) l(2)] m(2) by simp
  have mac: "verify_mac1 x (ws_info w) s = Some True" using verify_mac1_signed [OF x(1) m(1) l(1)] m(3) by simp
  have proc: "process_initiation x (ws_info w) s = ROk result" using process_initiation_signed [OF x(1) m(1,2)] m(4) by simp
  then have "slice 0 4 s = [1, 0, 0, 0]" by (auto simp: process_initiation_def split: if_splits)
  then have ty: "s ! 0 = 1" by (rule first_byte)
  obtain lm where load: "check_handshake_load cx w = (False, w\<lparr>ws_load_monitor := lm\<rparr>)" by (rule calmE [OF calm])
  have "find_peer_by_pubkey (w\<lparr>ws_load_monitor := lm\<rparr>) pk = Some b" using b(2) by (simp add: find_peer_by_pubkey_def)
  then show ?thesis
    using len mac proc ty load b(1) x(2)
    by (intro exI [of _ lm]) (simp add: udp_processing_def udp_process_handshake_init_def HANDSHAKE_INIT_LEN_def Let_def)
qed

lemma response_received:
  assumes x: "externals_ok x" "cx_ext cx = x" and calm: "calm cx w"
    and m: "cookie_sign x m c = Some s" "length m = HANDSHAKE_RESP_LEN"
      "verify_mac1 x (ws_info w) m = Some True" "slice 8 12 m = i" "length i = 4"
    and h: "ws_id_map w i = Some a" "ps_handshake (ws_peers w a) = Some \<lparr>hk_self_id = i, hk_hs = hs\<rparr>"
      "process_response x hs m = ROk (j, hs')"
  shows "\<exists>lm. (let v = update_peer a (ps_count_recv (length s)) (w\<lparr>ws_load_monitor := lm\<rparr>) in
    handshake_resp_begin cx s addr w = RespCommit a i j hs' v \<and>
    udp_processing cx s addr w = handshake_resp_commit cx a i j hs' addr v)"
proof -
  have l: "32 \<le> length m" "16 \<le> length m" using m(2) by (simp_all add: HANDSHAKE_RESP_LEN_def)
  have len: "length s = HANDSHAKE_RESP_LEN" using signed_parts(1) [OF x(1) m(1) l(2)] m(2) by simp
  have mac: "verify_mac1 x (ws_info w) s = Some True" using verify_mac1_signed [OF x(1) m(1) l(1)] m(3) by simp
  note signed = process_response_signed [OF x(1) m(1,2)]
  have proc: "process_response x hs s = ROk (j, hs')" and i: "slice 8 12 s = i" using signed h(3) m(4) by simp_all
  then have "slice 0 4 s = [2, 0, 0, 0]" by (auto simp: process_response_def split: if_splits)
  then have ty: "s ! 0 = 2" by (rule first_byte)
  obtain lm where load: "check_handshake_load cx w = (False, w\<lparr>ws_load_monitor := lm\<rparr>)" by (rule calmE [OF calm])
  let ?w = "w\<lparr>ws_load_monitor := lm\<rparr>"
  have started: "handshake_resp_begin cx s addr w = RespCommit a i j hs' (update_peer a (ps_count_recv (length s)) ?w)"
    using len mac proc i m(5) h(1,2) load x(2)
    by (simp add: handshake_resp_begin_def id_from_slice_def find_peer_by_id_def Let_def)
  then have "udp_process_handshake_resp cx s addr w =
      handshake_resp_commit cx a i j hs' addr (update_peer a (ps_count_recv (length s)) ?w)"
    by (simp add: udp_process_handshake_resp_def)
  then show ?thesis
    using len ty started by (intro exI [of _ lm]) (simp add: udp_processing_def HANDSHAKE_RESP_LEN_def Let_def)
qed

lemma response_commits:
  assumes x: "cx_ext cx = x"
    and h: "ps_handshake (ws_peers w a) = Some \<lparr>hk_self_id = i, hk_hs = hs\<rparr>"
      "ns_get_ciphers (x_noise x) hs' = Some ks" "ns_is_initiator (x_noise x) hs'"
    and q: "send_queued (x_aead x) addr (tp_new_from_hs i j True ks (cx_now cx)) (ps_queue (ws_peers w a)) = Some (out, t')"
    and e: "pi_endpoint (ps_info (ws_peers w a)) = Some addr"
  obtains w' ts where "handshake_resp_commit cx a i j hs' addr w = Some (out, w')" "ps_queue (ws_peers w' a) = []"
    "ps_transports (ws_peers w' a) = t' # ts" "pi_endpoint (ps_info (ws_peers w' a)) = Some addr"
    "ws_rt4 w' = ws_rt4 w" "ws_rt6 w' = ws_rt6 w"
proof -
  define t where "t = tp_new_from_hs i j True ks (cx_now cx)"
  define peer0 where "peer0 = (ws_peers w a)\<lparr>ps_resend_scope := None, ps_handshake := None\<rparr>"
  obtain dropped peer1 where push: "ps_push_transport (cx_now cx) t peer0 = (dropped, peer1)" by fastforce
  obtain peer2 where peer2: "learn_endpoint addr peer1 = Some peer2"
    by (cases "pi_roaming (ps_info peer1)") (simp_all add: learn_endpoint_def ps_set_endpoint_def)
  have "ps_queue peer1 = ps_queue (ws_peers w a) \<and> ps_info peer1 = ps_info (ws_peers w a)"
    by (rule push_transport_shape [OF push]) (simp add: peer0_def)
  then have queue: "ps_queue peer2 = ps_queue (ws_peers w a)" and e2: "pi_endpoint (ps_info peer2) = Some addr"
    using peer2 e by (auto simp: learn_endpoint_def ps_set_endpoint_def split: if_splits)
  have "\<exists>ts. ps_transports peer1 = t # ts"
    using push by (auto simp: ps_push_transport_def ps_on_new_transport_def Let_def split: if_splits)
  then obtain ts where ts: "ps_transports peer2 = t # ts" using transports_endpoint(1) [OF peer2] by auto
  have dq: "ps_dequeue_all peer2 = (ps_queue (ws_peers w a), peer2\<lparr>ps_queue := []\<rparr>)"
    by (simp add: ps_dequeue_all_def queue)
  have fold_queue: "ps_queue (fold (\<lambda>p. ps_count_send (length p + 32)) qs p) = ps_queue p" for qs and p :: "'a peer_state"
    by (induction qs arbitrary: p) (simp_all add: ps_count_send_def)
  have sent_queue: "ps_queue (ps_on_send_transport now p) = ps_queue p" for now and p :: "'a peer_state"
    by (simp add: ps_on_send_transport_def ps_adjust_persistent_def Let_def split: option.split)
  have sent_info: "ps_info (ps_on_send_transport now p) = ps_info p" for now and p :: "'a peer_state"
    by (simp add: ps_on_send_transport_def ps_adjust_persistent_def Let_def split: option.split)
  have fold_info: "ps_info (fold (\<lambda>p. ps_count_send (length p + 32)) qs p) = ps_info p" for qs and p :: "'a peer_state"
    by (induction qs arbitrary: p) (simp_all add: ps_count_send_def)
  let ?w = "drop_guards dropped (w\<lparr>ws_id_map := (ws_id_map w)(i \<mapsto> a)\<rparr>)"
  show thesis
  proof (cases "ps_queue (ws_peers w a) = []")
    case True
    show thesis
      by (rule that [of "update_peer a (\<lambda>_. peer2\<lparr>ps_queue := [], ps_keepalive := adjust_and_activate_secs (cx_now cx) 1 (ps_keepalive peer2)\<rparr>) ?w" ts])
        (use True q h push peer2 dq x ts e2 in \<open>simp_all add: handshake_resp_commit_def peer0_def t_def update_peer_def Let_def\<close>)
  next
    case False
    let ?p = "ps_on_send_transport (cx_now cx) (fold (\<lambda>p. ps_count_send (length p + 32)) (ps_queue (ws_peers w a)) (peer2\<lparr>ps_queue := []\<rparr>))"
    show thesis
      by (rule that [of "update_peer a (\<lambda>_. set_transport 0 t' ?p) ?w" ts])
        (use False q h push peer2 dq x ts e2 in \<open>simp_all add: handshake_resp_commit_def peer0_def t_def update_peer_def
          set_transport_def fold_queue sent_queue fold_info sent_info sessions_of transports_fold_send Let_def\<close>)
  qed
qed

section \<open>Packets wait for a handshake and arrive\<close>

text \<open>Peer \<open>a\<close> of one interface and peer \<open>b\<close> of the other are configured as each other.\<close>

definition linked :: "'h hs_externals \<Rightarrow> socket_addr_v6 \<Rightarrow> 'h wg_state \<Rightarrow> nat \<Rightarrow> 'h wg_state \<Rightarrow> nat \<Rightarrow> bool" where
  "linked x addrB wA a wB b \<longleftrightarrow>
     (\<exists>s. key_from_slice x s = Some (wi_key (ws_info wA))) \<and> (\<exists>s. key_from_slice x s = Some (wi_key (ws_info wB))) \<and>
     pi_public_key (ps_info (ws_peers wA a)) = wg_pubkey (ws_info wB) \<and>
     find_peer_by_pubkey wB (wg_pubkey (ws_info wA)) = Some b \<and>
     pi_psk (ps_info (ws_peers wB b)) = pi_psk (ps_info (ws_peers wA a)) \<and>
     length (psk_or_zero (pi_psk (ps_info (ws_peers wA a)))) = 32 \<and>
     pi_endpoint (ps_info (ws_peers wA a)) = Some addrB"

definition draws :: "'h hs_externals \<Rightarrow> 'h ctx \<Rightarrow> bool" where
  "draws x cx \<longleftrightarrow> cx_ext cx = x \<and> length (cx_id cx) = 4 \<and> length (cx_ephemeral cx) = 32"

lemma handshake_completes:
  fixes x :: "'h hs_externals"
  assumes x: "hs_externals_ok x" "draws x c1" "draws x c2" "cx_ext c3 = x"
    and linked: "linked x addrB wA a wB b"
    and time: "newer (truncate_timestamp (cx_tai_now c1)) (ps_last_handshake (ws_peers wB b))" "snd (cx_tai_now c1) < 1000000000"
    and fresh: "cx_id c1 \<notin> set (ps_guards (ws_peers wA a))"
    and due: "ps_resend_scope (ws_peers wA a) = Some due" "due \<le> cx_now c1"
    and calm: "calm c2 wB" "calm c3 wA"
    and queue: "length (ps_queue (ws_peers wA a)) \<le> QUEUE_SIZE"
      "\<forall>q \<in> set (ps_queue (ws_peers wA a)). length q + 32 \<le> BUFSIZE \<and> routed_from wB b q"
  obtains m0 wA1 m1 wB1 ds wA2 t ts key i j hs v where
    "handshake_loop c1 a wA = Some ([SendUdp m0 addrB], wA1)"
    "udp_processing c2 m0 addrA wB = Some ([SendUdp m1 addrA], wB1)"
    "udp_processing c3 m1 addrB wA1 = Some (map (\<lambda>d. SendUdp d addrB) ds, wA2)"
    "ps_queue (ws_peers wA2 a) = []" "carried x addrA (ps_queue (ws_peers wA a)) ds wB1"
    "receives wB1 b (cx_id c2) key 0" "ws_rt4 wA2 = ws_rt4 wA" "ws_rt6 wA2 = ws_rt6 wA"
    "ps_transports (ws_peers wA2 a) = t # ts" "pi_endpoint (ps_info (ws_peers wA2 a)) = Some addrB"
    "tp_get_should_send t" "unat (tp_send_counter t) = length (ps_queue (ws_peers wA a))"
    "handshake_resp_begin c3 m1 addrB wA1 = RespCommit a i j hs v"
    "pi_roaming (ps_info (ws_peers wB1 b)) = pi_roaming (ps_info (ws_peers wB b))" "live wB1 = live wB"
    "initiation_of x wB m0 = Some (b, truncate_timestamp (cx_tai_now c1))"
proof -
  have xe: "externals_ok x" "aead_ok (x_aead x)" using x(1) by (simp_all add: hs_externals_ok_def externals_ok_def)
  have c1: "cx_ext c1 = x" "length (cx_id c1) = 4" "length (cx_ephemeral c1) = 32" using x(2) by (simp_all add: draws_def)
  have c2: "cx_ext c2 = x" "length (cx_id c2) = 4" "length (cx_ephemeral c2) = 32" using x(3) by (simp_all add: draws_def)
  obtain si sr where keys: "key_from_slice x si = Some (wi_key (ws_info wA))" "key_from_slice x sr = Some (wi_key (ws_info wB))"
    and peer: "pi_public_key (ps_info (ws_peers wA a)) = xk_public_key (wi_key (ws_info wB))"
      "find_peer_by_pubkey wB (wg_pubkey (ws_info wA)) = Some b"
      "pi_psk (ps_info (ws_peers wB b)) = pi_psk (ps_info (ws_peers wA a))"
      "length (psk_or_zero (pi_psk (ps_info (ws_peers wA a)))) = 32" "pi_endpoint (ps_info (ws_peers wA a)) = Some addrB"
    using linked by (auto simp: linked_def wg_pubkey_def)
  obtain m hs result r result' hs' ks where run:
    "initiate x (ws_info wA) (ps_info (ws_peers wA a)) (cx_id c1) (cx_ephemeral c1) (cx_tai_now c1) = ROk (m, hs)"
    "length m = HANDSHAKE_INIT_LEN" "verify_mac1 x (ws_info wB) m = Some True"
    "process_initiation x (ws_info wB) m = ROk result" "ir_timestamp result = truncate_timestamp (cx_tai_now c1)"
    "ns_get_rs (x_noise x) (ir_handshake_state result) = Some (wg_pubkey (ws_info wA))"
    "responde x (result\<lparr>ir_handshake_state := ns_push_psk (x_noise x) (ir_handshake_state result)
       (psk_or_zero (pi_psk (ps_info (ws_peers wA a))))\<rparr>) (cx_id c2) (cx_ephemeral c2) = ROk (r, result')"
    "length r = HANDSHAKE_RESP_LEN" "verify_mac1 x (ws_info wA) r = Some True" "slice 8 12 r = cx_id c1"
    "process_response x hs r = ROk (cx_id c2, hs')" "ns_get_ciphers (x_noise x) hs' = Some ks"
    "ns_get_ciphers (x_noise x) (ir_handshake_state result') = Some ks"
    "ns_is_initiator (x_noise x) hs'" "\<not> ns_is_initiator (x_noise x) (ir_handshake_state result')"
    by (rule handshake_run [OF x(1) keys refl refl peer(1,4) c1(3) c2(3) c1(2) c2(2) time(2)])
  obtain m0 k0 wA1 where A1: "handshake_loop c1 a wA = Some ([SendUdp m0 addrB], wA1)" "cookie_sign x m k0 = Some m0"
    "ws_rt4 wA1 = ws_rt4 wA" "ws_rt6 wA1 = ws_rt6 wA" "ps_info (ws_peers wA1 a) = ps_info (ws_peers wA a)"
    "ws_info wA1 = ws_info wA" "ws_load_monitor wA1 = ws_load_monitor wA" "ws_id_map wA1 (cx_id c1) = Some a"
    "ps_handshake (ws_peers wA1 a) = Some \<lparr>hk_self_id = cx_id c1, hk_hs = hs\<rparr>"
    "ps_queue (ws_peers wA1 a) = ps_queue (ws_peers wA a)"
    by (rule initiation_sent [OF xe(1) c1(1) peer(5) run(1,2) fresh due])
  obtain lm where B0: "udp_processing c2 m0 addrA wB = init_peer c2 b result m0 addrA (wB\<lparr>ws_load_monitor := lm\<rparr>)"
    using initiation_received [OF xe(1) c2(1) calm(1) A1(2) run(2,3,4,6) peer(2)] by blast
  have "process_initiation x (ws_info wB) m0 = ROk result" using process_initiation_signed [OF xe(1) A1(2) run(2)] run(4) by simp
  then have accepted: "initiation_of x wB m0 = Some (b, truncate_timestamp (cx_tai_now c1))"
    using run(5,6) peer(2) by (simp add: initiation_of_def)
  let ?wB = "wB\<lparr>ws_load_monitor := lm\<rparr>"
  have n: "newer (ir_timestamp result) (ps_last_handshake (ws_peers ?wB b))" using time(1) run(5) by simp
  have resp: "responde x (result\<lparr>ir_handshake_state := ns_push_psk (x_noise x) (ir_handshake_state result)
       (psk_or_zero (pi_psk (ps_info (ws_peers ?wB b))))\<rparr>) (cx_id c2) (cx_ephemeral c2) = ROk (r, result')"
    using run(7) peer(3) by simp
  obtain m1 k1 wB1 where B1: "init_peer c2 b result m0 addrA ?wB = Some ([SendUdp m1 addrA], wB1)" "cookie_sign x r k1 = Some m1"
    "ws_rt4 wB1 = ws_rt4 ?wB" "ws_rt6 wB1 = ws_rt6 ?wB" "receives wB1 b (cx_id c2) (fst ks) 0"
    "pi_roaming (ps_info (ws_peers wB1 b)) = pi_roaming (ps_info (ws_peers ?wB b))" "live wB1 = live ?wB"
    by (rule init_peer_responds [OF c2(1) n resp run(8,13,15)])
  have calm1: "calm c3 wA1" using calm(2) calm_cong [OF A1(7)] by simp
  have mac: "verify_mac1 x (ws_info wA1) r = Some True" using run(9) A1(6) by simp
  obtain lm' where A2: "udp_processing c3 m1 addrB wA1 = handshake_resp_commit c3 a (cx_id c1) (cx_id c2) hs' addrB
      (update_peer a (ps_count_recv (length m1)) (wA1\<lparr>ws_load_monitor := lm'\<rparr>))"
    and started: "handshake_resp_begin c3 m1 addrB wA1 = RespCommit a (cx_id c1) (cx_id c2) hs'
      (update_peer a (ps_count_recv (length m1)) (wA1\<lparr>ws_load_monitor := lm'\<rparr>))"
    using response_received [OF xe(1) x(4) calm1 B1(2) run(8) mac run(10) c1(2) A1(8,9) run(11)]
    unfolding Let_def by blast
  let ?wA = "update_peer a (ps_count_recv (length m1)) (wA1\<lparr>ws_load_monitor := lm'\<rparr>)"
  let ?t = "tp_new_from_hs (cx_id c1) (cx_id c2) True ks (cx_now c3)"
  have q: "ps_queue (ws_peers ?wA a) = ps_queue (ws_peers wA a)"
    and e: "pi_endpoint (ps_info (ws_peers ?wA a)) = Some addrB"
    and h: "ps_handshake (ws_peers ?wA a) = Some \<lparr>hk_self_id = cx_id c1, hk_hs = hs\<rparr>"
    using A1(5,9,10) peer(5) by (simp_all add: update_peer_def ps_count_recv_def)
  have sizes: "unat (tp_send_counter ?t) + length (ps_queue (ws_peers wA a)) \<le> unat REJECT_AFTER_MESSAGES"
    using queue(1) by (simp add: QUEUE_SIZE_def REJECT_AFTER_MESSAGES_def)
  have "\<exists>ds s'. send_queued (x_aead x) addrB ?t (ps_queue (ws_peers wA a)) = Some (map (\<lambda>d. SendUdp d addrB) ds, s') \<and>
      length ds = length (ps_queue (ws_peers wA a)) \<and>
      (\<forall>w. receives w b (cx_id c2) (fst ks) 0 \<and> (\<forall>q \<in> set (ps_queue (ws_peers wA a)). routed_from w b q) \<longrightarrow>
         carried x addrA (ps_queue (ws_peers wA a)) ds w)"
    by (rule queue_carried [OF xe(2) c2(2) _ _ _ sizes]) (use queue(2) in simp_all)
  then obtain ds t' where sent: "send_queued (x_aead x) addrB ?t (ps_queue (ws_peers ?wA a)) = Some (map (\<lambda>d. SendUdp d addrB) ds, t')"
    and carried: "\<And>w. receives w b (cx_id c2) (fst ks) 0 \<Longrightarrow> \<forall>q \<in> set (ps_queue (ws_peers wA a)). routed_from w b q \<Longrightarrow>
      carried x addrA (ps_queue (ws_peers wA a)) ds w"
    unfolding q by blast
  obtain wA2 ts where A3: "handshake_resp_commit c3 a (cx_id c1) (cx_id c2) hs' addrB ?wA = Some (map (\<lambda>d. SendUdp d addrB) ds, wA2)"
    "ps_queue (ws_peers wA2 a) = []" "ps_transports (ws_peers wA2 a) = t' # ts" "pi_endpoint (ps_info (ws_peers wA2 a)) = Some addrB"
    "ws_rt4 wA2 = ws_rt4 ?wA" "ws_rt6 wA2 = ws_rt6 ?wA"
    by (rule response_commits [OF x(4) h run(12,14) sent e])
  have t': "tp_get_should_send t'" "unat (tp_send_counter t') = length (ps_queue (ws_peers wA a))"
    using send_queued_session [OF sent] q by (simp_all add: tp_get_should_send_def)
  have "\<forall>q \<in> set (ps_queue (ws_peers wA a)). routed_from wB1 b q"
    using queue(2) routed_from_cong [of wB1 wB b] B1(3,4) by simp
  then have all: "carried x addrA (ps_queue (ws_peers wA a)) ds wB1" by (rule carried [OF B1(5)])
  have B2: "udp_processing c2 m0 addrA wB = Some ([SendUdp m1 addrA], wB1)" using B0 B1(1) by simp
  have A4: "udp_processing c3 m1 addrB wA1 = Some (map (\<lambda>d. SendUdp d addrB) ds, wA2)" using A2 A3(1) by simp
  have rt: "ws_rt4 wA2 = ws_rt4 wA" "ws_rt6 wA2 = ws_rt6 wA" using A3(5,6) A1(3,4) by (simp_all add: update_peer_def)
  have roaming: "pi_roaming (ps_info (ws_peers wB1 b)) = pi_roaming (ps_info (ws_peers wB b))" "live wB1 = live wB"
    using B1(6,7) by (simp_all add: live_def)
  show thesis by (rule that [OF A1(1) B2 A4 A3(2) all B1(5) rt A3(3,4) t' started roaming accepted])
qed


end
