(* ===== verification/Wg_Examples.thy ===== *)
theory Wg_Examples
  imports Wg_End_To_End
begin

text \<open>
  Two concrete interfaces with the externals \<open>mock_externals\<close>, configured as each other's default
  route by the operations of the model, and the exchange of \<open>Wg_End_To_End\<close> between them: the states
  at which the theorems about sessions and packets are applied.
\<close>

section \<open>Two interfaces\<close>

definition example_iface :: "u8 \<Rightarrow> mock wg_state" where
  "example_iface k = example_new\<lparr>ws_info := \<lparr>wi_key = wi_key (example_wg k), wi_fwmark = 0, wi_port = 40000\<rparr>\<rparr>"

lemma example_iface_new: "wg_new example_os (wi_key (example_wg k)) (replicate 32 7) (Some 1280) 0 = ROk (example_iface k)"
  by (simp add: wg_new_def prepare_socket_def example_os_def example_new_def example_iface_def)

definition example_connect :: "u8 \<Rightarrow> socket_addr option \<Rightarrow> set_peer_command" where
  "example_connect p e = \<lparr>sp_public_key = replicate 32 p, sp_preshared_key = None, sp_endpoint = e,
     sp_keepalive = None, sp_replace_allowed_ips = True, sp_allowed_ips = {(IpV4 0, 0)}\<rparr>"

definition example_added :: "u8 \<Rightarrow> u8 \<Rightarrow> mock wg_state" where
  "example_added k p = (example_iface k)\<lparr>ws_peers := (ws_peers (example_iface k))(0 := ps_new (replicate 32 p) 5), ws_next := 1,
     ws_pubkey_map := [(replicate 32 p, 0)]\<rparr>"

definition example_peer_info :: "u8 \<Rightarrow> socket_addr option \<Rightarrow> peer_info" where
  "example_peer_info p e = \<lparr>pi_public_key = replicate 32 p, pi_psk = None, pi_endpoint = map_option map_ipv4_to_ipv6 e,
     pi_allowed_ips = {(IpV4 0, 0)}, pi_keepalive = None, pi_roaming = (e = None)\<rparr>"

definition example_peered :: "u8 \<Rightarrow> u8 \<Rightarrow> socket_addr option \<Rightarrow> mock wg_state" where
  "example_peered k p e = (example_added k p)\<lparr>
     ws_peers := (ws_peers (example_iface k))(0 := (ps_new (replicate 32 p) 5)\<lparr>ps_info := example_peer_info p e\<rparr>),
     ws_rt4 := \<lparr>lt_root = Some (TrieNode 0 0 None None (Some 0))\<rparr>\<rparr>"

lemma example_add_step:
  "cx_now cx = 5 \<Longrightarrow> wg_step example_os cx (EvConfig (OpAddPeer (replicate 32 p))) (example_iface k) = Some ([], example_added k p)"
  by (simp add: wg_step_def config_step_def wg_add_peer_def example_iface_def example_new_def example_added_def Let_def)

lemma example_connect_step:
  "wg_step example_os cx (EvConfig (OpSetPeer (example_connect p e))) (example_added k p) = Some ([], example_peered k p e)"
  by (cases e) (simp_all add: wg_step_def config_step_def set_peer_def find_peer_by_pubkey_def example_added_def example_connect_def
      set_peer_info_def set_peer_psk_def set_peer_endpoint_def set_peer_keepalive_def ps_new_def peer_allowed_ips_def
      address_masked_def to_mask_def rt_insert_def table_insert_def example_iface_def example_new_def table_new_def
      update_peer_def drop_guards_def set_allowed_ips_def example_peered_def example_peer_info_def Let_def)

definition example_b_ctx :: "mock ctx" where
  "example_b_ctx = example_ctx\<lparr>cx_id := [5, 6, 7, 8]\<rparr>"

lemma example_reachable: "wg_reachable example_os mock_externals (example_peered k p e)"
proof -
  have ok: "ctx_ok example_ctx (example_iface k)" "ctx_ok example_ctx (example_added k p)" "cx_ext example_ctx = mock_externals" "cx_now example_ctx = 5"
    by (simp_all add: ctx_ok_def example_ctx_def mock_externals_ok example_added_def example_iface_def example_new_def)
  have "wg_reachable example_os mock_externals (example_added k p)"
    by (rule wg_reachable.step [OF wg_reachable.start [OF example_iface_new] ok(1,3) _ example_add_step [OF ok(4)]]) simp
  then show ?thesis
    by (rule wg_reachable.step [OF _ ok(2,3) _ example_connect_step]) (simp add: command_ok_def example_connect_def)
qed

section \<open>A packet that waits\<close>

text \<open>An IPv4 packet of 32 bytes, which needs no padding.\<close>

definition example_pkt :: bytes where
  "example_pkt = [0x45, 0, 0, 32, 0, 0, 0, 0, 0, 0, 0, 0, 10, 0, 0, 1, 10, 0, 0, 2] @ replicate 12 7"

lemma example_pkt_parse: "parse_ip_packet example_pkt = Some (32, IpV4 0x0A000001, IpV4 0x0A000002)"
  by code_simp

lemma example_pkt_padding: "padded_packet w example_pkt = example_pkt"
proof -
  have "pad_len 32 m = 32" for m by (simp add: pad_len_def Let_def)
  then have "unat (pad_len (of_nat (length example_pkt)) (ucast (ws_mtu w))) = length example_pkt" by (simp add: example_pkt_def)
  then show ?thesis by (simp add: padded_packet_def)
qed

lemma example_find: "ws_rt4 w = \<lparr>lt_root = Some (TrieNode 0 0 None None (Some 0))\<rparr> \<Longrightarrow> find_peer_by_ip w (IpV4 a) = Some 0"
  by (simp add: find_peer_by_ip_def table_longest_match_def node_longest_match_def longest_match_loop.simps to_mask_def Let_def)

definition example_waiting :: "mock wg_state" where
  "example_waiting = do_handshake 5 0 (update_peer 0 (ps_enqueue_packet 5 example_pkt) (example_peered 1 2 (Some (SockV6 example_addr))))"

lemma example_peered_sel:
  "ws_mtu (example_peered k p e) = 1280" "ws_rt4 (example_peered k p e) = \<lparr>lt_root = Some (TrieNode 0 0 None None (Some 0))\<rparr>"
  "ws_peers (example_peered k p e) 0 = (ps_new (replicate 32 p) 5)\<lparr>ps_info := example_peer_info p e\<rparr>"
  "ws_pubkey_map (example_peered k p e) = [(replicate 32 p, 0)]" "ws_id_map (example_peered k p e) = Map.empty"
  "ws_info (example_peered k p e) = \<lparr>wi_key = wi_key (example_wg k), wi_fwmark = 0, wi_port = 40000\<rparr>"
  "ws_load_monitor (example_peered k p e) = lm_new HANDSHAKES_PER_SEC 0"
  by (simp_all add: example_peered_def example_added_def example_iface_def example_new_def)

lemma example_packet_queued:
  "tun_packet_processing example_ctx example_pkt (example_peered 1 2 (Some (SockV6 example_addr))) = Some ([], example_waiting)"
proof -
  let ?w = "example_peered 1 2 (Some (SockV6 example_addr))"
  have "full_inv mock_externals ?w" by (rule reachable_full_inv [OF example_reachable])
  then have "tun_packet_processing example_ctx example_pkt ?w \<noteq> None"
    using tun_packet_inv [of mock_externals ?w example_pkt example_ctx] by (auto simp: goes_on_def example_pkt_def)
  then obtain out w' where run: "tun_packet_processing example_ctx example_pkt ?w = Some (out, w')" by auto
  have pad: "padded_packet ?w example_pkt = example_pkt" by (rule example_pkt_padding)
  have "ps_find_transport_to_send (ws_peers ?w 0) = None" "pi_endpoint (ps_info (ws_peers ?w 0)) = Some example_addr"
    "ps_really_should_handshake (cx_now example_ctx) (ps_enqueue_packet (cx_now example_ctx) example_pkt (ws_peers ?w 0))"
    by (simp_all add: example_peered_sel ps_find_transport_to_send_def example_peer_info_def map_ipv4_to_ipv6_def
        ps_really_should_handshake_def ps_have_fresh_unconfirmed_transport_def ps_enqueue_packet_def ps_new_def)
  then show ?thesis
    using tun_packet_processing_routed [OF run, of 32 "IpV4 0x0A000001" "IpV4 0x0A000002" 0 example_addr] example_pkt_parse
      example_find [OF example_peered_sel(2)] run pad
    by (simp add: example_waiting_def update_peer_def Let_def) (simp add: example_ctx_def)
qed

lemma example_waiting_reachable: "wg_reachable example_os mock_externals example_waiting"
proof (rule wg_reachable.step [OF example_reachable])
  show "ctx_ok example_ctx (example_peered 1 2 (Some (SockV6 example_addr)))"
    by (simp add: ctx_ok_def example_ctx_def mock_externals_ok example_peered_sel)
  show "wg_step example_os example_ctx (EvPacket example_pkt) (example_peered 1 2 (Some (SockV6 example_addr))) = Some ([], example_waiting)"
    by (simp add: wg_step_def example_packet_queued)
qed (simp_all add: example_ctx_def example_pkt_def)

section \<open>The exchange\<close>

lemma example_waiting_sel:
  "ws_info example_waiting = \<lparr>wi_key = wi_key (example_wg 1), wi_fwmark = 0, wi_port = 40000\<rparr>"
  "ws_load_monitor example_waiting = lm_new HANDSHAKES_PER_SEC 0" "ws_mtu example_waiting = 1280"
  "ws_rt4 example_waiting = \<lparr>lt_root = Some (TrieNode 0 0 None None (Some 0))\<rparr>"
  "ps_info (ws_peers example_waiting 0) = example_peer_info 2 (Some (SockV6 example_addr))"
  "ps_queue (ws_peers example_waiting 0) = [example_pkt]" "ps_resend_scope (ws_peers example_waiting 0) = Some 5"
  "ps_guards (ws_peers example_waiting 0) = []" "ws_id_map example_waiting = Map.empty" "live example_waiting = {0}"
  by (simp_all add: example_waiting_def do_handshake_def ps_get_endpoint_def ps_enqueue_packet_def update_peer_def
      example_peered_sel example_peer_info_def map_ipv4_to_ipv6_def ps_guards_def ps_new_def live_def Let_def)

lemma example_calm: "ws_load_monitor w = lm_new HANDSHAKES_PER_SEC 0 \<Longrightarrow> cx_now cx = 5 \<Longrightarrow> \<not> cx_interop_test cx \<Longrightarrow> calm cx w"
proof -
  have "\<not> fst (lm_check (lm_new HANDSHAKES_PER_SEC 0) 5)"
    by (simp add: lm_check_def lm_new_def HANDSHAKES_PER_SEC_def NANOS_PER_SEC_def CAP_RATIO_def as_secs_def subsec_nanos_def
        saturating_sub_def Let_def)
  then show "ws_load_monitor w = lm_new HANDSHAKES_PER_SEC 0 \<Longrightarrow> cx_now cx = 5 \<Longrightarrow> \<not> cx_interop_test cx \<Longrightarrow> calm cx w"
    by (auto simp: calm_def check_handshake_load_def split: prod.split)
qed

definition example_c_ctx :: "mock ctx" where
  "example_c_ctx = example_ctx\<lparr>cx_id := [9, 9, 9, 9]\<rparr>"

lemma example_c_ext: "cx_ext example_c_ctx = mock_externals"
  by (simp add: example_c_ctx_def example_ctx_def)

lemma example_draws: "draws mock_externals example_ctx" "draws mock_externals example_b_ctx"
  by (simp_all add: draws_def example_ctx_def example_b_ctx_def)

lemma example_linked: "linked mock_externals example_addr example_waiting 0 (example_peered 2 1 None) 0"
proof -
  have key: "\<exists>s. key_from_slice mock_externals s = Some (wi_key (example_wg k))" for k
    by (rule exI [of _ "replicate 32 k"]) (simp add: key_from_slice_def mock_externals_def example_wg_def)
  show ?thesis
    unfolding linked_def
    by (simp add: key example_waiting_sel example_peered_sel find_peer_by_pubkey_def)
      (simp add: example_peer_info_def example_wg_def wg_pubkey_def psk_or_zero_def map_ipv4_to_ipv6_def)
qed

lemma example_side_conditions:
  "newer (truncate_timestamp (cx_tai_now example_ctx)) (ps_last_handshake (ws_peers (example_peered 2 1 None) 0))"
  "snd (cx_tai_now example_ctx) < 1000000000" "cx_id example_ctx \<notin> set (ps_guards (ws_peers example_waiting 0))"
  "ps_resend_scope (ws_peers example_waiting 0) = Some 5" "5 \<le> cx_now example_ctx"
  "calm example_b_ctx (example_peered 2 1 None)" "calm example_c_ctx example_waiting"
  "length (ps_queue (ws_peers example_waiting 0)) \<le> QUEUE_SIZE"
  "\<forall>q \<in> set (ps_queue (ws_peers example_waiting 0)). length q + 32 \<le> BUFSIZE \<and> routed_from (example_peered 2 1 None) 0 q"
proof -
  show "newer (truncate_timestamp (cx_tai_now example_ctx)) (ps_last_handshake (ws_peers (example_peered 2 1 None) 0))"
    by (simp add: newer_def example_peered_sel ps_new_def)
  show "calm example_b_ctx (example_peered 2 1 None)" "calm example_c_ctx example_waiting"
    by (rule example_calm; simp add: example_peered_sel example_waiting_sel example_b_ctx_def example_c_ctx_def example_ctx_def)+
  have "routed_from (example_peered 2 1 None) 0 example_pkt"
    using example_find [OF example_peered_sel(2)] by (simp add: routed_from_def example_pkt_parse) (simp add: example_pkt_def)
  then show "\<forall>q \<in> set (ps_queue (ws_peers example_waiting 0)). length q + 32 \<le> BUFSIZE \<and> routed_from (example_peered 2 1 None) 0 q"
    by (simp add: example_waiting_sel) (simp add: example_pkt_def BUFSIZE_def)
qed (simp_all add: example_waiting_sel example_ctx_def QUEUE_SIZE_def)

lemmas example_exchange =
  handshake_completes [OF mock_externals_ok example_draws example_c_ext example_linked example_side_conditions, of example_addr]


section \<open>Sessions and packets of the exchange\<close>

lemma handshake_loop_ids:
  "handshake_loop cx r w = Some (out, w') \<Longrightarrow> ws_id_map w j = None \<Longrightarrow> j \<noteq> cx_id cx \<Longrightarrow> ws_id_map w' j = None"
  by (auto simp: handshake_loop_def handshake_send_def update_peer_def drop_guards_def restrict_map_def Let_def
      split: option.splits if_splits prod.splits rust_result.splits)

text \<open>The interfaces at the end of the exchange, and the datagram that the receiving one then gets.\<close>

lemma example_sessions:
  obtains wA wB d t ts key wB' m wA1 i j hs v m0 where
    "wg_reachable example_os mock_externals wB" "receives wB 0 [5, 6, 7, 8] key 0"
    "udp_processing example_c_ctx d example_addr wB = Some ([WriteTun example_pkt], wB')"
    "wg_reachable example_os mock_externals wA" "ws_rt4 wA = \<lparr>lt_root = Some (TrieNode 0 0 None None (Some 0))\<rparr>"
    "ps_transports (ws_peers wA 0) = t # ts" "tp_get_should_send t" "unat (tp_send_counter t) = 1"
    "pi_endpoint (ps_info (ws_peers wA 0)) = Some example_addr"
    "wg_reachable example_os mock_externals wA1" "ws_id_map wA1 [9, 9, 9, 9] = None"
    "handshake_resp_begin example_c_ctx m example_addr wA1 = RespCommit 0 i j hs v" "pi_roaming (ps_info (ws_peers wB 0))" "live wB = {0}"
    "udp_processing example_b_ctx m0 example_addr (example_peered 2 1 None) = Some ([SendUdp m example_addr], wB)"
    "initiation_of mock_externals (example_peered 2 1 None) m0 = Some (0, truncate_timestamp (cx_tai_now example_ctx))"
proof -
  obtain m0 wA1 m1 wB1 ds wA2 t ts key i j hs v where e:
    "handshake_loop example_ctx 0 example_waiting = Some ([SendUdp m0 example_addr], wA1)"
    "udp_processing example_b_ctx m0 example_addr (example_peered 2 1 None) = Some ([SendUdp m1 example_addr], wB1)"
    "udp_processing example_c_ctx m1 example_addr wA1 = Some (map (\<lambda>d. SendUdp d example_addr) ds, wA2)"
    "ps_queue (ws_peers wA2 0) = []" "carried mock_externals example_addr (ps_queue (ws_peers example_waiting 0)) ds wB1"
    "receives wB1 0 (cx_id example_b_ctx) key 0" "ws_rt4 wA2 = ws_rt4 example_waiting" "ws_rt6 wA2 = ws_rt6 example_waiting"
    "ps_transports (ws_peers wA2 0) = t # ts" "pi_endpoint (ps_info (ws_peers wA2 0)) = Some example_addr"
    "tp_get_should_send t" "unat (tp_send_counter t) = length (ps_queue (ws_peers example_waiting 0))"
    "handshake_resp_begin example_c_ctx m1 example_addr wA1 = RespCommit 0 i j hs v"
    "pi_roaming (ps_info (ws_peers wB1 0)) = pi_roaming (ps_info (ws_peers (example_peered 2 1 None) 0))"
    "live wB1 = live (example_peered 2 1 None)"
    "initiation_of mock_externals (example_peered 2 1 None) m0 = Some (0, truncate_timestamp (cx_tai_now example_ctx))"
    by (rule example_exchange)
  have B: "wg_reachable example_os mock_externals wB1"
  proof (rule wg_reachable.step [OF example_reachable])
    show "ctx_ok example_b_ctx (example_peered 2 1 None)"
      by (simp add: ctx_ok_def example_b_ctx_def example_ctx_def mock_externals_ok example_peered_sel)
    show "wg_step example_os example_b_ctx (EvDatagram m0 example_addr) (example_peered 2 1 None) = Some ([SendUdp m1 example_addr], wB1)"
      using e(2) by (simp add: wg_step_def)
  qed (simp_all add: example_b_ctx_def example_ctx_def)
  have A1: "wg_reachable example_os mock_externals wA1"
  proof (rule wg_reachable.step [OF example_waiting_reachable])
    show "ctx_ok example_ctx example_waiting" by (simp add: ctx_ok_def example_ctx_def mock_externals_ok example_waiting_sel)
    show "wg_step example_os example_ctx (EvHandshakeLoop 0) example_waiting = Some ([SendUdp m0 example_addr], wA1)"
      using e(1) by (simp add: wg_step_def example_waiting_sel)
  qed (simp_all add: example_ctx_def)
  have id: "ws_id_map wA1 [9, 9, 9, 9] = None"
    by (rule handshake_loop_ids [OF e(1)]) (simp_all add: example_waiting_sel example_ctx_def)
  have A2: "wg_reachable example_os mock_externals wA2"
  proof (rule wg_reachable.step [OF A1])
    show "ctx_ok example_c_ctx wA1" using id by (simp add: ctx_ok_def example_c_ctx_def example_ctx_def mock_externals_ok)
    show "wg_step example_os example_c_ctx (EvDatagram m1 example_addr) wA1 = Some (map (\<lambda>d. SendUdp d example_addr) ds, wA2)"
      using e(3) by (simp add: wg_step_def)
  qed (simp_all add: example_c_ext)
  obtain d where ds: "ds = [d]" using e(5) by (auto simp: carried_def example_waiting_sel length_Suc_conv)
  have "\<exists>w'. receive example_addr (zip [example_c_ctx] ds) wB1 = Some (map (\<lambda>q. WriteTun (inner_packet q)) [example_pkt], w')"
    using e(5) unfolding carried_def example_waiting_sel by (rule conjE) (drule spec [of _ "[example_c_ctx]"], simp add: example_c_ext)
  moreover have "inner_packet example_pkt = example_pkt"
    by (simp add: inner_packet_def example_pkt_parse) (simp add: example_pkt_def)
  ultimately obtain wB2 where got: "udp_processing example_c_ctx d example_addr wB1 = Some ([WriteTun example_pkt], wB2)"
    by (auto simp: ds split: option.splits)
  have sess: "receives wB1 0 [5, 6, 7, 8] key 0" using e(6) by (simp add: example_b_ctx_def)
  have sent: "ws_rt4 wA2 = \<lparr>lt_root = Some (TrieNode 0 0 None None (Some 0))\<rparr>" "unat (tp_send_counter t) = 1"
    using e(7,12) by (simp_all add: example_waiting_sel)
  have peer: "pi_roaming (ps_info (ws_peers wB1 0))" "live wB1 = {0}"
    using e(14,15) by (simp_all add: example_peered_sel example_peer_info_def live_def)
  show thesis by (rule that [OF B sess got A2 sent(1) e(9,11) sent(2) e(10) A1 id e(13) peer e(2,16)])
qed

lemma receives_session:
  assumes "wg_reachable o' x w" "receives w r i key n"
  obtains t where "r \<in> live w" "t \<in> set (ps_transports (ws_peers w r))"
proof -
  have "find_peer_by_id w i = Some r" using assms(2) by (simp add: receives_def find_peer_by_id_def)
  then have "r \<in> live w" using find_by_id_live [OF wg_invD(3) [OF wg_reachable_inv [OF assms(1)]]] by blast
  moreover obtain k where "k < length (ps_transports (ws_peers w r))" using assms(2) by (auto simp: receives_def)
  ultimately show thesis using that nth_mem by blast
qed

theorem sessions_are_runs_witness:
  "\<exists>w r t i j b ks now es. wg_reachable example_os mock_externals w \<and> r \<in> live w \<and> t \<in> set (ps_transports (ws_peers w r)) \<and>
    t = tp_run (x_aead mock_externals) (tp_new_from_hs i j b ks now) es \<and>
    distinct (map packet_nonce (tp_wire (x_aead mock_externals) (tp_new_from_hs i j b ks now) es)) \<and>
    distinct (map fst (tp_deliveries (x_aead mock_externals) (tp_new_from_hs i j b ks now) es))"
proof -
  obtain wB key where w: "wg_reachable example_os mock_externals wB" "receives wB 0 [5, 6, 7, 8] key 0"
    by (rule example_sessions)
  obtain t where t: "0 \<in> live wB" "t \<in> set (ps_transports (ws_peers wB 0))" by (rule receives_session [OF w])
  show ?thesis using sessions_are_runs [OF w(1) t] w(1) t by blast
qed



text \<open>A packet that has a session is sent in it.\<close>

lemma example_sent:
  assumes "wg_reachable example_os mock_externals w" "ws_rt4 w = \<lparr>lt_root = Some (TrieNode 0 0 None None (Some 0))\<rparr>"
    and "ps_transports (ws_peers w 0) = t # ts" "tp_get_should_send t" "unat (tp_send_counter t) = 1"
    and "pi_endpoint (ps_info (ws_peers w 0)) = Some example_addr"
  obtains out w' where "tun_packet_processing example_c_ctx example_pkt w = Some (out, w')" "out \<noteq> []"
proof -
  have "tun_packet_processing example_c_ctx example_pkt w \<noteq> None"
    using tun_packet_inv [OF reachable_full_inv [OF assms(1)], of example_pkt example_c_ctx] by (auto simp: goes_on_def example_pkt_def)
  then obtain out w' where run: "tun_packet_processing example_c_ctx example_pkt w = Some (out, w')" by auto
  have parse: "parse_ip_packet (padded_packet w example_pkt) = Some (32, IpV4 0x0A000001, IpV4 0x0A000002)"
    unfolding example_pkt_padding by (rule example_pkt_parse)
  have k: "ps_find_transport_to_send (ws_peers w 0) = Some 0" using assms(3,4) by (simp add: ps_find_transport_to_send_def)
  have "\<not> REJECT_AFTER_MESSAGES \<le> tp_send_counter t" using assms(5) by (simp add: word_le_nat_alt REJECT_AFTER_MESSAGES_def)
  then have "out \<noteq> []"
    using tun_packet_processing_routed [OF run parse example_find [OF assms(2)] assms(6)] k assms(3)
    by (auto simp: tp_encrypt_eq)
  then show thesis using that run by blast
qed


end
