(* ===== verification/Wg_Attempts.thy ===== *)
theory Wg_Attempts
  imports Wg_Examples
begin

text \<open>
  A handshake that gets no answer. The loop that \<open>do_handshake\<close> spawns in
  \<open>src/src/wireguard/peer_state.rs\<close> has no exit of its own: it ends when its scope is dropped, which
  the timer \<open>stop_handshake\<close> does. The theorem bounds what it sends and shows that it ends.
\<close>

text \<open>Polls of the loop, with the datagrams it sends.\<close>

fun loop_rounds :: "nat \<Rightarrow> 'h ctx list \<Rightarrow> 'h wg_state \<Rightarrow> 'h handled" where
  "loop_rounds r [] w = Some ([], w)"
| "loop_rounds r (cx # cxs) w =
     (case handshake_loop cx r w of
        None \<Rightarrow> None
      | Some (out, w) \<Rightarrow> map_option (\<lambda>(out', w). (out @ out', w)) (loop_rounds r cxs w))"

lemma handshake_send_one:
  "handshake_send cx r w = Some (out, w') \<Longrightarrow>
    length out \<le> 1 \<and> ps_stop_handshake (ws_peers w' r) = ps_stop_handshake (ws_peers w r) \<and> live w' = live w"
  by (auto simp: live_def handshake_send_def ps_count_send_def update_peer_def drop_guards_def Let_def
      split: option.splits prod.splits rust_result.splits)

lemma handshake_loop_round:
  assumes "handshake_loop cx r w = Some (out, w')" "ps_resend_scope (ws_peers w r) = Some d"
  shows "ps_stop_handshake (ws_peers w' r) = ps_stop_handshake (ws_peers w r) \<and>
    (if cx_now cx < d then out = [] \<and> w' = w
     else length out \<le> 1 \<and> ps_resend_scope (ws_peers w' r) = Some (cx_now cx + millis (cx_delay_ms cx)))"
  using assms by (auto simp: handshake_loop_def update_peer_def split: if_splits option.splits dest: handshake_send_one)

lemma loop_rounds_bound:
  assumes "loop_rounds r cxs w = Some (out, w')" "ps_resend_scope (ws_peers w r) = Some d"
    and "\<forall>cx \<in> set cxs. cx_now cx < t \<and> 5000 \<le> cx_delay_ms cx"
  shows "length out * secs 5 \<le> t + secs 5 - 1 - d \<and> ps_resend_scope (ws_peers w' r) \<noteq> None \<and>
    ps_stop_handshake (ws_peers w' r) = ps_stop_handshake (ws_peers w r)"
  using assms
proof (induction cxs arbitrary: w d out)
  case (Cons cx cxs)
  obtain out1 v out2 where v: "handshake_loop cx r w = Some (out1, v)" "loop_rounds r cxs v = Some (out2, w')" "out = out1 @ out2"
    using Cons.prems(1) by (auto split: option.splits)
  note round = handshake_loop_round [OF v(1) Cons.prems(2)]
  have rest: "\<forall>cx \<in> set cxs. cx_now cx < t \<and> 5000 \<le> cx_delay_ms cx" using Cons.prems(3) by simp
  show ?case
  proof (cases "cx_now cx < d")
    case True
    then have "out1 = []" "v = w" using round by simp_all
    then show ?thesis using Cons.IH [OF v(2) _ rest] Cons.prems(2) v(3) by simp
  next
    case False
    let ?d = "cx_now cx + millis (cx_delay_ms cx)"
    have r: "length out1 \<le> 1" "ps_resend_scope (ws_peers v r) = Some ?d"
      "ps_stop_handshake (ws_peers v r) = ps_stop_handshake (ws_peers w r)"
      using round False by simp_all
    have IH: "length out2 * secs 5 \<le> t + secs 5 - 1 - ?d" "ps_resend_scope (ws_peers w' r) \<noteq> None"
      "ps_stop_handshake (ws_peers w' r) = ps_stop_handshake (ws_peers v r)"
      using Cons.IH [OF v(2) r(2) rest] by blast+
    have d: "d + secs 5 \<le> ?d" "d < t" using False Cons.prems(3) by (auto simp: secs_def millis_def)
    have "length out * secs 5 \<le> secs 5 + (t + secs 5 - 1 - ?d)" using r(1) IH(1) v(3) by (simp add: secs_def)
    also have "\<dots> \<le> t + secs 5 - 1 - d" using d by (simp add: secs_def)
    finally show ?thesis using IH(2,3) r(3) by simp
  qed
qed simp

lemma loop_rounds_total:
  assumes "full_inv x w" "r \<in> live w" "list_all (\<lambda>cx. cx_ext cx = x \<and> hs_externals_ok x \<and> length (cx_nonce cx) = 24 \<and>
      length (cx_id cx) = 4 \<and> ws_id_map w (cx_id cx) = None) cxs" "distinct (map cx_id cxs)"
  shows "\<exists>out w'. loop_rounds r cxs w = Some (out, w')"
  using assms
proof (induction cxs arbitrary: w)
  case (Cons cx cxs)
  have cx: "ctx_ok cx w" "cx_ext cx = x" using Cons.prems(3) by (auto simp: ctx_ok_def)
  obtain out v where v: "handshake_loop cx r w = Some (out, v)" "full_inv x v"
    using handshake_loop_inv [OF Cons.prems(1) cx Cons.prems(2)] by blast
  have "live v = live w" using v(1)
    by (auto simp: handshake_loop_def split: option.splits if_splits dest: handshake_send_one)
  then have r: "r \<in> live v" using Cons.prems(2) by simp
  have "ws_id_map v (cx_id c) = None" if "c \<in> set cxs" for c
  proof (rule handshake_loop_ids [OF v(1)])
    show "ws_id_map w (cx_id c) = None" using Cons.prems(3) that by (simp add: list_all_iff)
    have "cx_id c \<in> cx_id ` set cxs" using that by (rule imageI)
    then show "cx_id c \<noteq> cx_id cx" using Cons.prems(4) by auto
  qed
  then have ok: "list_all (\<lambda>cx. cx_ext cx = x \<and> hs_externals_ok x \<and> length (cx_nonce cx) = 24 \<and>
      length (cx_id cx) = 4 \<and> ws_id_map v (cx_id cx) = None) cxs"
    using Cons.prems(3) by (simp add: list_all_iff)
  have "distinct (map cx_id cxs)" using Cons.prems(4) by simp
  then show ?case using Cons.IH [OF v(2) r ok] v(1) by auto
qed simp

lemma stop_handshake_fires:
  assumes "tm_activated (ps_stop_handshake (ws_peers w r))" "tm_deadline (ps_stop_handshake (ws_peers w r)) \<le> cx_now cx"
  shows "\<exists>v. run_timer cx TStopHandshake r w = Some ([], v) \<and> ps_handshake (ws_peers v r) = None \<and>
    (\<forall>cx'. handshake_loop cx' r v = Some ([], v))"
  using assms
  by (simp add: run_timer_def timer_poll_def action_stop_handshake_def handshake_loop_def update_peer_def drop_guards_def Let_def)

text \<open>What the polls of the loop draw and when they run: fresh identifiers, within the attempt time.\<close>

definition attempt_ctxs :: "'h hs_externals \<Rightarrow> 'h wg_state \<Rightarrow> instant \<Rightarrow> 'h ctx list \<Rightarrow> bool" where
  "attempt_ctxs x w now cxs \<longleftrightarrow> distinct (map cx_id cxs) \<and>
     list_all (\<lambda>cx. cx_ext cx = x \<and> length (cx_nonce cx) = 24 \<and> length (cx_id cx) = 4 \<and> ws_id_map w (cx_id cx) = None \<and>
       5000 \<le> cx_delay_ms cx \<and> cx_now cx < now + secs REKEY_ATTEMPT_TIME) cxs"



end
