(* ===== verification/Wg_Races.thy ===== *)
theory Wg_Races
  imports Wg_Examples
begin

text \<open>
  What may happen inside a handler. \<open>udp_process_handshake_resp\<close> and \<open>udp_process_transport\<close> of
  \<open>src/src/wireguard/state.rs\<close> release the peer and lock it again; the timers of the peer and the
  configuration run on other threads and take the lock in between. The steps of \<open>Wg_Protocol\<close> are whole
  handlers; here the two halves of a handler are taken apart.
\<close>

section \<open>A response and the end of the handshake\<close>

lemma commit_without_handshake: "ps_handshake (ws_peers w r) = None \<Longrightarrow> handshake_resp_commit cx r i j hs addr w = None"
  by (simp add: handshake_resp_commit_def Let_def)

lemma stop_without_handshake: "action_stop_handshake r w = Some (out, w') \<Longrightarrow> ps_handshake (ws_peers w' r) = None"
  by (auto simp: action_stop_handshake_def update_peer_def drop_guards_def Let_def)

lemma clear_without_handshake: "action_clear r w = Some (out, w') \<Longrightarrow> ps_handshake (ws_peers w' r) = None"
  by (auto simp: action_clear_def ps_clear_all_def update_peer_def drop_guards_def Let_def split: prod.splits)

text \<open>
  C21: A response that arrives while its handshake is given up is a panic. Undisturbed, the second half
  of \<open>udp_process_handshake_resp\<close> succeeds; when the action of the timer \<open>stop_handshake\<close> or \<open>clear\<close> of the
  peer runs after the first half has accepted the response, the second half unwraps a handshake that is
  gone.
\<close>

theorem response_stop_race:
  fixes x :: "'h hs_externals"
  assumes "wg_reachable o' x w" "ctx_ok cx w" "cx_ext cx = x"
    and "handshake_resp_begin cx p addr w = RespCommit r self_id peer_id hs v"
  shows "handshake_resp_commit cx r self_id peer_id hs addr v \<noteq> None \<and>
    (\<exists>v'. action_stop_handshake r v = Some ([], v') \<and> (\<forall>cx'. handshake_resp_commit cx' r self_id peer_id hs addr v' = None)) \<and>
    (\<exists>v'. action_clear r v = Some ([], v') \<and> (\<forall>cx'. handshake_resp_commit cx' r self_id peer_id hs addr v' = None))"
proof (intro conjI)
  have "udp_process_handshake_resp cx p addr w \<noteq> None"
    using handshake_resp_inv [OF reachable_full_inv [OF assms(1)] assms(2,3), of p addr] by (auto simp: goes_on_def)
  then show "handshake_resp_commit cx r self_id peer_id hs addr v \<noteq> None"
    using assms(4) by (simp add: udp_process_handshake_resp_def)
  obtain v' where v': "action_stop_handshake r v = Some ([], v')" by (simp add: action_stop_handshake_def Let_def)
  then show "\<exists>v'. action_stop_handshake r v = Some ([], v') \<and> (\<forall>cx'. handshake_resp_commit cx' r self_id peer_id hs addr v' = None)"
    using commit_without_handshake [OF stop_without_handshake [OF v']] by blast
  obtain v'' where v'': "action_clear r v = Some ([], v'')" by (cases "ps_clear_all (ws_peers v r)") (simp add: action_clear_def)
  then show "\<exists>v'. action_clear r v = Some ([], v') \<and> (\<forall>cx'. handshake_resp_commit cx' r self_id peer_id hs addr v' = None)"
    using commit_without_handshake [OF clear_without_handshake [OF v'']] by blast
qed

lemma example_c_ctx_ok: "ws_id_map w [9, 9, 9, 9] = None \<Longrightarrow> ctx_ok example_c_ctx w"
  by (simp add: ctx_ok_def example_c_ctx_def example_ctx_def mock_externals_ok)

theorem response_stop_race_witness:
  "\<exists>w m i j hs v v'. wg_reachable example_os mock_externals w \<and>
    handshake_resp_begin example_c_ctx m example_addr w = RespCommit 0 i j hs v \<and>
    handshake_resp_commit example_c_ctx 0 i j hs example_addr v \<noteq> None \<and>
    action_stop_handshake 0 v = Some ([], v') \<and> handshake_resp_commit example_c_ctx 0 i j hs example_addr v' = None"
proof -
  obtain w m i j hs v where w: "wg_reachable example_os mock_externals w" "ws_id_map w [9, 9, 9, 9] = None"
    "handshake_resp_begin example_c_ctx m example_addr w = RespCommit 0 i j hs v"
    by (rule example_sessions)
  show ?thesis using response_stop_race [OF w(1) example_c_ctx_ok [OF w(2)] example_c_ext w(3)] w(1,3) by blast
qed

section \<open>A data packet and a new endpoint\<close>

lemma set_peer_fixes_endpoint:
  assumes "wg_inv w" "command_ok command" "find_peer_by_pubkey w (sp_public_key command) = Some r" "sp_endpoint command \<noteq> None"
  obtains w' where "set_peer now command w = ROk w'" "\<not> pi_roaming (ps_info (ws_peers w' r))"
proof -
  obtain w' d p1 where w': "set_peer now command w = ROk w'" "set_peer_info now command (ws_peers w r) = (d, p1)"
    "ws_peers w' r = set_allowed_ips (allowed_after command r w r) p1"
    by (rule set_peer_ok [OF wg_invD(1) [OF assms(1)] assms(2,3), of now])
  have "\<not> pi_roaming (ps_info p1)"
    using w'(2) assms(4)
    by (auto simp: set_peer_info_def set_peer_endpoint_def set_peer_keepalive_def Let_def split: option.splits prod.splits if_splits)
  then show thesis using that w'(1,3) by (simp add: set_allowed_ips_def)
qed

text \<open>
  C22: A data packet from a new address that arrives while the endpoint of its peer is configured is a
  panic. Undisturbed, the second half of \<open>udp_process_transport\<close> succeeds; when \<open>set_peer\<close> gives the peer
  an endpoint while the packet is written to the tunnel, \<open>set_endpoint\<close> fails its assertion that the peer
  is roaming.
\<close>

theorem transport_set_peer_race:
  fixes x :: "'h hs_externals"
  assumes "wg_reachable o' x w" "transport_begin cx p addr w = TransportGo r pkt True handshake v"
    and "command_ok command" "find_peer_by_pubkey v (sp_public_key command) = Some r" "sp_endpoint command \<noteq> None"
  shows "transport_commit cx r pkt True handshake addr v \<noteq> None \<and>
    (\<exists>v'. set_peer now command v = ROk v' \<and> (\<forall>cx'. transport_commit cx' r pkt True handshake addr v' = None))"
proof
  have v: "full_inv x v" "pi_roaming (ps_info (ws_peers v r))"
    using transport_begin_inv [OF reachable_full_inv [OF assms(1)], of cx p addr] assms(2) by simp_all
  then show "transport_commit cx r pkt True handshake addr v \<noteq> None" by (simp add: transport_commit_def ps_set_endpoint_def)
  obtain v' where "set_peer now command v = ROk v'" "\<not> pi_roaming (ps_info (ws_peers v' r))"
    by (rule set_peer_fixes_endpoint [OF full_invD(1) [OF v(1)] assms(3-5)])
  then show "\<exists>v'. set_peer now command v = ROk v' \<and> (\<forall>cx'. transport_commit cx' r pkt True handshake addr v' = None)"
    by (auto simp: transport_commit_def ps_set_endpoint_def)
qed

lemma transport_begin_addr:
  "transport_begin cx p addr w = TransportGo r pkt e h v \<Longrightarrow>
    transport_begin cx p addr' w = TransportGo r pkt (pi_endpoint (ps_info (ws_peers v r)) \<noteq> Some addr' \<and> pi_roaming (ps_info (ws_peers v r))) h v"
  by (auto simp: transport_begin_def update_peer_def Let_def split: if_splits option.splits prod.splits)

lemma live_has_key: "wg_inv w \<Longrightarrow> r \<in> live w \<Longrightarrow> \<exists>pk. find_peer_by_pubkey w pk = Some r"
  by (auto simp: find_peer_by_pubkey_def live_def wg_inv_def keys_inv_def)

lemma transport_begin_keys: "transport_begin cx p addr w = TransportGo r pkt e h v \<Longrightarrow> live v = live w"
  by (auto simp: transport_begin_def live_def update_peer_def Let_def split: if_splits option.splits prod.splits)

lemma transport_begin_roaming: "transport_begin cx p addr w = TransportGo r pkt e h v \<Longrightarrow>
    pi_roaming (ps_info (ws_peers v q)) = pi_roaming (ps_info (ws_peers w q))"
  by (auto simp: transport_begin_def update_peer_def ps_on_recv_def set_transport_def ps_count_recv_def Let_def
      split: if_splits option.splits prod.splits)

theorem transport_set_peer_race_witness:
  "\<exists>w p addr pkt h v command v'. wg_reachable example_os mock_externals w \<and>
    transport_begin example_c_ctx p addr w = TransportGo 0 (Some pkt) True h v \<and>
    transport_commit example_c_ctx 0 (Some pkt) True h addr v \<noteq> None \<and>
    set_peer 7 command v = ROk v' \<and> transport_commit example_c_ctx 0 (Some pkt) True h addr v' = None"
proof -
  obtain w p w' key where w: "wg_reachable example_os mock_externals w" "receives w 0 [5, 6, 7, 8] key 0"
    "udp_processing example_c_ctx p example_addr w = Some ([WriteTun example_pkt], w')" "pi_roaming (ps_info (ws_peers w 0))" "live w = {0}"
    by (rule example_sessions)
  obtain r e h v where go: "transport_begin example_c_ctx p example_addr w = TransportGo r (Some example_pkt) e h v"
    by (rule udp_processing_write [OF w(3)]) simp_all
  have inv: "wg_inv w" "full_inv mock_externals v"
    using wg_reachable_inv [OF w(1)] transport_begin_inv [OF reachable_full_inv [OF w(1)], of example_c_ctx p example_addr] go by simp_all
  have "find_peer_by_id w (slice 4 8 p) = Some r" by (rule transport_begin_go [OF go]) (simp add: find_peer_by_id_def)
  then have r: "r = 0" using find_by_id_live [OF wg_invD(3) [OF inv(1)]] w(5) by blast
  define addr where "addr = (if pi_endpoint (ps_info (ws_peers v 0)) = Some example_addr then example_addr\<lparr>sa6_port := 3\<rparr> else example_addr)"
  have "pi_endpoint (ps_info (ws_peers v 0)) \<noteq> Some addr" by (simp add: addr_def example_addr_def)
  moreover have "pi_roaming (ps_info (ws_peers v 0))" using transport_begin_roaming [OF go] w(4) r by simp
  ultimately have go': "transport_begin example_c_ctx p addr w = TransportGo 0 (Some example_pkt) True h v"
    using transport_begin_addr [OF go, of addr] r by simp
  have "0 \<in> live v" using transport_begin_keys [OF go] w(5) by simp
  then obtain pk where pk: "find_peer_by_pubkey v pk = Some 0" using live_has_key [OF full_invD(1) [OF inv(2)]] by blast
  let ?c = "(example_connect 0 (Some (SockV4 1 2)))\<lparr>sp_public_key := pk\<rparr>"
  have c: "command_ok ?c" "find_peer_by_pubkey v (sp_public_key ?c) = Some 0" "sp_endpoint ?c \<noteq> None"
    using pk by (simp_all add: command_ok_def example_connect_def)
  show ?thesis using transport_set_peer_race [OF w(1) go' c, of 7] w(1) go' by blast
qed

end
