(* ===== verification/Wg_Initiations.thy ===== *)
theory Wg_Initiations
  imports Wg_Examples
begin

text \<open>
  Replayed initiations. A peer records the time of the last initiation it accepted, and no event of
  the interface other than a newer initiation changes that record: \<open>stamps_grow\<close> follows it along any
  run. So an initiation that has been accepted once is never answered again.
\<close>

section \<open>The recorded times after an operation\<close>

definition stamps :: "'h wg_state \<Rightarrow> nat \<Rightarrow> tai64n option" where
  "stamps w r = ps_last_handshake (ws_peers w r)"

named_theorems stamp_of \<open>recorded times after an operation on a peer\<close>

lemma stamp_of_peer [stamp_of]:
  "ps_last_handshake (ps_count_recv n p) = ps_last_handshake p" "ps_last_handshake (ps_count_send n p) = ps_last_handshake p"
  "ps_last_handshake (ps_on_recv now b p) = ps_last_handshake p" "ps_last_handshake (ps_adjust_persistent now p) = ps_last_handshake p"
  "ps_last_handshake (ps_on_send_transport now p) = ps_last_handshake p"
  "ps_last_handshake (ps_on_send_keepalive now p) = ps_last_handshake p"
  "ps_last_handshake (ps_enqueue_packet now pkt p) = ps_last_handshake p"
  "ps_last_handshake (set_transport i t p) = ps_last_handshake p"
  by (simp_all add: ps_count_recv_def ps_count_send_def ps_on_recv_def ps_adjust_persistent_def ps_on_send_transport_def
      ps_on_send_keepalive_def ps_enqueue_packet_def set_transport_def Let_def split: option.split)

lemma stamp_of_results:
  "learn_endpoint addr p = Some p' \<Longrightarrow> ps_last_handshake p' = ps_last_handshake p"
  "ps_set_endpoint addr p = Some p' \<Longrightarrow> ps_last_handshake p' = ps_last_handshake p"
  "ps_push_transport now t p = (d, p') \<Longrightarrow> ps_last_handshake p' = ps_last_handshake p"
  "ps_clear_all p = (d, p') \<Longrightarrow> ps_last_handshake p' = ps_last_handshake p"
  "ps_dequeue_all p = (q, p') \<Longrightarrow> ps_last_handshake p' = ps_last_handshake p"
  by (auto simp: learn_endpoint_def ps_set_endpoint_def ps_push_transport_def ps_on_new_transport_def ps_clear_all_def
      ps_dequeue_all_def Let_def split: if_splits)

lemma stamp_fold_send [stamp_of]: "ps_last_handshake (fold (\<lambda>q. ps_count_send (length q + 32)) qs p) = ps_last_handshake p"
  by (induction qs arbitrary: p) (simp_all add: stamp_of)

lemma stamps_update [stamp_of]:
  "(\<And>p. ps_last_handshake (f p) = ps_last_handshake p) \<Longrightarrow> stamps (update_peer r f w) = stamps w"
  "stamps (update_peer r (\<lambda>_. p) w) = (stamps w)(r := ps_last_handshake p)"
  "stamps (drop_guards ids w) = stamps w" "stamps (w\<lparr>ws_id_map := m\<rparr>) = stamps w"
  "(stamps w)(r := ps_last_handshake (ws_peers w r)) = stamps w"
  by (auto simp: stamps_def update_peer_def drop_guards_def)

lemma do_handshake_stamps [stamp_of]: "stamps (do_handshake now r w) = stamps w"
  by (simp add: do_handshake_def stamp_of Let_def)

lemma keepalive_stamps: "do_keepalive1 cx r w = Some (b, out, w') \<Longrightarrow> stamps w' = stamps w"
  by (auto simp: do_keepalive1_def Let_def stamp_of split: option.splits prod.splits)

lemma run_timer_stamps: "run_timer cx k r w = Some (out, w') \<Longrightarrow> stamps w' = stamps w"
proof -
  assume run: "run_timer cx k r w = Some (out, w')"
  have alive: "stamps v = stamps w"
    if "do_keepalive1 cx r (update_peer r f w) = Some (b, out, v)" "\<And>p. ps_last_handshake (f p) = ps_last_handshake p" for f b out v
    using keepalive_stamps [OF that(1)] by (simp add: that(2) stamp_of)
  show ?thesis
    using run
    by (cases k) (auto simp: run_timer_def action_rekey_no_recv_def action_keepalive_def action_persistent_keepalive_def
        action_stop_handshake_def action_clear_def stamp_of Let_def
        split: if_splits prod.splits option.splits dest!: alive stamp_of_results)
qed

lemma handshake_loop_stamps: "handshake_loop cx r w = Some (out, w') \<Longrightarrow> stamps w' = stamps w"
proof -
  assume "handshake_loop cx r w = Some (out, w')"
  moreover have "handshake_send cx r w = Some (out, v) \<Longrightarrow> stamps v = stamps w" for out v
    by (auto simp: handshake_send_def stamp_of Let_def split: option.splits rust_result.splits)
  ultimately show ?thesis
    by (auto simp: handshake_loop_def stamp_of split: option.splits if_splits prod.splits)
qed

lemma load_stamps: "check_handshake_load cx w = (load, v) \<Longrightarrow> stamps v = stamps w"
  using check_handshake_load_inv(6) [of cx w load v] by (auto simp: stamps_def)

lemma resp_begin_stamps:
  "case handshake_resp_begin cx p addr w of
     RespPanic \<Rightarrow> True | RespDone out v \<Rightarrow> stamps v = stamps w | RespCommit r i j hs v \<Rightarrow> stamps v = stamps w"
  by (auto simp: handshake_resp_begin_def Let_def stamp_of dest: load_stamps
      split: if_splits rust_result.splits option.splits prod.splits bool.splits)

lemma resp_commit_stamps: "handshake_resp_commit cx r i j hs addr w = Some (out, w') \<Longrightarrow> stamps w' = stamps w"
  by (auto simp: handshake_resp_commit_def Let_def stamp_of split: option.splits prod.splits if_splits dest!: stamp_of_results)

lemma handshake_resp_stamps: "udp_process_handshake_resp cx p addr w = Some (out, w') \<Longrightarrow> stamps w' = stamps w"
  using resp_begin_stamps [where cx = cx and p = p and addr = addr and w = w]
  by (cases "handshake_resp_begin cx p addr w") (auto simp: udp_process_handshake_resp_def dest!: resp_commit_stamps)

lemma cookie_reply_stamps: "udp_process_cookie_reply cx p w = Some (out, w') \<Longrightarrow> stamps w' = stamps w"
  by (auto simp: udp_process_cookie_reply_def Let_def stamp_of split: rust_result.splits option.splits)

lemma transport_stamps: "udp_process_transport cx p addr w = Some (out, w') \<Longrightarrow> stamps w' = stamps w"
proof -
  assume run: "udp_process_transport cx p addr w = Some (out, w')"
  have "case transport_begin cx p addr w of
      TransportPanic \<Rightarrow> True | TransportDone v \<Rightarrow> stamps v = stamps w | TransportGo r m e h v \<Rightarrow> stamps v = stamps w"
    by (auto simp: transport_begin_def Let_def stamp_of split: if_splits option.splits prod.splits)
  moreover have "transport_commit cx r m e h addr v = Some (out, v') \<Longrightarrow> stamps v' = stamps v" for r m e h v v'
    by (auto simp: transport_commit_def stamp_of split: if_splits option.splits dest!: stamp_of_results)
  ultimately show ?thesis
    using run by (cases "transport_begin cx p addr w") (auto simp: udp_process_transport_def)
qed

lemma tun_packet_stamps: "tun_packet_processing cx pkt w = Some (out, w') \<Longrightarrow> stamps w' = stamps w"
  by (auto simp: tun_packet_processing_def Let_def stamp_of split: if_splits option.splits prod.splits)

section \<open>Initiations\<close>

definition grown :: "tai64n option \<Rightarrow> tai64n option \<Rightarrow> bool" where
  "grown a b \<longleftrightarrow> a = b \<or> (\<exists>t. b = Some t \<and> newer t a)"

lemma grown_refl [simp]: "grown a a"
  by (simp add: grown_def)

lemma newer_trans: "newer t a \<Longrightarrow> newer s (Some t) \<Longrightarrow> newer s a"
  by (cases a) (simp_all add: newer_def less_trans)

lemma grown_trans: "grown a b \<Longrightarrow> grown b c \<Longrightarrow> grown a c"
  unfolding grown_def by (metis newer_trans)

lemma grown_Some: "newer t a \<Longrightarrow> grown a (Some t)"
  unfolding grown_def by blast

lemma grown_not_newer: "grown (Some t) b \<Longrightarrow> \<not> t < t' \<Longrightarrow> \<not> newer t' b"
proof -
  assume "grown (Some t) b" "\<not> t < t'"
  then consider "b = Some t" | u where "b = Some u" "t < u" by (auto simp del: split_paired_Ex simp: grown_def newer_def)
  then show ?thesis using \<open>\<not> t < t'\<close> by cases (simp_all add: newer_def not_less order.trans less_imp_le)
qed

lemma init_peer_stamps:
  assumes "init_peer cx r result p addr w = Some (out, w')"
  shows "(\<not> newer (ir_timestamp result) (stamps w r) \<and> out = [] \<and> w' = update_peer r (ps_count_recv (length p)) w) \<or>
    (newer (ir_timestamp result) (stamps w r) \<and> stamps w' = (stamps w)(r := Some (ir_timestamp result)))"
proof (cases "newer (ir_timestamp result) (stamps w r)")
  case False
  then show ?thesis using assms by (simp add: init_peer_def Let_def stamp_of stamps_def update_peer_def)
next
  case True
  then have "stamps w' = (stamps w)(r := Some (ir_timestamp result))"
    using assms
    by (auto simp: init_peer_def Let_def stamp_of stamps_def [symmetric] split: option.splits rust_result.splits prod.splits if_splits
        dest!: stamp_of_results)
  then show ?thesis using True by simp
qed

lemma handshake_init_stamps: "udp_process_handshake_init cx p addr w = Some (out, w') \<Longrightarrow> grown (stamps w r) (stamps w' r)"
proof -
  assume run: "udp_process_handshake_init cx p addr w = Some (out, w')"
  have same: "grown (stamps v q) (stamps w' q)" if "init_peer cx r result p addr v = Some (out, w')" for r result v q
    using init_peer_stamps [OF that] by (cases "q = r") (auto simp: stamp_of grown_Some)
  show ?thesis
    using run
    by (auto simp: udp_process_handshake_init_def Let_def split: if_splits rust_result.splits option.splits prod.splits bool.splits
        dest: load_stamps dest!: same [where q = r])
qed

lemma step_stamps:
  assumes inv: "wg_inv w" and e: "event_ok e" and run: "wg_step o' cx e w = Some (out, w')" and r: "r \<in> live w" "r \<in> live w'"
  shows "grown (stamps w r) (stamps w' r)"
proof (cases e)
  case (EvDatagram p addr)
  then show ?thesis
    using run
    by (auto simp: wg_step_def udp_processing_def Let_def split: if_splits intro: handshake_init_stamps
        dest: handshake_resp_stamps cookie_reply_stamps transport_stamps)
next
  case (EvConfig c)
  then have "w' = w \<or> (\<exists>now. config_step o' now c w = ROk w')"
    using run by (auto simp: wg_step_def split: rust_result.splits)
  then show ?thesis
  proof
    assume "\<exists>now. config_step o' now c w = ROk w'"
    then have "reconfigures w w'" using config_step_reconfigures [OF inv] e EvConfig by fastforce
    from reconfiguresE [OF this r(2)] show ?thesis using r(1) by cases (auto simp: drops_to_def stamps_def)
  qed simp
next
  case (EvPacket pkt)
  then show ?thesis using run tun_packet_stamps by (fastforce simp: wg_step_def)
next
  case (EvTimer k q)
  then show ?thesis using run run_timer_stamps by (fastforce simp: wg_step_def split: if_splits)
next
  case (EvHandshakeLoop q)
  then show ?thesis using run handshake_loop_stamps by (fastforce simp: wg_step_def split: if_splits)
qed (use run in \<open>auto simp: wg_step_def task_update_cookie_secret_def task_update_mtu_def task_rx_start_def
      rx_replace_socket_def Let_def stamps_def update_peer_def split: if_splits option.splits list.splits\<close>)

text \<open>A run of the interface in which a peer stays configured.\<close>

inductive follows :: "os \<Rightarrow> 'h hs_externals \<Rightarrow> nat \<Rightarrow> 'h wg_state \<Rightarrow> 'h wg_state \<Rightarrow> bool" for o' x r where
  stay: "wg_reachable o' x w \<Longrightarrow> r \<in> live w \<Longrightarrow> follows o' x r w w"
| move: "follows o' x r w v \<Longrightarrow> ctx_ok cx v \<Longrightarrow> cx_ext cx = x \<Longrightarrow> event_ok e \<Longrightarrow> wg_step o' cx e v = Some (out, w') \<Longrightarrow>
    r \<in> live w' \<Longrightarrow> follows o' x r w w'"

lemma stamps_grow: "follows o' x r w w' \<Longrightarrow> wg_reachable o' x w' \<and> r \<in> live w' \<and> grown (stamps w r) (stamps w' r)"
proof (induction rule: follows.induct)
  case (move w v cx e out w')
  then have "wg_reachable o' x w'" by (blast intro: wg_reachable.step)
  moreover have "grown (stamps v r) (stamps w' r)"
    using step_stamps [OF wg_reachable_inv move.hyps(4,5) _ move.hyps(6)] move.IH by blast
  ultimately show ?case using move.IH move.hyps(6) grown_trans by blast
qed simp

lemma initiation_processed:
  assumes "initiation_of x w p = Some (r, t)" "cx_ext cx = x" "udp_processing cx p addr w = Some (out, w')"
  shows "(ws_peers w' = ws_peers w \<and> (out = [] \<or> fst (check_handshake_load cx w))) \<or>
    (\<exists>result v. ir_timestamp result = t \<and> ws_peers v = ws_peers w \<and> ws_info v = ws_info w \<and>
       ws_pubkey_map v = ws_pubkey_map w \<and> ws_id_map v = ws_id_map w \<and> init_peer cx r result p addr v = Some (out, w'))"
proof -
  obtain result pk where result: "process_initiation x (ws_info w) p = ROk result"
    "ns_get_rs (x_noise x) (ir_handshake_state result) = Some pk" "find_peer_by_pubkey w pk = Some r" "ir_timestamp result = t"
    using assms(1) by (auto simp: initiation_of_def split: rust_result.splits Option.bind_splits)
  then have "slice 0 4 p = [1, 0, 0, 0]" by (auto simp: process_initiation_def split: if_splits)
  then have ty: "p ! 0 = 1" by (rule first_byte)
  obtain load v where load: "check_handshake_load cx w = (load, v)" by fastforce
  have v: "ws_peers v = ws_peers w" "ws_info v = ws_info w" "ws_pubkey_map v = ws_pubkey_map w" "ws_id_map v = ws_id_map w"
    using check_handshake_load_inv [OF load] by simp_all
  then have "find_peer_by_pubkey v pk = Some r" using result(3) by (simp add: find_peer_by_pubkey_def)
  then show ?thesis
    using assms(2,3) ty load v result
    by (auto simp: udp_processing_def udp_process_handshake_init_def Let_def split: if_splits option.splits bool.splits)
qed

text \<open>
  C6: An initiation is accepted once. If an initiation of a peer has made the interface create a session
  for it, then its time was newer than any before, and from then on, as long as the peer stays
  configured and whatever else happens, an initiation of that peer with the same time or an older one,
  in particular a replay, changes nothing but the byte counter of the peer and is not answered; under
  load it may be answered with a cookie.
\<close>

theorem initiation_accepted_once:
  fixes x :: "'h hs_externals"
  assumes "wg_reachable o' x w" "ctx_ok c1 w" "cx_ext c1 = x" "initiation_of x w p1 = Some (r, t1)"
    and first: "udp_processing c1 p1 addr1 w = Some (out1, w1)" "ps_transports (ws_peers w1 r) \<noteq> ps_transports (ws_peers w r)"
    and later: "follows o' x r w1 w2" "cx_ext c2 = x" "initiation_of x w2 p2 = Some (r, t2)" "\<not> t1 < t2"
      "udp_processing c2 p2 addr2 w2 = Some (out2, w2')"
  shows "newer t1 (ps_last_handshake (ws_peers w r)) \<and>
    ws_peers w2' r \<in> {ws_peers w2 r, ps_count_recv (length p2) (ws_peers w2 r)} \<and>
    (out2 = [] \<or> fst (check_handshake_load c2 w2))"
proof -
  obtain result v where v: "ir_timestamp result = t1" "ws_peers v = ws_peers w" "init_peer c1 r result p1 addr1 v = Some (out1, w1)"
    using initiation_processed [OF assms(4,3) first(1)] first(2) by metis
  have "ps_transports (ws_peers w1 r) \<noteq> ps_transports (ws_peers v r)" using first(2) v(2) by simp
  then have new: "newer t1 (stamps v r)" "stamps w1 r = Some t1"
    using init_peer_stamps [OF v(3)] v(1) by (auto simp: update_peer_def ps_count_recv_def)
  have "grown (Some t1) (stamps w2 r)" using stamps_grow [OF later(1)] new(2) by simp
  then have "\<not> newer t2 (stamps w2 r)" using later(4) by (rule grown_not_newer)
  then have "\<not> newer t2 (stamps u r)" if "ws_peers u = ws_peers w2" for u using that by (simp add: stamps_def)
  then have "ws_peers w2' r \<in> {ws_peers w2 r, ps_count_recv (length p2) (ws_peers w2 r)} \<and> (out2 = [] \<or> fst (check_handshake_load c2 w2))"
    using initiation_processed [OF later(3,2,5)] init_peer_stamps by (fastforce simp: update_peer_def)
  then show ?thesis using new(1) v(2) by (simp add: stamps_def)
qed

text \<open>The first initiation of the exchange of \<open>Wg_Examples\<close>, sent again.\<close>

lemma init_peer_same:
  "init_peer cx r result p addr w = Some (out, w') \<Longrightarrow> ws_info w' = ws_info w \<and> ws_pubkey_map w' = ws_pubkey_map w \<and>
    (\<forall>j. ws_id_map w j = None \<longrightarrow> j \<noteq> cx_id cx \<longrightarrow> ws_id_map w' j = None)"
  by (auto simp: init_peer_def Let_def update_peer_def drop_guards_def restrict_map_def
      split: option.splits rust_result.splits prod.splits if_splits)

theorem initiation_accepted_once_witness:
  "\<exists>w p out1 w1 out2 w2. wg_reachable example_os mock_externals w \<and>
    udp_processing example_b_ctx p example_addr w = Some (out1, w1) \<and> ps_transports (ws_peers w1 0) \<noteq> ps_transports (ws_peers w 0) \<and>
    udp_processing example_c_ctx p example_addr w1 = Some (out2, w2) \<and>
    ws_peers w2 0 \<in> {ws_peers w1 0, ps_count_recv (length p) (ws_peers w1 0)} \<and>
    (out2 = [] \<or> fst (check_handshake_load example_c_ctx w1))"
proof -
  let ?w = "example_peered 2 1 None" and ?t = "truncate_timestamp (cx_tai_now example_ctx)"
  obtain wB key m0 m where b: "wg_reachable example_os mock_externals wB" "receives wB 0 [5, 6, 7, 8] key 0" "live wB = {0}"
    "udp_processing example_b_ctx m0 example_addr ?w = Some ([SendUdp m example_addr], wB)"
    "initiation_of mock_externals ?w m0 = Some (0, ?t)"
    by (rule example_sessions)
  have ext: "cx_ext example_b_ctx = mock_externals" by (simp add: example_b_ctx_def example_ctx_def)
  have ok: "ctx_ok example_b_ctx ?w" by (simp add: ctx_ok_def example_b_ctx_def example_ctx_def mock_externals_ok example_peered_sel)
  have ts: "ps_transports (ws_peers wB 0) \<noteq> ps_transports (ws_peers ?w 0)"
    using b(2) by (auto simp: receives_def example_peered_sel ps_new_def)
  then obtain result v where v: "ws_info v = ws_info ?w" "ws_pubkey_map v = ws_pubkey_map ?w" "ws_id_map v = ws_id_map ?w"
    "init_peer example_b_ctx 0 result m0 example_addr v = Some ([SendUdp m example_addr], wB)"
    using initiation_processed [OF b(5) ext b(4)] by metis
  have same: "ws_info wB = ws_info ?w" "ws_pubkey_map wB = ws_pubkey_map ?w" "ws_id_map wB [9, 9, 9, 9] = None"
    using init_peer_same [OF v(4)] v(1-3) by (simp_all add: example_peered_sel example_b_ctx_def)
  have again: "initiation_of mock_externals wB m0 = Some (0, ?t)"
    using b(5) unfolding initiation_of_def find_peer_by_pubkey_def same .
  have "ctx_ok example_c_ctx wB" using same(3) by (simp add: ctx_ok_def example_c_ctx_def example_ctx_def mock_externals_ok)
  then obtain out2 w2 where run: "udp_processing example_c_ctx m0 example_addr wB = Some (out2, w2)"
    using udp_processing_inv [OF reachable_full_inv [OF b(1)] _ example_c_ext, of m0 example_addr] by (auto simp: goes_on_def)
  have stay: "follows example_os mock_externals 0 wB wB" using b(1,3) by (intro follows.stay) simp_all
  show ?thesis
    using initiation_accepted_once [OF example_reachable ok ext b(5,4) ts stay example_c_ext again less_irrefl run]
      example_reachable [of 2 1 None] b(4) ts run by blast
qed

end
