(* ===== verification/Wg_Limits.thy ===== *)
theory Wg_Limits
  imports Wg_Examples
begin

text \<open>
  Where the packet handlers fall short: IPv6 packets lose their last 40 bytes on the way to the tunnel,
  and a packet that fills the receive buffer ends the receiving loop when it waits for a handshake.
\<close>

section \<open>IPv6 packets\<close>

text \<open>
  C40: An IPv6 packet reaches the tunnel truncated. \<open>udp_process_transport\<close> cuts the decrypted packet to
  the length \<open>parse_ip_packet\<close> returns, which for IPv6 is that of the payload without its header of 40
  bytes: of a correct packet from the right peer, with any padding, the last 40 bytes are never written.
\<close>

theorem ipv6_packet_truncated:
  assumes "tc < 16" "length flow = 3" "unat payload_len = length payload" "find_peer_by_ip w (IpV6 src) = Some r"
    and q: "q = ipv6_packet tc flow payload_len next_header hop src dst payload"
  shows "packet_to_write w r (q @ replicate n 0) = Some (take (length q - 40) q) \<and> 40 \<le> length q"
proof -
  have len: "length q = length payload + 40" using assms(2) by (simp add: q ipv6_packet_def)
  have "q @ replicate n 0 = ipv6_packet tc flow payload_len next_header hop src dst (payload @ replicate n 0)"
    by (simp add: q ipv6_packet_def)
  then have "parse_ip_packet (q @ replicate n 0) = Some (payload_len, IpV6 src, IpV6 dst)"
    using assms(1-3) by (simp add: parse_ipv6_packet)
  then show ?thesis using assms(3,4) len by (simp add: packet_to_write_def)
qed

theorem ipv6_packet_truncated_witness:
  "packet_to_write (example_new\<lparr>ws_rt6 := \<lparr>lt_root = Some (TrieNode 0 0 None None (Some 0))\<rparr>\<rparr>) 0
      (ipv6_packet 0 [0, 0, 0] 4 17 64 1 2 [1, 2, 3, 4] @ replicate 4 0) = Some [0x60, 0, 0, 0]"
proof -
  let ?w = "example_new\<lparr>ws_rt6 := \<lparr>lt_root = Some (TrieNode 0 0 None None (Some 0))\<rparr>\<rparr>"
  have "find_peer_by_ip ?w (IpV6 1) = Some 0"
    by (simp add: find_peer_by_ip_def table_longest_match_def node_longest_match_def longest_match_loop.simps to_mask_def Let_def)
  from ipv6_packet_truncated [OF _ _ _ this refl, of 0 "[0, 0, 0]" 4 "[1, 2, 3, 4]" 17 64 2 4]
  show ?thesis by (simp add: ipv6_packet_def)
qed

section \<open>Large packets\<close>

lemma send_queued_large: "\<exists>q \<in> set qs. BUFSIZE < length q + 32 \<Longrightarrow> send_queued ae addr t qs = None"
  by (induction qs arbitrary: t) (auto split: option.split prod.split)

text \<open>
  A packet of more than 65504 bytes is queued like any other; when the handshake it waits for completes,
  the handler of the response slices its buffer of 65536 bytes past the end.
\<close>

lemma large_packet_panics:
  assumes "\<exists>q \<in> set (ps_queue (ws_peers w r)). BUFSIZE < length q + 32"
  shows "handshake_resp_commit cx r self_id peer_id hs addr w = None"
proof -
  have push: "ps_queue p' = ps_queue p" if "ps_push_transport now t p = (d, p')" for now t d and p p' :: "'a peer_state"
    using that by (auto simp: ps_push_transport_def ps_on_new_transport_def Let_def split: if_splits)
  have learn: "ps_queue p' = ps_queue p" if "learn_endpoint addr p = Some p'" for p p' :: "'a peer_state"
    using that by (auto simp: learn_endpoint_def ps_set_endpoint_def split: if_splits)
  have "ps_queue (ws_peers w r) \<noteq> []" using assms by auto
  then show ?thesis
    using send_queued_large [OF assms]
    by (auto simp: handshake_resp_commit_def ps_dequeue_all_def Let_def split: option.splits prod.splits dest!: push learn)
qed

lemma packet_queued:
  assumes "tun_packet_processing cx pkt w = Some (out, w')" "parse_ip_packet (padded_packet w pkt) = Some (len, src, dst)"
    and "find_peer_by_ip w dst = Some r" "pi_endpoint (ps_info (ws_peers w r)) = Some endpoint"
    and "ps_find_transport_to_send (ws_peers w r) = None"
  shows "padded_packet w pkt \<in> set (ps_queue (ws_peers w' r))"
  using tun_packet_processing_routed [OF assms(1-4)] assms(5)
  by (auto simp: do_handshake_def ps_enqueue_packet_def update_peer_def Let_def)

end
